(* ===== verification/Prelude.thy ===== *)
theory Prelude
  imports
    Main
    "HOL-Library.Word"
    "HOL-Library.Char_ord"
    "HOL-Library.List_Lexorder"
    "HOL-Library.Product_Lexorder"
begin

text \<open>
  Shared vocabulary of the development: names for the machine types of the source, the result
  type of fallible code, the decimal rendering that \<^verbatim>\<open>format!("{}", n)\<close> produces, generic facts on
  lists and maps, and the interfaces (locales) that several components share.
\<close>

section \<open>Types\<close>

text \<open>
  Integers whose overflow matters are words. Sizes and lengths, which no code path wraps, are
  natural numbers. A \<^verbatim>\<open>u8\<close> is an 8-bit character, so both \<^verbatim>\<open>Bytes\<close> and a Rust \<^verbatim>\<open>str\<close> (its UTF-8
  bytes) are lists of characters; \<^verbatim>\<open>str\<close> comparison is the lexicographic order on such lists.
\<close>

type_synonym u32 = "32 word"
type_synonym u64 = "64 word"
type_synonym bytes = "char list"

text \<open>A fallible operation returns \<open>Inl\<close> of its error or \<open>Inr\<close> of its value, as Rust's
  \<^verbatim>\<open>Result\<close> does; \<open>and_then\<close> is the question mark operator.\<close>

type_synonym ('a, 'e) result = "'e + 'a"

fun and_then :: "'e + 'a \<Rightarrow> ('a \<Rightarrow> 'e + 'b) \<Rightarrow> 'e + 'b" where
  "and_then (Inl e) f = Inl e"
| "and_then (Inr a) f = f a"

text \<open>The decimal digits of a number, most significant first, as the integer formatter of the
  standard library writes them.\<close>

fun show_nat :: "nat \<Rightarrow> string" where
  "show_nat n =
     (if n < 10 then [char_of (48 + n)]
      else show_nat (n div 10) @ [char_of (48 + n mod 10)])"

text \<open>The reader of such digits: the value of a digit string.\<close>

definition read_digits :: "string \<Rightarrow> nat" where
  "read_digits s = foldl (\<lambda>acc c. 10 * acc + (of_char c - 48)) 0 s"

text \<open>Removal of the element at an index, as \<^verbatim>\<open>VecDeque::remove\<close> does.\<close>

definition remove_at :: "nat \<Rightarrow> 'a list \<Rightarrow> 'a list" where
  "remove_at i xs = take i xs @ drop (Suc i) xs"

text \<open>\<^verbatim>\<open>Iterator::position\<close>: the index of the first element that satisfies a predicate.\<close>

fun position :: "('a \<Rightarrow> bool) \<Rightarrow> 'a list \<Rightarrow> nat option" where
  "position p [] = None"
| "position p (x # xs) = (if p x then Some 0 else map_option Suc (position p xs))"

text \<open>A loop that feeds inputs to a stateful operation one by one and collects the results.\<close>

fun serve :: "('s \<Rightarrow> 'c \<Rightarrow> 'r \<times> 's) \<Rightarrow> 's \<Rightarrow> 'c list \<Rightarrow> 'r list \<times> 's" where
  "serve f s [] = ([], s)"
| "serve f s (c # cs) =
     (case f s c of (r, s') \<Rightarrow> (case serve f s' cs of (rs, s'') \<Rightarrow> (r # rs, s'')))"

text \<open>
  A \<^verbatim>\<open>HashMap\<close> is an association list with distinct keys. No operation of the model depends on the
  order of the entries; where the source iterates over a hash container, the order of the
  iteration is a parameter of the model.
\<close>

type_synonym ('k, 'v) hmap = "('k \<times> 'v) list"

fun hm_get :: "('k, 'v) hmap \<Rightarrow> 'k \<Rightarrow> 'v option" where
  "hm_get [] k = None"
| "hm_get ((k', v) # m) k = (if k = k' then Some v else hm_get m k)"

definition hm_remove :: "'k \<Rightarrow> ('k, 'v) hmap \<Rightarrow> ('k, 'v) hmap" where
  "hm_remove k m = filter (\<lambda>p. fst p \<noteq> k) m"

definition hm_insert :: "'k \<Rightarrow> 'v \<Rightarrow> ('k, 'v) hmap \<Rightarrow> ('k, 'v) hmap" where
  "hm_insert k v m = (k, v) # hm_remove k m"

definition hm_ok :: "('k, 'v) hmap \<Rightarrow> bool" where
  "hm_ok m \<longleftrightarrow> distinct (map fst m)"

section \<open>Collections of facts\<close>

named_theorems pg_defs \<open>definitions of the model that evaluation unfolds\<close>
named_theorems pg_inv \<open>invariant preservation, one fact per operation\<close>

section \<open>Generic facts\<close>

declare show_nat.simps [simp del]

lemma and_then_Inr [simp]: "and_then r Inr = r"
  by (cases r) auto

lemma and_then_eq_Inr: "and_then r f = Inr b \<longleftrightarrow> (\<exists>a. r = Inr a \<and> f a = Inr b)"
  by (cases r) auto

lemma and_then_eq_Inl: "and_then r f = Inl e \<longleftrightarrow> r = Inl e \<or> (\<exists>a. r = Inr a \<and> f a = Inl e)"
  by (cases r) auto

lemma read_digits_snoc [simp]: "read_digits (s @ [c]) = 10 * read_digits s + (of_char c - 48)"
  by (simp add: read_digits_def)

lemma read_show_nat: "read_digits (show_nat n) = n"
proof (induction n rule: show_nat.induct)
  case (1 n)
  show ?case
  proof (cases "n < 10")
    case True
    then show ?thesis by (simp add: show_nat.simps [of n] read_digits_def)
  next
    case False
    with "1.IH" show ?thesis by (simp add: show_nat.simps [of n])
  qed
qed

lemma inj_show_nat: "inj show_nat"
  by (rule inj_on_inverseI [where g = read_digits]) (rule read_show_nat)

lemma show_nat_inject [simp]: "show_nat m = show_nat n \<longleftrightarrow> m = n"
  using inj_show_nat by (auto dest: injD)

lemma position_Some:
  "position p xs = Some i \<Longrightarrow> i < length xs \<and> p (xs ! i) \<and> (\<forall>j<i. \<not> p (xs ! j))"
proof (induction xs arbitrary: i)
  case Nil
  then show ?case by simp
next
  case (Cons x xs)
  show ?case
  proof (cases "p x")
    case True
    with Cons.prems show ?thesis by simp
  next
    case False
    with Cons.prems obtain k where k: "position p xs = Some k" and i: "i = Suc k"
      by auto
    from Cons.IH [OF k] False i show ?thesis
      by (auto simp: less_Suc_eq_0_disj)
  qed
qed

lemma position_None: "position p xs = None \<longleftrightarrow> (\<forall>x\<in>set xs. \<not> p x)"
  by (induction xs) auto

lemma length_remove_at: "i < length xs \<Longrightarrow> length (remove_at i xs) = length xs - 1"
  by (simp add: remove_at_def min_def)

lemma set_remove_at: "set (remove_at i xs) \<subseteq> set xs"
  by (auto simp: remove_at_def dest: in_set_takeD in_set_dropD)

lemma hm_get_map_of: "hm_get m = map_of m"
  by (rule ext, induction m) auto

lemma hm_get_remove [simp]: "hm_get (hm_remove k m) = (hm_get m)(k := None)"
  by (rule ext, induction m) (auto simp: hm_remove_def)

lemma hm_get_insert [simp]: "hm_get (hm_insert k v m) = (hm_get m)(k \<mapsto> v)"
proof
  fix k'
  show "hm_get (hm_insert k v m) k' = ((hm_get m)(k \<mapsto> v)) k'"
    using hm_get_remove [of k m] by (simp add: hm_insert_def)
qed

lemma keys_hm_remove [simp]: "fst ` set (hm_remove k m) = fst ` set m - {k}"
  by (auto simp: hm_remove_def)

lemma hm_ok_Nil [simp]: "hm_ok []"
  by (simp add: hm_ok_def)

lemma hm_ok_Cons [simp]: "hm_ok ((k, v) # m) \<longleftrightarrow> hm_get m k = None \<and> hm_ok m"
  by (simp add: hm_ok_def hm_get_map_of map_of_eq_None_iff)

lemma hm_ok_remove [simp]: "hm_ok m \<Longrightarrow> hm_ok (hm_remove k m)"
  by (simp add: hm_ok_def hm_remove_def distinct_map_filter)

lemma hm_ok_insert [simp]: "hm_ok m \<Longrightarrow> hm_ok (hm_insert k v m)"
  using hm_get_remove [of k m] by (simp add: hm_insert_def)

lemma hm_remove_absent [simp]: "hm_get m k = None \<Longrightarrow> hm_remove k m = m"
  by (induction m) (auto simp: hm_remove_def split: if_splits)

lemma hm_get_in_set: "hm_ok m \<Longrightarrow> hm_get m k = Some v \<longleftrightarrow> (k, v) \<in> set m"
  by (simp add: hm_ok_def hm_get_map_of)

lemma length_hm_remove:
  "hm_ok m \<Longrightarrow> hm_get m k = Some v \<Longrightarrow> Suc (length (hm_remove k m)) = length m"
proof (induction m)
  case (Cons p m)
  obtain k' v' where p: "p = (k', v')" by fastforce
  show ?case
  proof (cases "k' = k")
    case True
    with Cons.prems(1) p have "hm_remove k m = m" by simp
    with True p show ?thesis by (simp add: hm_remove_def)
  next
    case False
    with Cons p show ?thesis by (simp add: hm_remove_def split: if_splits)
  qed
qed simp

lemma length_hm_insert:
  "hm_ok m \<Longrightarrow> length (hm_insert k v m) = (if hm_get m k = None then Suc (length m) else length m)"
  by (cases "hm_get m k") (auto simp: hm_insert_def length_hm_remove)

lemma unat_of_nat_u64: "n < 2 ^ 64 \<Longrightarrow> unat (of_nat n :: u64) = n"
  by (simp add: unat_of_nat)

section \<open>Interfaces\<close>

text \<open>
  The dictionary the components rely on: what a lookup returns after an insertion or a removal,
  and that both keep one entry per key.
\<close>

locale dictionary =
  fixes get :: "'m \<Rightarrow> 'k \<Rightarrow> 'v option"
    and put :: "'k \<Rightarrow> 'v \<Rightarrow> 'm \<Rightarrow> 'm"
    and del :: "'k \<Rightarrow> 'm \<Rightarrow> 'm"
    and size :: "'m \<Rightarrow> nat"
    and ok :: "'m \<Rightarrow> bool"
  assumes get_put: "get (put k v m) = (get m)(k \<mapsto> v)"
    and get_del: "get (del k m) = (get m)(k := None)"
    and ok_put: "ok m \<Longrightarrow> ok (put k v m)"
    and ok_del: "ok m \<Longrightarrow> ok (del k m)"
    and size_put_new: "ok m \<Longrightarrow> get m k = None \<Longrightarrow> size (put k v m) = Suc (size m)"
    and size_del: "ok m \<Longrightarrow> get m k = Some v \<Longrightarrow> Suc (size (del k m)) = size m"
begin

lemma size_put_del: "ok m \<Longrightarrow> get m k = None \<Longrightarrow> size (del k (put k v m)) = size m"
  using size_del [of "put k v m" k v] size_put_new [of m k v] ok_put [of m k v]
  by (simp add: get_put)

lemma get_put_del: "get m k = None \<Longrightarrow> get (del k (put k v m)) = get m"
  by (auto simp: get_put get_del)

end

interpretation hm: dictionary "hm_get" hm_insert hm_remove length "\<lambda>m. hm_ok m"
  by unfold_locales (auto simp: length_hm_insert length_hm_remove)

text \<open>
  A queue of expected responses: an item pushed at the back is answered when it reaches the front,
  and a response that matches the front item consumes exactly that item.
\<close>

locale response_queue =
  fixes pending :: "'s \<Rightarrow> 'i list"
    and push :: "'s \<Rightarrow> 'i \<Rightarrow> 's"
    and act :: "'s \<Rightarrow> 'c \<Rightarrow> ('e + 'a) \<times> 's"
    and code_of :: "'i \<Rightarrow> 'c"
    and outcome :: "'i \<Rightarrow> 'a"
    and tracked :: "'i \<Rightarrow> bool"
  assumes pending_push: "pending (push s i) = pending s @ [i]"
    and act_front: "pending s = i # rest \<Longrightarrow> tracked i \<Longrightarrow>
      fst (act s (code_of i)) = Inr (outcome i) \<and> pending (snd (act s (code_of i))) = rest"
begin

lemma pending_push_all: "pending (foldl push s items) = pending s @ items"
  by (induction items arbitrary: s) (auto simp: pending_push)

lemma serve_pending:
  "pending s = items @ rest \<Longrightarrow> \<forall>i\<in>set items. tracked i \<Longrightarrow>
    \<exists>s'. serve act s (map code_of items) = (map (\<lambda>i. Inr (outcome i)) items, s') \<and> pending s' = rest"
proof (induction items arbitrary: s)
  case Nil
  then show ?case by simp
next
  case (Cons i items)
  from Cons.prems have "fst (act s (code_of i)) = Inr (outcome i)"
    and *: "pending (snd (act s (code_of i))) = items @ rest"
    using act_front [of s i "items @ rest"] by auto
  moreover from Cons.IH [OF *] Cons.prems obtain s' where
    "serve act (snd (act s (code_of i))) (map code_of items) = (map (\<lambda>i. Inr (outcome i)) items, s')"
    "pending s' = rest" by auto
  ultimately show ?case by (simp add: case_prod_beta)
qed

lemma serve_pushed:
  assumes "pending s = []" and "\<forall>i\<in>set items. tracked i"
  shows "\<exists>s'. serve act (foldl push s items) (map code_of items) =
    (map (\<lambda>i. Inr (outcome i)) items, s') \<and> pending s' = []"
  using serve_pending [of "foldl push s items" items "[]"] assms by (simp add: pending_push_all)

end

text \<open>
  A component whose operations share one contract: every operation, on every path, keeps the
  component's invariant. The run of any sequence of operations then keeps it too.
\<close>

locale op_system =
  fixes step :: "'s \<Rightarrow> 'op \<Rightarrow> 's"
    and allowed :: "'op \<Rightarrow> bool"
    and inv :: "'s \<Rightarrow> bool"
  assumes step_inv: "inv s \<Longrightarrow> allowed x \<Longrightarrow> inv (step s x)"
begin

lemma run_inv: "inv s \<Longrightarrow> list_all allowed xs \<Longrightarrow> inv (foldl step s xs)"
  by (induction xs arbitrary: s) (auto intro: step_inv)

end

text \<open>An operation system in which a measure never decreases.\<close>

locale monotone_system = op_system step allowed inv
  for step :: "'s \<Rightarrow> 'op \<Rightarrow> 's" and allowed :: "'op \<Rightarrow> bool" and inv :: "'s \<Rightarrow> bool" +
  fixes progress :: "'s \<Rightarrow> 'm::linorder"
  assumes step_progress: "inv s \<Longrightarrow> allowed x \<Longrightarrow> progress s \<le> progress (step s x)"
begin

lemma run_progress: "inv s \<Longrightarrow> list_all allowed xs \<Longrightarrow> progress s \<le> progress (foldl step s xs)"
proof (induction xs arbitrary: s)
  case Nil
  show ?case by simp
next
  case (Cons x xs)
  have "progress s \<le> progress (step s x)"
    using Cons.prems by (intro step_progress) auto
  also have "\<dots> \<le> progress (foldl step (step s x) xs)"
    using Cons.prems by (intro Cons.IH step_inv) auto
  finally show ?case by simp
qed

end

text \<open>A functional refinement: every operation of the detailed system acts on the abstract state as the
  specification's operation does, so whole runs agree.\<close>

locale refinement = op_system step allowed inv
  for step :: "'s \<Rightarrow> 'op \<Rightarrow> 's" and allowed :: "'op \<Rightarrow> bool" and inv :: "'s \<Rightarrow> bool" +
  fixes abs :: "'s \<Rightarrow> 'a"
    and spec :: "'a \<Rightarrow> 'op \<Rightarrow> 'a"
  assumes step_abs: "inv s \<Longrightarrow> allowed x \<Longrightarrow> abs (step s x) = spec (abs s) x"
begin

lemma run_refines: "inv s \<Longrightarrow> list_all allowed xs \<Longrightarrow> abs (foldl step s xs) = foldl spec (abs s) xs"
  by (induction xs arbitrary: s) (auto simp: step_abs step_inv)

end

end
