(* ===== verification/Messages.thy ===== *)
theory Messages
  imports Prelude
begin

text \<open>
  The wire messages of the extended protocol (\<^verbatim>\<open>pgdog/src/net/messages\<close>): big-endian integers and
  C strings, the \<^verbatim>\<open>Payload\<close> builder, the \<^verbatim>\<open>Parse\<close>, \<^verbatim>\<open>Bind\<close>, \<^verbatim>\<open>Describe\<close>, \<^verbatim>\<open>Close\<close> and \<^verbatim>\<open>Execute\<close> messages with
  their encoders and decoders, and the \<^verbatim>\<open>ProtocolMessage\<close> union. The decoders fail on every path the
  source fails on: a declared error, or a read past the end of the buffer, which panics there and
  is the error \<open>BufferUnderflow\<close> here.
\<close>

section \<open>Buffers\<close>

datatype net_error =
    UnexpectedEof
  | UnexpectedMessage char char
  | UnexpectedPayload
  | Utf8Error
  | UnknownTransactionStateIdentifier char
  | BufferUnderflow
  | OnlySimpleForRewrites

fun be_bytes :: "nat \<Rightarrow> nat \<Rightarrow> bytes" where
  "be_bytes 0 n = []"
| "be_bytes (Suc k) n = be_bytes k (n div 256) @ [char_of (n mod 256)]"

definition be_value :: "bytes \<Rightarrow> nat" where
  "be_value bs = foldl (\<lambda>acc c. 256 * acc + of_char c) 0 bs"

text \<open>The two's complement reading of an unsigned value of \<open>w\<close> bits, and its inverse.\<close>

definition to_signed :: "nat \<Rightarrow> nat \<Rightarrow> int" where
  "to_signed w n = (if n < 2 ^ (w - 1) then int n else int n - 2 ^ w)"

definition of_signed :: "nat \<Rightarrow> int \<Rightarrow> nat" where
  "of_signed w i = nat (i mod 2 ^ w)"

text \<open>\<^verbatim>\<open>as usize\<close> on a 32-bit integer sign-extends it to 64 bits.\<close>

definition as_usize :: "int \<Rightarrow> nat" where
  "as_usize i = of_signed 64 i"

definition put_u16 :: "nat \<Rightarrow> bytes" where
  "put_u16 n = be_bytes 2 n"

definition put_i16 :: "int \<Rightarrow> bytes" where
  "put_i16 i = be_bytes 2 (of_signed 16 i)"

definition put_i32 :: "int \<Rightarrow> bytes" where
  "put_i32 i = be_bytes 4 (of_signed 32 i)"

definition get_be :: "nat \<Rightarrow> bytes \<Rightarrow> net_error + nat \<times> bytes" where
  "get_be k bs = (if length bs < k then Inl BufferUnderflow else Inr (be_value (take k bs), drop k bs))"

definition get_u16 :: "bytes \<Rightarrow> net_error + nat \<times> bytes" where
  "get_u16 bs = get_be 2 bs"

definition get_i16 :: "bytes \<Rightarrow> net_error + int \<times> bytes" where
  "get_i16 bs = and_then (get_be 2 bs) (\<lambda>(n, r). Inr (to_signed 16 n, r))"

definition get_i32 :: "bytes \<Rightarrow> net_error + int \<times> bytes" where
  "get_i32 bs = and_then (get_be 4 bs) (\<lambda>(n, r). Inr (to_signed 32 n, r))"

text \<open>The macro \<^verbatim>\<open>code!\<close>: the first byte must be the expected message code.\<close>

definition expect_code :: "char \<Rightarrow> bytes \<Rightarrow> net_error + bytes" where
  "expect_code expected bs =
     (case bs of
        [] \<Rightarrow> Inl BufferUnderflow
      | c # r \<Rightarrow> if c \<noteq> expected then Inl (UnexpectedMessage expected c) else Inr r)"

abbreviation NUL :: char where
  "NUL \<equiv> CHR 0x00"

text \<open>\<^verbatim>\<open>c_string_buf_len\<close>: the length of a C string with its terminator, or of the whole buffer when
  there is no terminator.\<close>

fun c_string_buf_len :: "bytes \<Rightarrow> nat" where
  "c_string_buf_len [] = 0"
| "c_string_buf_len (c # cs) = (if c = NUL then 1 else Suc (c_string_buf_len cs))"

text \<open>\<^verbatim>\<open>c_string_buf\<close>: the string up to its terminator, which is consumed, and what is left.\<close>

fun c_string_buf :: "bytes \<Rightarrow> string \<times> bytes" where
  "c_string_buf [] = ([], [])"
| "c_string_buf (c # cs) =
     (if c = NUL then ([], cs) else (case c_string_buf cs of (s, r) \<Rightarrow> (c # s, r)))"

text \<open>The UTF-8 validity that \<^verbatim>\<open>std::str::from_utf8\<close> checks.\<close>

definition utf8_cont :: "char \<Rightarrow> bool" where
  "utf8_cont c \<longleftrightarrow> 128 \<le> (of_char c :: nat) \<and> (of_char c :: nat) < 192"

definition utf8_second :: "char \<Rightarrow> char \<Rightarrow> bool" where
  "utf8_second a b =
     (let m = (of_char a :: nat); n = (of_char b :: nat) in
      utf8_cont b \<and> (m = 224 \<longrightarrow> 160 \<le> n) \<and> (m = 237 \<longrightarrow> n < 160) \<and> (m = 240 \<longrightarrow> 144 \<le> n)
        \<and> (m = 244 \<longrightarrow> n < 144))"

fun utf8_valid :: "bytes \<Rightarrow> bool" where
  "utf8_valid [] = True"
| "utf8_valid (a # r) =
     (let m = (of_char a :: nat) in
      if m < 128 then utf8_valid r
      else if m < 194 then False
      else if m < 224 then (case r of b # r' \<Rightarrow> utf8_cont b \<and> utf8_valid r' | _ \<Rightarrow> False)
      else if m < 240 then
        (case r of b # c # r' \<Rightarrow> utf8_second a b \<and> utf8_cont c \<and> utf8_valid r' | _ \<Rightarrow> False)
      else if m < 245 then
        (case r of b # c # d # r' \<Rightarrow> utf8_second a b \<and> utf8_cont c \<and> utf8_cont d \<and> utf8_valid r'
         | _ \<Rightarrow> False)
      else False)"

definition from_utf8 :: "bytes \<Rightarrow> net_error + string" where
  "from_utf8 bs = (if utf8_valid bs then Inr bs else Inl Utf8Error)"

text \<open>\<^verbatim>\<open>Payload::named(code)\<close> followed by \<^verbatim>\<open>freeze\<close>: the code, the length of the body plus four as a
  32-bit integer (the conversion and the addition wrap), the body.\<close>

definition payload_named :: "char \<Rightarrow> bytes \<Rightarrow> bytes" where
  "payload_named c body = c # put_i32 (to_signed 32 ((length body + 4) mod 2 ^ 32)) @ body"

definition put_string :: "string \<Rightarrow> bytes" where
  "put_string s = s @ [NUL]"

section \<open>Server and client messages\<close>

text \<open>\<^verbatim>\<open>BackendKeyData\<close>: the process id and the secret that identify a connection.\<close>

record backend_key_data =
  pid :: int
  secret :: bytes

datatype source = Backend backend_key_data | Frontend

fun backend_id :: "source \<Rightarrow> backend_key_data option" where
  "backend_id (Backend i) = Some i"
| "backend_id Frontend = None"

text \<open>A \<^verbatim>\<open>Message\<close> is its payload, whose first byte is the message code; every constructor in the
  source writes that byte, so the model keeps it apart from the rest of the payload.\<close>

record message =
  msg_code :: char
  msg_rest :: bytes
  msg_stream :: bool
  msg_source :: source

definition payload :: "message \<Rightarrow> bytes" where
  "payload m = msg_code m # msg_rest m"

definition new_message :: "char \<Rightarrow> bytes \<Rightarrow> message" where
  "new_message c r = \<lparr>msg_code = c, msg_rest = r, msg_stream = False, msg_source = Frontend\<rparr>"

definition backend :: "backend_key_data \<Rightarrow> message \<Rightarrow> message" where
  "backend i m = m\<lparr>msg_source := Backend i\<rparr>"

text \<open>\<^verbatim>\<open>transaction_error\<close> reads the status byte of a \<^verbatim>\<open>ReadyForQuery\<close>; the index is out
  of range, a panic, when the payload is shorter.\<close>

definition status_byte :: "message \<Rightarrow> char option" where
  "status_byte m = (if length (msg_rest m) \<le> 4 then None else Some (msg_rest m ! 4))"

definition transaction_error :: "message \<Rightarrow> bool option" where
  "transaction_error m =
     (if msg_code m = CHR ''Z'' then map_option (\<lambda>c. c = CHR ''E'') (status_byte m) else Some False)"

definition parse_complete_message :: message where
  "parse_complete_message = new_message CHR ''1'' (tl (payload_named CHR ''1'' []))"

definition close_complete_message :: message where
  "close_complete_message = new_message CHR ''3'' (tl (payload_named CHR ''3'' []))"

text \<open>\<^verbatim>\<open>ReadyForQuery\<close>.\<close>

record ready_for_query =
  rfq_status :: char

definition rfq_idle :: ready_for_query where
  "rfq_idle = \<lparr>rfq_status = CHR ''I''\<rparr>"

definition rfq_error :: ready_for_query where
  "rfq_error = \<lparr>rfq_status = CHR ''E''\<rparr>"

definition rfq_to_bytes :: "ready_for_query \<Rightarrow> bytes" where
  "rfq_to_bytes r = payload_named CHR ''Z'' [rfq_status r]"

definition rfq_from_bytes :: "bytes \<Rightarrow> net_error + ready_for_query" where
  "rfq_from_bytes bs =
     and_then (expect_code CHR ''Z'' bs) (\<lambda>r.
     and_then (get_i32 r) (\<lambda>(_, r).
       case r of [] \<Rightarrow> Inl BufferUnderflow | c # _ \<Rightarrow> Inr \<lparr>rfq_status = c\<rparr>))"

definition rfq_message :: "ready_for_query \<Rightarrow> message" where
  "rfq_message r = new_message CHR ''Z'' (tl (rfq_to_bytes r))"

section \<open>Parse\<close>

record parse =
  parse_name_bytes :: bytes
  parse_query_bytes :: bytes
  parse_data_types :: bytes
  parse_original :: "bytes option"

definition parse_len :: "parse \<Rightarrow> nat" where
  "parse_len p = length (parse_name_bytes p) + length (parse_query_bytes p) + length (parse_data_types p) + 5"

definition parse_named :: "string \<Rightarrow> string \<Rightarrow> parse" where
  "parse_named name query =
     \<lparr>parse_name_bytes = name @ [NUL], parse_query_bytes = query @ [NUL],
      parse_data_types = put_i16 0, parse_original = None\<rparr>"

definition parse_new_anonymous :: "string \<Rightarrow> parse" where
  "parse_new_anonymous query =
     \<lparr>parse_name_bytes = [NUL], parse_query_bytes = query @ [NUL],
      parse_data_types = put_i16 0, parse_original = None\<rparr>"

definition parse_anonymous :: "parse \<Rightarrow> bool" where
  "parse_anonymous p \<longleftrightarrow> length (parse_name_bytes p) = 1"

definition parse_query :: "parse \<Rightarrow> string" where
  "parse_query p = butlast (parse_query_bytes p)"

definition parse_name :: "parse \<Rightarrow> string" where
  "parse_name p = butlast (parse_name_bytes p)"

definition parse_rename :: "parse \<Rightarrow> string \<Rightarrow> parse" where
  "parse_rename p name =
     \<lparr>parse_name_bytes = name @ [NUL], parse_query_bytes = parse_query p @ [NUL],
      parse_data_types = parse_data_types p, parse_original = None\<rparr>"

definition parse_rename_fast :: "parse \<Rightarrow> string \<Rightarrow> parse" where
  "parse_rename_fast p name = p\<lparr>parse_name_bytes := name @ [NUL], parse_original := None\<rparr>"

definition parse_anonymize :: "parse \<Rightarrow> parse" where
  "parse_anonymize p = (if parse_anonymous p then p else parse_rename_fast p [])"

definition parse_set_query :: "parse \<Rightarrow> string \<Rightarrow> parse" where
  "parse_set_query p query = p\<lparr>parse_query_bytes := query @ [NUL], parse_original := None\<rparr>"

text \<open>\<^verbatim>\<open>DataTypesIter\<close>: the iterator skips the 16-bit count and yields 32-bit type oids until fewer than
  four bytes are left.\<close>

definition parse_from_bytes :: "bytes \<Rightarrow> net_error + parse" where
  "parse_from_bytes bytes0 =
     and_then (expect_code CHR ''P'' bytes0) (\<lambda>bs.
     and_then (get_i32 bs) (\<lambda>(len, bs).
     if length bs + 4 < as_usize len then Inl UnexpectedEof
     else let name_len = c_string_buf_len bs in
     if name_len = 0 then Inl UnexpectedEof
     else let name = take name_len bs; bs = drop name_len bs; query_len = c_string_buf_len bs in
     if query_len = 0 then Inl UnexpectedEof
     else let query = take query_len bs; data_types = drop query_len bs in
     and_then (from_utf8 (butlast name)) (\<lambda>_.
     and_then (from_utf8 (butlast query)) (\<lambda>_.
       Inr \<lparr>parse_name_bytes = name, parse_query_bytes = query, parse_data_types = data_types,
            parse_original = Some bytes0\<rparr>))))"

definition parse_to_bytes :: "parse \<Rightarrow> bytes" where
  "parse_to_bytes p =
     (case parse_original p of
        Some original \<Rightarrow> original
      | None \<Rightarrow> payload_named CHR ''P'' (parse_name_bytes p @ parse_query_bytes p @ parse_data_types p))"

section \<open>Bind\<close>

datatype format = Text | Binary

record parameter =
  param_len :: int
  param_data :: bytes

definition parameter_size :: "parameter \<Rightarrow> nat" where
  "parameter_size p = 4 + length (param_data p)"

definition new_null :: parameter where
  "new_null = \<lparr>param_len = - 1, param_data = []\<rparr>"

definition new_parameter :: "bytes \<Rightarrow> parameter" where
  "new_parameter d = \<lparr>param_len = to_signed 32 (length d mod 2 ^ 32), param_data = d\<rparr>"

record parameter_with_format =
  pwf_parameter :: parameter
  pwf_format :: format

record bind =
  bind_portal :: bytes
  bind_statement_bytes :: bytes
  bind_codes :: "format list"
  bind_params :: "parameter list"
  bind_results :: bytes
  bind_original :: "bytes option"

definition bind_default :: bind where
  "bind_default =
     \<lparr>bind_portal = [NUL], bind_statement_bytes = [NUL], bind_codes = [], bind_params = [],
      bind_results = [], bind_original = None\<rparr>"

definition bind_len :: "bind \<Rightarrow> nat" where
  "bind_len b =
     length (bind_portal b) + length (bind_statement_bytes b) + length (bind_codes b) * 2 + 2
     + sum_list (map parameter_size (bind_params b)) + 2 + length (bind_results b) + 2 + 4 + 1"

definition parameter_format :: "bind \<Rightarrow> nat \<Rightarrow> format" where
  "parameter_format b i =
     (let code =
        (if length (bind_codes b) = length (bind_params b)
         then (if i < length (bind_codes b) then Some (bind_codes b ! i) else None)
         else if length (bind_codes b) = 1 then Some (bind_codes b ! 0)
         else Some Text)
      in case code of Some f \<Rightarrow> f | None \<Rightarrow> Text)"

definition bind_parameter :: "bind \<Rightarrow> nat \<Rightarrow> parameter_with_format option" where
  "bind_parameter b i =
     (if i < length (bind_params b)
      then Some \<lparr>pwf_parameter = bind_params b ! i, pwf_format = parameter_format b i\<rparr> else None)"

definition bind_rename :: "bind \<Rightarrow> string \<Rightarrow> bind" where
  "bind_rename b name = b\<lparr>bind_statement_bytes := name @ [NUL], bind_original := None\<rparr>"

definition bind_anonymous :: "bind \<Rightarrow> bool" where
  "bind_anonymous b \<longleftrightarrow> length (bind_statement_bytes b) = 1"

definition bind_anonymize :: "bind \<Rightarrow> bind" where
  "bind_anonymize b = (if bind_anonymous b then b else bind_rename b [])"

definition bind_statement :: "bind \<Rightarrow> string" where
  "bind_statement b = butlast (bind_statement_bytes b)"

definition bind_new_statement :: "string \<Rightarrow> bind" where
  "bind_new_statement name = bind_default\<lparr>bind_statement_bytes := name @ [NUL]\<rparr>"

definition bind_new_params_codes :: "string \<Rightarrow> parameter list \<Rightarrow> format list \<Rightarrow> bind" where
  "bind_new_params_codes name params codes =
     bind_default\<lparr>bind_statement_bytes := name @ [NUL], bind_codes := codes, bind_params := params\<rparr>"

text \<open>\<^verbatim>\<open>push_param\<close>: the format codes are expanded only when the new parameter's format needs it.\<close>

definition push_codes :: "bind \<Rightarrow> format \<Rightarrow> format list" where
  "push_codes b f =
     (let codes = bind_codes b; n = length (bind_params b) in
      if length codes = 1 then
        (if codes ! 0 \<noteq> f then replicate n (codes ! 0) @ [f] else codes)
      else if length codes > 1 \<and> length codes = n then codes @ [f]
      else if codes = [] \<and> f = Binary then replicate n Text @ [Binary]
      else codes)"

definition push_param :: "bind \<Rightarrow> parameter \<Rightarrow> format \<Rightarrow> bind" where
  "push_param b p f =
     b\<lparr>bind_codes := push_codes b f, bind_params := bind_params b @ [p], bind_original := None\<rparr>"

definition set_param :: "bind \<Rightarrow> nat \<Rightarrow> parameter \<Rightarrow> bool \<times> bind" where
  "set_param b i p =
     (if i < length (bind_params b)
      then (True, b\<lparr>bind_params := (bind_params b)[i := p], bind_original := None\<rparr>) else (False, b))"

text \<open>The decoder of \<^verbatim>\<open>Bind\<close>, loop by loop: the format codes, the parameters, the result formats.\<close>

fun read_codes :: "nat \<Rightarrow> bytes \<Rightarrow> net_error + format list \<times> bytes" where
  "read_codes 0 bs = Inr ([], bs)"
| "read_codes (Suc n) bs =
     and_then (get_i16 bs) (\<lambda>(c, bs).
     and_then (read_codes n bs) (\<lambda>(cs, bs).
       Inr ((if c = 0 then Text else Binary) # cs, bs)))"

fun read_params :: "nat \<Rightarrow> bytes \<Rightarrow> net_error + parameter list \<times> bytes" where
  "read_params 0 bs = Inr ([], bs)"
| "read_params (Suc n) bs =
     (if length bs < 4 then Inl UnexpectedEof
      else and_then (get_i32 bs) (\<lambda>(len, bs).
        if len \<ge> 0 then
          (if length bs < as_usize len then Inl UnexpectedEof
           else and_then (read_params n (drop (as_usize len) bs)) (\<lambda>(ps, r).
             Inr (\<lparr>param_len = len, param_data = take (as_usize len) bs\<rparr> # ps, r)))
        else and_then (read_params n bs) (\<lambda>(ps, r).
             Inr (\<lparr>param_len = len, param_data = []\<rparr> # ps, r))))"

definition read_results :: "bytes \<Rightarrow> net_error + bytes" where
  "read_results bs =
     (if length bs < 2 then Inl UnexpectedEof
      else and_then (get_i16 bs) (\<lambda>(n, bs).
        if n > 0 then
          (if length bs < nat n * 2 then Inl UnexpectedEof else Inr (take (nat n * 2) bs))
        else Inr []))"

definition bind_from_bytes :: "bytes \<Rightarrow> net_error + bind" where
  "bind_from_bytes bytes0 =
     and_then (expect_code CHR ''B'' bytes0) (\<lambda>bs.
     and_then (get_i32 bs) (\<lambda>(len, bs).
     if length bs + 4 < as_usize len then Inl UnexpectedEof
     else let portal_len = c_string_buf_len bs in
     if portal_len = 0 then Inl UnexpectedEof
     else let portal = take portal_len bs; bs = drop portal_len bs; statement_len = c_string_buf_len bs in
     if statement_len = 0 then Inl UnexpectedEof
     else let statement = take statement_len bs; bs = drop statement_len bs in
     and_then (from_utf8 (butlast portal)) (\<lambda>_.
     and_then (from_utf8 (butlast statement)) (\<lambda>_.
     if length bs < 2 then Inl UnexpectedEof
     else and_then (get_u16 bs) (\<lambda>(num_codes, bs).
     if length bs < num_codes * 2 then Inl UnexpectedEof
     else and_then (read_codes num_codes bs) (\<lambda>(codes, bs).
     if length bs < 2 then Inl UnexpectedEof
     else and_then (get_u16 bs) (\<lambda>(num_params, bs).
     and_then (read_params num_params bs) (\<lambda>(params, bs).
     and_then (read_results bs) (\<lambda>results.
       Inr \<lparr>bind_portal = portal, bind_statement_bytes = statement, bind_codes = codes,
            bind_params = params, bind_results = results, bind_original = Some bytes0\<rparr>)))))))))"

definition put_format :: "format \<Rightarrow> bytes" where
  "put_format f = put_i16 (case f of Text \<Rightarrow> 0 | Binary \<Rightarrow> 1)"

definition put_param :: "parameter \<Rightarrow> bytes" where
  "put_param p = put_i32 (param_len p) @ param_data p"

definition bind_body :: "bind \<Rightarrow> bytes" where
  "bind_body b =
     bind_portal b @ bind_statement_bytes b
     @ put_u16 (length (bind_codes b)) @ concat (map put_format (bind_codes b))
     @ put_u16 (length (bind_params b)) @ concat (map put_param (bind_params b))
     @ put_i16 (int (length (bind_results b) div 2)) @ bind_results b"

definition bind_to_bytes :: "bind \<Rightarrow> bytes" where
  "bind_to_bytes b =
     (case bind_original b of
        Some original \<Rightarrow> original
      | None \<Rightarrow> payload_named CHR ''B'' (bind_body b))"

section \<open>Describe, Close and Execute\<close>

text \<open>
  These three keep the whole payload and read their fields by index. The constructors and
  decoders are the only ways to make one, and each gives a payload in which the indexes are in
  range (lemmas \<open>describe_wf\<close>, \<open>close_wf\<close> below).
\<close>

record describe =
  desc_payload :: bytes
  desc_original :: "bytes option"

definition desc_kind :: "describe \<Rightarrow> char" where
  "desc_kind d = desc_payload d ! 5"

definition desc_statement :: "describe \<Rightarrow> string" where
  "desc_statement d = butlast (drop 6 (desc_payload d))"

definition desc_anonymous :: "describe \<Rightarrow> bool" where
  "desc_anonymous d \<longleftrightarrow> desc_kind d \<noteq> CHR ''S'' \<or> desc_statement d = []"

definition desc_is_statement :: "describe \<Rightarrow> bool" where
  "desc_is_statement d \<longleftrightarrow> desc_kind d = CHR ''S''"

definition desc_is_portal :: "describe \<Rightarrow> bool" where
  "desc_is_portal d \<longleftrightarrow> desc_kind d = CHR ''P''"

definition desc_rename :: "describe \<Rightarrow> string \<Rightarrow> describe" where
  "desc_rename d name =
     d\<lparr>desc_payload := payload_named CHR ''D'' (desc_kind d # put_string name), desc_original := None\<rparr>"

definition desc_anonymize :: "describe \<Rightarrow> describe" where
  "desc_anonymize d = (if desc_anonymous d then d else desc_rename d [])"

definition desc_new_statement :: "string \<Rightarrow> describe" where
  "desc_new_statement name =
     \<lparr>desc_payload = payload_named CHR ''D'' (CHR ''S'' # put_string name), desc_original = None\<rparr>"

definition desc_new_portal :: "string \<Rightarrow> describe" where
  "desc_new_portal name =
     \<lparr>desc_payload = payload_named CHR ''D'' (CHR ''P'' # put_string name), desc_original = None\<rparr>"

definition desc_from_bytes :: "bytes \<Rightarrow> net_error + describe" where
  "desc_from_bytes bs =
     and_then (expect_code CHR ''D'' bs) (\<lambda>_.
     if length bs < 7 then Inl UnexpectedEof
     else and_then (from_utf8 (butlast (drop 6 bs))) (\<lambda>_.
       Inr \<lparr>desc_payload = bs, desc_original = Some bs\<rparr>))"

definition desc_to_bytes :: "describe \<Rightarrow> bytes" where
  "desc_to_bytes d = (case desc_original d of Some original \<Rightarrow> original | None \<Rightarrow> desc_payload d)"

record close =
  close_payload :: bytes

definition close_named :: "string \<Rightarrow> close" where
  "close_named name = \<lparr>close_payload = payload_named CHR ''C'' (CHR ''S'' # put_string name)\<rparr>"

definition close_portal :: "string \<Rightarrow> close" where
  "close_portal name = \<lparr>close_payload = payload_named CHR ''C'' (CHR ''P'' # put_string name)\<rparr>"

definition close_kind :: "close \<Rightarrow> char" where
  "close_kind c = close_payload c ! 5"

definition close_name :: "close \<Rightarrow> string" where
  "close_name c = butlast (drop 6 (close_payload c))"

definition close_anonymous :: "close \<Rightarrow> bool" where
  "close_anonymous c \<longleftrightarrow> close_name c = [] \<or> close_kind c \<noteq> CHR ''S''"

definition close_from_bytes :: "bytes \<Rightarrow> net_error + close" where
  "close_from_bytes bs =
     and_then (expect_code CHR ''C'' bs) (\<lambda>_.
     if length bs < 7 then Inl UnexpectedEof
     else and_then (from_utf8 (butlast (drop 6 bs))) (\<lambda>_. Inr \<lparr>close_payload = bs\<rparr>))"

record execute =
  exec_payload :: bytes
  exec_portal_len :: nat

definition execute_new :: execute where
  "execute_new = \<lparr>exec_payload = payload_named CHR ''E'' (put_string [] @ put_i32 0), exec_portal_len = 0\<rparr>"

definition execute_portal :: "execute \<Rightarrow> string" where
  "execute_portal e =
     (let buf = take (if exec_portal_len e > 0 then exec_portal_len e - 1 else 0) (drop 5 (exec_payload e))
      in if utf8_valid buf then buf else [])"

definition execute_from_bytes :: "bytes \<Rightarrow> net_error + execute" where
  "execute_from_bytes bs =
     and_then (expect_code CHR ''E'' bs) (\<lambda>_.
     if length bs < 5 then Inl BufferUnderflow
     else Inr \<lparr>exec_payload = bs, exec_portal_len = c_string_buf_len (drop 5 bs)\<rparr>)"

section \<open>Query and BackendKeyData\<close>

record query =
  query_payload :: bytes

definition query_from_bytes :: "bytes \<Rightarrow> net_error + query" where
  "query_from_bytes bs =
     (if length bs < 6 then Inl UnexpectedEof
      else and_then (from_utf8 (butlast (drop 5 bs))) (\<lambda>_. Inr \<lparr>query_payload = bs\<rparr>))"

text \<open>The secret is the used prefix of the fixed-size array of \<^verbatim>\<open>SecretKey\<close>, whose other bytes are zero.\<close>

definition max_secret_len :: nat where
  "max_secret_len = 256"

definition secret_from_slice :: "bytes \<Rightarrow> net_error + bytes" where
  "secret_from_slice s = (if s = [] \<or> length s > max_secret_len then Inl UnexpectedPayload else Inr s)"

definition bkd_to_bytes :: "backend_key_data \<Rightarrow> bytes" where
  "bkd_to_bytes k = payload_named CHR ''K'' (put_i32 (pid k) @ secret k)"

definition bkd_from_bytes :: "bytes \<Rightarrow> net_error + backend_key_data" where
  "bkd_from_bytes bs =
     and_then (expect_code CHR ''K'' bs) (\<lambda>bs.
     and_then (get_i32 bs) (\<lambda>(len, bs).
     if len < 8 then Inl UnexpectedPayload
     else let secret_len = nat len - 8 in
     if secret_len = 0 \<or> secret_len > max_secret_len \<or> length bs \<noteq> 4 + secret_len
     then Inl UnexpectedPayload
     else and_then (get_i32 bs) (\<lambda>(pid, bs).
     and_then (secret_from_slice (take secret_len bs)) (\<lambda>secret.
       Inr \<lparr>pid = pid, secret = secret\<rparr>))))"

section \<open>The union of client messages\<close>

text \<open>\<^verbatim>\<open>ProtocolMessage\<close>. The variants whose content no modelled code reads carry the message as is.\<close>

datatype protocol_message =
    PBind bind
  | PParse parse
  | PDescribe describe
  | PPrepare string string
  | PExecute execute
  | PClose close
  | PQuery message
  | POther message
  | PCopyData message
  | PCopyFail message
  | PCopyDone message
  | PFastpath message
  | PSync

fun is_extended :: "protocol_message \<Rightarrow> bool" where
  "is_extended (PBind _) = True"
| "is_extended (PParse _) = True"
| "is_extended (PDescribe _) = True"
| "is_extended (PExecute _) = True"
| "is_extended PSync = True"
| "is_extended (PClose _) = True"
| "is_extended _ = False"

fun pm_anonymous :: "protocol_message \<Rightarrow> bool" where
  "pm_anonymous (PBind b) = bind_anonymous b"
| "pm_anonymous (PParse p) = parse_anonymous p"
| "pm_anonymous (PDescribe d) = desc_anonymous d"
| "pm_anonymous _ = False"

fun pm_anonymize :: "protocol_message \<Rightarrow> protocol_message" where
  "pm_anonymize (PBind b) = PBind (bind_anonymize b)"
| "pm_anonymize (PParse p) = PParse (parse_anonymize p)"
| "pm_anonymize (PDescribe d) = PDescribe (desc_anonymize d)"
| "pm_anonymize m = m"

fun pm_code :: "protocol_message \<Rightarrow> char" where
  "pm_code (PBind _) = CHR ''B''"
| "pm_code (PParse _) = CHR ''P''"
| "pm_code (PDescribe _) = CHR ''D''"
| "pm_code (PPrepare _ _) = CHR ''Q''"
| "pm_code (PExecute _) = CHR ''E''"
| "pm_code (PClose _) = CHR ''C''"
| "pm_code (PQuery _) = CHR ''Q''"
| "pm_code (POther m) = msg_code m"
| "pm_code (PCopyData _) = CHR ''d''"
| "pm_code (PCopyFail _) = CHR ''f''"
| "pm_code (PCopyDone _) = CHR ''c''"
| "pm_code (PFastpath _) = CHR ''F''"
| "pm_code PSync = CHR ''S''"

section \<open>Facts on buffers\<close>

lemma length_be_bytes [simp]: "length (be_bytes k n) = k"
  by (induction k arbitrary: n) auto

lemma be_value_snoc [simp]: "be_value (xs @ [c]) = 256 * be_value xs + of_char c"
  by (simp add: be_value_def)

lemma be_value_be_bytes: "be_value (be_bytes k n) = n mod 256 ^ k"
proof (induction k arbitrary: n)
  case 0
  then show ?case by (simp add: be_value_def)
next
  case (Suc k)
  have "256 * (n div 256 mod 256 ^ k) + n mod 256 = n mod (256 * 256 ^ k)"
    by (simp add: mod_mult2_eq)
  with Suc show ?case by simp
qed

lemma to_signed_of_signed:
  assumes "0 < w" "- (2 ^ (w - 1)) \<le> i" "i < 2 ^ (w - 1)"
  shows "to_signed w (of_signed w i) = i"
proof -
  have p: "(2::int) ^ w = 2 * 2 ^ (w - 1)"
    using assms(1) by (cases w) auto
  show ?thesis
  proof (cases "0 \<le> i")
    case True
    then have "i mod 2 ^ w = i"
      using assms(3) p by (intro mod_pos_pos_trivial) auto
    moreover have "nat i < 2 ^ (w - 1)"
      using True assms(3) by (simp add: nat_less_iff)
    ultimately show ?thesis
      using True by (simp add: to_signed_def of_signed_def)
  next
    case False
    then have *: "i mod 2 ^ w = i + 2 ^ w"
      using assms(2) p by (intro int_mod_pos_eq [where q = "-1"]) auto
    have "(0::int) \<le> 2 ^ (w - 1)"
      by simp
    then have "0 \<le> i + 2 ^ w"
      using assms(2) unfolding p by linarith
    moreover have "\<not> nat (i + 2 ^ w) < 2 ^ (w - 1)"
      using assms(2) p by (simp add: nat_less_iff)
    ultimately show ?thesis
      using False * by (simp add: to_signed_def of_signed_def)
  qed
qed

lemma of_signed_less: "of_signed w i < 2 ^ w"
  by (simp add: of_signed_def nat_less_iff)

lemma get_be_append: "length xs = k \<Longrightarrow> get_be k (xs @ r) = Inr (be_value xs, r)"
  by (simp add: get_be_def)

lemma get_put_u16 [simp]: "n < 65536 \<Longrightarrow> get_u16 (put_u16 n @ r) = Inr (n, r)"
  by (simp add: get_u16_def put_u16_def get_be_append be_value_be_bytes)

lemma get_put_i16 [simp]: "- 32768 \<le> i \<Longrightarrow> i < 32768 \<Longrightarrow> get_i16 (put_i16 i @ r) = Inr (i, r)"
  using of_signed_less [of 16 i] to_signed_of_signed [of 16 i]
  by (simp add: get_i16_def put_i16_def get_be_append be_value_be_bytes)

lemma get_put_i32 [simp]:
  "- 2147483648 \<le> i \<Longrightarrow> i < 2147483648 \<Longrightarrow> get_i32 (put_i32 i @ r) = Inr (i, r)"
  using of_signed_less [of 32 i] to_signed_of_signed [of 32 i]
  by (simp add: get_i32_def put_i32_def get_be_append be_value_be_bytes)

lemma length_put [simp]:
  "length (put_u16 n) = 2" "length (put_i16 i) = 2" "length (put_i32 i) = 4"
  by (simp_all add: put_u16_def put_i16_def put_i32_def)

lemma as_usize_nonneg [simp]: "0 \<le> i \<Longrightarrow> i < 9223372036854775808 \<Longrightarrow> as_usize i = nat i"
  by (simp add: as_usize_def of_signed_def)

text \<open>A C string: a UTF-8 text without zero bytes, then the terminator.\<close>

definition cstr_ok :: "bytes \<Rightarrow> bool" where
  "cstr_ok bs \<longleftrightarrow> bs \<noteq> [] \<and> last bs = NUL \<and> NUL \<notin> set (butlast bs) \<and> utf8_valid (butlast bs)"

lemma cstr_okE:
  assumes "cstr_ok bs"
  obtains s where "bs = s @ [NUL]" "NUL \<notin> set s" "utf8_valid s"
proof
  show "bs = butlast bs @ [NUL]" "NUL \<notin> set (butlast bs)" "utf8_valid (butlast bs)"
    using assms append_butlast_last_id [of bs] by (simp_all add: cstr_ok_def)
qed

lemma cstr_ok_snoc [simp]: "cstr_ok (s @ [NUL]) \<longleftrightarrow> NUL \<notin> set s \<and> utf8_valid s"
  by (simp add: cstr_ok_def)

lemma c_string_buf_len_append: "NUL \<notin> set s \<Longrightarrow> c_string_buf_len (s @ NUL # r) = Suc (length s)"
  by (induction s) auto

lemma c_string_buf_append: "NUL \<notin> set s \<Longrightarrow> c_string_buf (s @ NUL # r) = (s, r)"
  by (induction s) auto

lemma c_string_buf_len_cstr: "cstr_ok bs \<Longrightarrow> c_string_buf_len (bs @ r) = length bs"
  by (elim cstr_okE) (simp add: c_string_buf_len_append)

lemma cstr_ok_from_utf8 [simp]: "cstr_ok bs \<Longrightarrow> from_utf8 (butlast bs) = Inr (butlast bs)"
  by (simp add: cstr_ok_def from_utf8_def)

lemma cstr_ok_nonempty [simp]: "cstr_ok bs \<Longrightarrow> length bs \<noteq> 0" "cstr_ok bs \<Longrightarrow> bs \<noteq> []"
  by (simp_all add: cstr_ok_def)

text \<open>The header of a payload that is not longer than a 32-bit length can say.\<close>

abbreviation fits :: "bytes \<Rightarrow> bool" where
  "fits body \<equiv> length body + 4 < 2147483648"

lemma payload_named_fits:
  "fits body \<Longrightarrow> payload_named c body = c # put_i32 (int (length body + 4)) @ body"
  by (simp add: payload_named_def to_signed_def)

lemma expect_code_payload [simp]:
  "expect_code c (payload_named c body) = Inr (tl (payload_named c body))"
  by (simp add: expect_code_def payload_named_def)

lemma expect_code_Cons [simp]: "expect_code c (c # r) = Inr r"
  by (simp add: expect_code_def)

lemma length_payload_named [simp]: "length (payload_named c body) = 5 + length body"
  by (simp add: payload_named_def)

lemma drop_payload_named: "drop 5 (payload_named c body) = body"
  by (simp add: payload_named_def drop_Cons')

lemma nth_payload_named: "payload_named c (k # body) ! 5 = k"
  using drop_payload_named [of c "k # body"] by (simp add: nth_via_drop)

end
