(* ===== verification/GlobalCache.thy ===== *)
theory GlobalCache
  imports Messages
begin

text \<open>
  \<^verbatim>\<open>pgdog/src/frontend/prepared_statements/global_cache.rs\<close>: the cache of prepared statements all clients
  share. It maps a statement (query and parameter types) to a global name with a use count, and the
  global name back to the statement. The two maps are association lists with one entry per key; the
  set of unused counters is iterated by \<^verbatim>\<open>close_unused\<close> in an order the hash set chooses, which is the
  parameter \<open>iter\<close>. A \<^verbatim>\<open>RowDescription\<close> is opaque to the cache (the type variable \<open>'rd\<close>).

  The lemmas show that every operation keeps the two maps inverse to each other and the unused set
  equal to the entries with no user (\<open>gc_inv\<close>), that a name stands for the statement it was issued
  for, and what eviction removes.
\<close>

section \<open>Data\<close>

definition global_name :: "nat \<Rightarrow> string" where
  "global_name counter = ''__pgdog_'' @ show_nat counter"

record cache_key =
  key_query :: bytes
  key_data_types :: bytes
  key_version :: nat

record 'rd cached_parse =
  st_parse :: parse
  st_rewrite :: "parse option"
  st_row_description :: "'rd option"
  st_version :: nat
  st_cache_key :: cache_key
  st_evict_on_close :: bool

record cached_stmt =
  cs_counter :: nat
  cs_used :: nat

definition cs_name :: "cached_stmt \<Rightarrow> string" where
  "cs_name c = global_name (cs_counter c)"

record 'rd global_cache =
  gc_statements :: "(cache_key \<times> cached_stmt) list"
  gc_names :: "(string \<times> 'rd cached_parse) list"
  gc_unused :: "nat set"
  gc_counter :: nat
  gc_versions :: nat

definition gc_default :: "'rd global_cache" where
  "gc_default = \<lparr>gc_statements = [], gc_names = [], gc_unused = {}, gc_counter = 0, gc_versions = 0\<rparr>"

section \<open>Operations\<close>

definition parse_key :: "parse \<Rightarrow> nat \<Rightarrow> cache_key" where
  "parse_key p version =
     \<lparr>key_query = parse_query_bytes p, key_data_types = parse_data_types p, key_version = version\<rparr>"

definition gc_insert :: "'rd global_cache \<Rightarrow> parse \<Rightarrow> (bool \<times> string) \<times> 'rd global_cache" where
  "gc_insert g p =
     (case hm_get (gc_statements g) (parse_key p 0) of
        Some entry \<Rightarrow>
          ((False, global_name (cs_counter entry)),
           g\<lparr>gc_unused := (if cs_used entry = 0 then gc_unused g - {cs_counter entry} else gc_unused g),
             gc_statements := hm_insert (parse_key p 0) (entry\<lparr>cs_used := cs_used entry + 1\<rparr>) (gc_statements g)\<rparr>)
      | None \<Rightarrow>
          let counter = gc_counter g + 1;
              name = global_name counter;
              renamed = parse_rename p name;
              key = parse_key renamed 0
          in ((True, name),
              g\<lparr>gc_counter := counter,
                gc_statements := hm_insert key \<lparr>cs_counter = counter, cs_used = 1\<rparr> (gc_statements g),
                gc_names := hm_insert name
                  \<lparr>st_parse = renamed, st_rewrite = None, st_row_description = None, st_version = 0,
                   st_cache_key = key, st_evict_on_close = False\<rparr> (gc_names g)\<rparr>))"

definition gc_insert_anyway :: "'rd global_cache \<Rightarrow> parse \<Rightarrow> string \<times> 'rd global_cache" where
  "gc_insert_anyway g p =
     (let counter = gc_counter g + 1;
          versions = gc_versions g + 1;
          name = global_name counter;
          renamed = parse_rename p name;
          key = parse_key renamed versions
      in (name,
          g\<lparr>gc_counter := counter, gc_versions := versions,
            gc_statements := hm_insert key \<lparr>cs_counter = counter, cs_used = 1\<rparr> (gc_statements g),
            gc_names := hm_insert name
              \<lparr>st_parse = renamed, st_rewrite = None, st_row_description = None, st_version = versions,
               st_cache_key = key, st_evict_on_close = False\<rparr> (gc_names g)\<rparr>))"

definition gc_rewrite :: "'rd global_cache \<Rightarrow> parse \<Rightarrow> 'rd global_cache" where
  "gc_rewrite g p =
     (case hm_get (gc_names g) (parse_name p) of
        Some stmt \<Rightarrow> g\<lparr>gc_names := hm_insert (parse_name p) (stmt\<lparr>st_rewrite := Some p\<rparr>) (gc_names g)\<rparr>
      | None \<Rightarrow> g)"

definition gc_insert_row_description :: "'rd global_cache \<Rightarrow> string \<Rightarrow> 'rd \<Rightarrow> 'rd global_cache" where
  "gc_insert_row_description g name rd =
     (case hm_get (gc_names g) name of
        Some entry \<Rightarrow>
          if st_row_description entry = None
          then g\<lparr>gc_names := hm_insert name (entry\<lparr>st_row_description := Some rd\<rparr>) (gc_names g)\<rparr> else g
      | None \<Rightarrow> g)"

definition gc_reset :: "'rd global_cache \<Rightarrow> 'rd global_cache" where
  "gc_reset g =
     g\<lparr>gc_statements := [], gc_names := [], gc_unused := {}, gc_counter := 0, gc_versions := 0\<rparr>"

definition gc_query :: "'rd global_cache \<Rightarrow> string \<Rightarrow> string option" where
  "gc_query g name = map_option (\<lambda>s. parse_query (st_parse s)) (hm_get (gc_names g) name)"

definition gc_parse :: "'rd global_cache \<Rightarrow> string \<Rightarrow> parse option" where
  "gc_parse g name = map_option st_parse (hm_get (gc_names g) name)"

definition gc_rewritten_parse :: "'rd global_cache \<Rightarrow> string \<Rightarrow> parse option" where
  "gc_rewritten_parse g name =
     map_option (\<lambda>s. case st_rewrite s of Some p \<Rightarrow> p | None \<Rightarrow> st_parse s) (hm_get (gc_names g) name)"

definition gc_row_description :: "'rd global_cache \<Rightarrow> string \<Rightarrow> 'rd option" where
  "gc_row_description g name = Option.bind (hm_get (gc_names g) name) st_row_description"

definition gc_len :: "'rd global_cache \<Rightarrow> nat" where
  "gc_len g = length (gc_statements g)"

definition gc_remove :: "'rd global_cache \<Rightarrow> string \<Rightarrow> 'rd global_cache" where
  "gc_remove g name =
     (case hm_get (gc_names g) name of
        Some stmt \<Rightarrow>
          g\<lparr>gc_names := hm_remove name (gc_names g),
            gc_statements := hm_remove (st_cache_key stmt) (gc_statements g)\<rparr>
      | None \<Rightarrow> g)"

text \<open>\<^verbatim>\<open>entry.used.saturating_sub(1)\<close> is subtraction on natural numbers.\<close>

definition gc_close :: "'rd global_cache \<Rightarrow> string \<Rightarrow> 'rd global_cache" where
  "gc_close g name =
     (case hm_get (gc_names g) name of
        None \<Rightarrow> g
      | Some stmt \<Rightarrow>
          (case hm_get (gc_statements g) (st_cache_key stmt) of
             None \<Rightarrow> g
           | Some entry \<Rightarrow>
               let entry' = entry\<lparr>cs_used := cs_used entry - 1\<rparr>;
                   g1 = g\<lparr>gc_statements := hm_insert (st_cache_key stmt) entry' (gc_statements g)\<rparr>
               in if cs_used entry' = 0 \<and> st_evict_on_close stmt then gc_remove g1 name
                  else if cs_used entry' = 0 then g1\<lparr>gc_unused := insert (cs_counter entry') (gc_unused g1)\<rparr>
                  else g1))"

definition gc_evict :: "'rd global_cache \<Rightarrow> nat \<Rightarrow> 'rd global_cache" where
  "gc_evict g counter = gc_remove (g\<lparr>gc_unused := gc_unused g - {counter}\<rparr>) (global_name counter)"

definition gc_close_unused :: "(nat set \<Rightarrow> nat list) \<Rightarrow> 'rd global_cache \<Rightarrow> nat \<Rightarrow> nat \<times> 'rd global_cache" where
  "gc_close_unused iter g capacity =
     (if capacity = 0 then (gc_len g, gc_reset g)
      else let over = gc_len g - capacity;
               removed = take over (iter (gc_unused g))
           in (length removed, foldl gc_evict g removed))"

definition gc_decrement :: "'rd global_cache \<Rightarrow> string \<Rightarrow> 'rd global_cache" where
  "gc_decrement g name =
     (case hm_get (gc_names g) name of
        None \<Rightarrow> g
      | Some stmt \<Rightarrow>
          (case hm_get (gc_statements g) (st_cache_key stmt) of
             None \<Rightarrow> g
           | Some entry \<Rightarrow>
               let entry' = entry\<lparr>cs_used := cs_used entry - 1\<rparr>;
                   g1 = g\<lparr>gc_statements := hm_insert (st_cache_key stmt) entry' (gc_statements g)\<rparr>
               in if cs_used entry' = 0 then g1\<lparr>gc_unused := insert (cs_counter entry') (gc_unused g1)\<rparr>
                  else g1))"

section \<open>The invariant\<close>

lemma global_name_inject [simp]: "global_name a = global_name b \<longleftrightarrow> a = b"
  by (simp add: global_name_def)

definition gc_inv :: "'rd global_cache \<Rightarrow> bool" where
  "gc_inv g \<longleftrightarrow>
     hm_ok (gc_statements g) \<and> hm_ok (gc_names g)
     \<and> (\<forall>k e. hm_get (gc_statements g) k = Some e \<longrightarrow>
           1 \<le> cs_counter e \<and> cs_counter e \<le> gc_counter g \<and> key_version k \<le> gc_versions g
           \<and> (\<exists>st. hm_get (gc_names g) (cs_name e) = Some st \<and> st_cache_key st = k))
     \<and> (\<forall>n st. hm_get (gc_names g) n = Some st \<longrightarrow>
           \<not> st_evict_on_close st \<and> parse_name (st_parse st) = n
           \<and> st_cache_key st = parse_key (st_parse st) (key_version (st_cache_key st))
           \<and> (\<exists>e. hm_get (gc_statements g) (st_cache_key st) = Some e \<and> n = cs_name e))
     \<and> gc_unused g = {cs_counter e |k e. hm_get (gc_statements g) k = Some e \<and> cs_used e = 0}"

lemma gc_inv_default: "gc_inv gc_default"
  by (simp add: gc_inv_def gc_default_def)

lemma gc_inv_reset: "gc_inv (gc_reset g)"
  by (simp add: gc_inv_def gc_reset_def)

lemma gc_inv_ok: "gc_inv g \<Longrightarrow> hm_ok (gc_statements g) \<and> hm_ok (gc_names g)"
  by (simp add: gc_inv_def)

lemma gc_inv_statement:
  "gc_inv g \<Longrightarrow> hm_get (gc_statements g) k = Some e \<Longrightarrow>
   1 \<le> cs_counter e \<and> cs_counter e \<le> gc_counter g \<and> key_version k \<le> gc_versions g
   \<and> (\<exists>st. hm_get (gc_names g) (cs_name e) = Some st \<and> st_cache_key st = k)"
  unfolding gc_inv_def by blast

lemma gc_inv_name:
  "gc_inv g \<Longrightarrow> hm_get (gc_names g) n = Some st \<Longrightarrow>
   \<not> st_evict_on_close st \<and> parse_name (st_parse st) = n
   \<and> st_cache_key st = parse_key (st_parse st) (key_version (st_cache_key st))
   \<and> (\<exists>e. hm_get (gc_statements g) (st_cache_key st) = Some e \<and> n = cs_name e)"
  unfolding gc_inv_def by blast

lemma gc_inv_unused:
  "gc_inv g \<Longrightarrow> gc_unused g = {cs_counter e |k e. hm_get (gc_statements g) k = Some e \<and> cs_used e = 0}"
  by (simp add: gc_inv_def)

text \<open>A counter belongs to one statement.\<close>

lemma gc_counter_unique:
  assumes "gc_inv g" "hm_get (gc_statements g) k = Some e" "hm_get (gc_statements g) k' = Some e'"
    and "cs_counter e = cs_counter e'"
  shows "k = k'"
proof -
  obtain st where "hm_get (gc_names g) (cs_name e) = Some st" "st_cache_key st = k"
    using gc_inv_statement [OF assms(1,2)] by blast
  moreover obtain st' where "hm_get (gc_names g) (cs_name e') = Some st'" "st_cache_key st' = k'"
    using gc_inv_statement [OF assms(1,3)] by blast
  ultimately show ?thesis
    using assms(4) by (simp add: cs_name_def)
qed

lemma gc_unused_iff:
  assumes "gc_inv g" "hm_get (gc_statements g) k = Some e"
  shows "cs_counter e \<in> gc_unused g \<longleftrightarrow> cs_used e = 0"
proof
  assume "cs_counter e \<in> gc_unused g"
  then obtain k' e' where e': "hm_get (gc_statements g) k' = Some e'" "cs_counter e = cs_counter e'" "cs_used e' = 0"
    unfolding gc_inv_unused [OF assms(1)] by blast
  then have "k = k'"
    using gc_counter_unique [OF assms] by blast
  with e' assms(2) show "cs_used e = 0" by simp
next
  assume "cs_used e = 0"
  then show "cs_counter e \<in> gc_unused g"
    unfolding gc_inv_unused [OF assms(1)] using assms(2) by blast
qed

lemma gc_name_fresh:
  assumes "gc_inv g"
  shows "hm_get (gc_names g) (global_name (gc_counter g + 1)) = None"
proof (rule ccontr)
  assume "hm_get (gc_names g) (global_name (gc_counter g + 1)) \<noteq> None"
  then obtain st where st: "hm_get (gc_names g) (global_name (gc_counter g + 1)) = Some st"
    by blast
  from gc_inv_name [OF assms st] obtain e where
      "hm_get (gc_statements g) (st_cache_key st) = Some e" "gc_counter g + 1 = cs_counter e"
    by (auto simp: cs_name_def)
  with gc_inv_statement [OF assms] show False by fastforce
qed

text \<open>Every operation is one of three updates: a new use count for an entry, a fresh entry, the removal
  of an entry nobody uses.\<close>

definition gc_set_used :: "'rd global_cache \<Rightarrow> cache_key \<Rightarrow> cached_stmt \<Rightarrow> nat \<Rightarrow> 'rd global_cache" where
  "gc_set_used g k e u =
     g\<lparr>gc_statements := hm_insert k (e\<lparr>cs_used := u\<rparr>) (gc_statements g),
       gc_unused := (if u = 0 then insert (cs_counter e) (gc_unused g) else gc_unused g - {cs_counter e})\<rparr>"

lemma gc_inv_set_used:
  assumes "gc_inv g" "hm_get (gc_statements g) k = Some e"
  shows "gc_inv (gc_set_used g k e u)"
proof -
  have "{cs_counter e' |k' e'. ((hm_get (gc_statements g))(k \<mapsto> e\<lparr>cs_used := u\<rparr>)) k' = Some e' \<and> cs_used e' = 0}
        = gc_unused (gc_set_used g k e u)" (is "?L = ?R")
  proof
    show "?L \<subseteq> ?R"
      using gc_counter_unique [OF assms]
      by (fastforce simp: gc_set_used_def gc_inv_unused [OF assms(1)] split: if_splits)
    show "?R \<subseteq> ?L"
    proof
      fix c assume c: "c \<in> ?R"
      show "c \<in> ?L"
      proof (cases "c = cs_counter e")
        case True
        with c have "((hm_get (gc_statements g))(k \<mapsto> e\<lparr>cs_used := u\<rparr>)) k = Some (e\<lparr>cs_used := u\<rparr>) \<and> u = 0"
          by (simp add: gc_set_used_def split: if_splits)
        with True show ?thesis by fastforce
      next
        case False
        with c have "c \<in> gc_unused g"
          by (simp add: gc_set_used_def split: if_splits)
        then obtain k' e' where e': "hm_get (gc_statements g) k' = Some e'" "c = cs_counter e'" "cs_used e' = 0"
          unfolding gc_inv_unused [OF assms(1)] by blast
        with False assms(2) have "k' \<noteq> k" by auto
        with e' have "((hm_get (gc_statements g))(k \<mapsto> e\<lparr>cs_used := u\<rparr>)) k' = Some e'" by simp
        with e' show ?thesis by blast
      qed
    qed
  qed
  moreover have "cs_name (e\<lparr>cs_used := u\<rparr>) = cs_name e"
    by (simp add: cs_name_def)
  ultimately show ?thesis
    using assms gc_inv_ok [OF assms(1)]
    unfolding gc_inv_def
    by (simp add: gc_set_used_def) fastforce
qed

lemma gc_close_set_used:
  assumes "gc_inv g" "hm_get (gc_names g) name = Some st" "hm_get (gc_statements g) (st_cache_key st) = Some e"
  shows "gc_close g name = gc_set_used g (st_cache_key st) e (cs_used e - 1)"
    and "gc_decrement g name = gc_set_used g (st_cache_key st) e (cs_used e - 1)"
  using assms gc_inv_name [OF assms(1,2)] gc_unused_iff [OF assms(1,3)]
  by (simp_all add: gc_close_def gc_decrement_def gc_set_used_def Let_def)

lemma gc_close_absent:
  assumes "hm_get (gc_names g) name = None"
  shows "gc_close g name = g" "gc_decrement g name = g"
  using assms by (simp_all add: gc_close_def gc_decrement_def)

lemma gc_inv_close: "gc_inv g \<Longrightarrow> gc_inv (gc_close g name)"
  and gc_inv_decrement: "gc_inv g \<Longrightarrow> gc_inv (gc_decrement g name)"
proof -
  assume inv: "gc_inv g"
  have "gc_inv (gc_close g name) \<and> gc_inv (gc_decrement g name)"
  proof (cases "hm_get (gc_names g) name")
    case None
    with inv show ?thesis by (simp add: gc_close_absent)
  next
    case (Some st)
    with gc_inv_name [OF inv Some] obtain e where "hm_get (gc_statements g) (st_cache_key st) = Some e"
      by blast
    with inv Some show ?thesis
      by (simp add: gc_close_set_used gc_inv_set_used)
  qed
  then show "gc_inv (gc_close g name)" "gc_inv (gc_decrement g name)" by auto
qed

lemma gc_insert_existing:
  assumes "gc_inv g" "hm_get (gc_statements g) (parse_key p 0) = Some e"
  shows "gc_insert g p = ((False, cs_name e), gc_set_used g (parse_key p 0) e (cs_used e + 1))"
  using assms gc_unused_iff [OF assms] by (simp add: gc_insert_def gc_set_used_def cs_name_def)

definition gc_add :: "'rd global_cache \<Rightarrow> parse \<Rightarrow> nat \<Rightarrow> 'rd global_cache" where
  "gc_add g p v =
     (let name = global_name (gc_counter g + 1); key = parse_key p v in
      g\<lparr>gc_counter := gc_counter g + 1, gc_versions := max v (gc_versions g),
        gc_statements := hm_insert key \<lparr>cs_counter = gc_counter g + 1, cs_used = 1\<rparr> (gc_statements g),
        gc_names := hm_insert name
          \<lparr>st_parse = parse_rename p name, st_rewrite = None, st_row_description = None, st_version = v,
           st_cache_key = key, st_evict_on_close = False\<rparr> (gc_names g)\<rparr>)"

definition terminated :: "parse \<Rightarrow> bool" where
  "terminated p \<longleftrightarrow> parse_query_bytes p \<noteq> [] \<and> last (parse_query_bytes p) = NUL"

lemma parse_key_rename [simp]: "terminated p \<Longrightarrow> parse_key (parse_rename p n) v = parse_key p v"
  using append_butlast_last_id [of "parse_query_bytes p"]
  by (simp add: terminated_def parse_key_def parse_rename_def parse_query_def)

lemma parse_name_rename [simp]: "parse_name (parse_rename p n) = n"
  by (simp add: parse_name_def parse_rename_def)

lemma key_version_parse_key [simp]: "key_version (parse_key p v) = v"
  by (simp add: parse_key_def)

lemma gc_insert_new:
  assumes "terminated p" "hm_get (gc_statements g) (parse_key p 0) = None"
  shows "gc_insert g p = ((True, global_name (gc_counter g + 1)), gc_add g p 0)"
  using assms by (simp add: gc_insert_def gc_add_def Let_def)

lemma gc_insert_anyway_add:
  "terminated p \<Longrightarrow> gc_insert_anyway g p = (global_name (gc_counter g + 1), gc_add g p (gc_versions g + 1))"
  by (simp add: gc_insert_anyway_def gc_add_def Let_def)

lemma gc_inv_add:
  assumes inv: "gc_inv g" and p: "terminated p" and new: "hm_get (gc_statements g) (parse_key p v) = None"
  shows "gc_inv (gc_add g p v)"
proof -
  let ?c = "gc_counter g + 1" and ?k = "parse_key p v"
  have fresh: "hm_get (gc_names g) (global_name ?c) = None"
    by (rule gc_name_fresh [OF inv])
  have other: "cs_counter e \<noteq> ?c" if "hm_get (gc_statements g) k = Some e" for k e
    using gc_inv_statement [OF inv that] by linarith
  have ok: "hm_ok (gc_statements (gc_add g p v))" "hm_ok (gc_names (gc_add g p v))"
    using gc_inv_ok [OF inv] by (simp_all add: gc_add_def Let_def)
  have st: "\<forall>k e. hm_get (gc_statements (gc_add g p v)) k = Some e \<longrightarrow>
      1 \<le> cs_counter e \<and> cs_counter e \<le> gc_counter (gc_add g p v) \<and> key_version k \<le> gc_versions (gc_add g p v)
      \<and> (\<exists>st. hm_get (gc_names (gc_add g p v)) (cs_name e) = Some st \<and> st_cache_key st = k)"
    using gc_inv_statement [OF inv] other
    by (auto simp: gc_add_def Let_def cs_name_def parse_key_def le_max_iff_disj) fastforce+
  have nm: "\<forall>n st. hm_get (gc_names (gc_add g p v)) n = Some st \<longrightarrow>
      \<not> st_evict_on_close st \<and> parse_name (st_parse st) = n
      \<and> st_cache_key st = parse_key (st_parse st) (key_version (st_cache_key st))
      \<and> (\<exists>e. hm_get (gc_statements (gc_add g p v)) (st_cache_key st) = Some e \<and> n = cs_name e)"
    using gc_inv_name [OF inv] new p parse_key_rename [OF p, of _ v]
    by (auto simp: gc_add_def Let_def cs_name_def parse_name_rename) fastforce+
  have un: "gc_unused (gc_add g p v)
      = {cs_counter e |k e. hm_get (gc_statements (gc_add g p v)) k = Some e \<and> cs_used e = 0}"
    using new by (auto simp: gc_add_def Let_def gc_inv_unused [OF inv]) (metis option.distinct(1))
  show ?thesis
    unfolding gc_inv_def using ok st nm un by blast
qed

lemma gc_inv_insert: "gc_inv g \<Longrightarrow> terminated p \<Longrightarrow> gc_inv (snd (gc_insert g p))"
  by (cases "hm_get (gc_statements g) (parse_key p 0)")
    (simp_all add: gc_insert_new gc_insert_existing gc_inv_add gc_inv_set_used)

lemma gc_version_fresh: "gc_inv g \<Longrightarrow> hm_get (gc_statements g) (parse_key p (gc_versions g + 1)) = None"
  using gc_inv_statement [of g "parse_key p (gc_versions g + 1)"]
  by (cases "hm_get (gc_statements g) (parse_key p (gc_versions g + 1))") auto

lemma gc_inv_insert_anyway: "gc_inv g \<Longrightarrow> terminated p \<Longrightarrow> gc_inv (snd (gc_insert_anyway g p))"
  by (metis gc_insert_anyway_add gc_inv_add gc_version_fresh snd_conv)

lemma gc_inv_update_name:
  assumes "gc_inv g" "hm_get (gc_names g) n = Some st"
    and "st_parse st' = st_parse st" "st_cache_key st' = st_cache_key st" "st_evict_on_close st' = st_evict_on_close st"
  shows "gc_inv (g\<lparr>gc_names := hm_insert n st' (gc_names g)\<rparr>)"
proof -
  have "\<exists>s. (if cs_name e = n then Some st' else hm_get (gc_names g) (cs_name e)) = Some s \<and> st_cache_key s = k"
    if "hm_get (gc_statements g) k = Some e" for k e
    using gc_inv_statement [OF assms(1) that] assms(2,4) by auto
  then show ?thesis
    using assms unfolding gc_inv_def by simp
qed

lemma gc_inv_rewrite: "gc_inv g \<Longrightarrow> gc_inv (gc_rewrite g p)"
  by (cases "hm_get (gc_names g) (parse_name p)") (auto simp: gc_rewrite_def intro: gc_inv_update_name)

lemma gc_inv_row_description: "gc_inv g \<Longrightarrow> gc_inv (gc_insert_row_description g n rd)"
  by (cases "hm_get (gc_names g) n")
    (auto simp: gc_insert_row_description_def intro: gc_inv_update_name)

text \<open>Eviction of a counter nobody uses removes exactly that entry from both maps.\<close>

lemma gc_evict_unused:
  assumes "gc_inv g" "c \<in> gc_unused g"
  obtains k e st where "hm_get (gc_statements g) k = Some e" "cs_counter e = c" "cs_used e = 0"
    "hm_get (gc_names g) (global_name c) = Some st" "st_cache_key st = k"
    "gc_evict g c = g\<lparr>gc_unused := gc_unused g - {c}, gc_names := hm_remove (global_name c) (gc_names g),
                     gc_statements := hm_remove k (gc_statements g)\<rparr>"
proof -
  obtain k e where e: "hm_get (gc_statements g) k = Some e" "c = cs_counter e" "cs_used e = 0"
    using assms(2) unfolding gc_inv_unused [OF assms(1)] by blast
  obtain st where st: "hm_get (gc_names g) (global_name c) = Some st" "st_cache_key st = k"
    using gc_inv_statement [OF assms(1) e(1)] e(2) by (auto simp: cs_name_def)
  show ?thesis
    using e st by (intro that) (simp_all add: gc_evict_def gc_remove_def)
qed

lemma gc_inv_evict:
  assumes "gc_inv g" "c \<in> gc_unused g"
  shows "gc_inv (gc_evict g c)"
proof -
  obtain k e st where e: "hm_get (gc_statements g) k = Some e" "cs_counter e = c" "cs_used e = 0"
      "hm_get (gc_names g) (global_name c) = Some st" "st_cache_key st = k"
    and ev: "gc_evict g c = g\<lparr>gc_unused := gc_unused g - {c}, gc_names := hm_remove (global_name c) (gc_names g),
                     gc_statements := hm_remove k (gc_statements g)\<rparr>"
    using assms by (rule gc_evict_unused)
  have other: "cs_counter e' \<noteq> c" if "hm_get (gc_statements g) k' = Some e'" "k' \<noteq> k" for k' e'
    using gc_counter_unique [OF assms(1) e(1) that(1)] that(2) e(2) by auto
  have key: "n = global_name c" if "hm_get (gc_names g) n = Some s" "st_cache_key s = k" for n s
    using gc_inv_name [OF assms(1) that(1)] that(2) e(1,2) by (auto simp: cs_name_def)
  have un: "gc_unused g - {c}
      = {cs_counter e' |k' e'. ((hm_get (gc_statements g))(k := None)) k' = Some e' \<and> cs_used e' = 0}"
    using e other by (auto simp: gc_inv_unused [OF assms(1)] split: if_splits) (metis option.inject)
  have st: "\<forall>k' e'. ((hm_get (gc_statements g))(k := None)) k' = Some e' \<longrightarrow>
      1 \<le> cs_counter e' \<and> cs_counter e' \<le> gc_counter g \<and> key_version k' \<le> gc_versions g
      \<and> (\<exists>s. ((hm_get (gc_names g))(global_name c := None)) (cs_name e') = Some s \<and> st_cache_key s = k')"
    using gc_inv_statement [OF assms(1)] other by (auto simp: cs_name_def)
  have nm: "\<forall>n s. ((hm_get (gc_names g))(global_name c := None)) n = Some s \<longrightarrow>
      \<not> st_evict_on_close s \<and> parse_name (st_parse s) = n
      \<and> st_cache_key s = parse_key (st_parse s) (key_version (st_cache_key s))
      \<and> (\<exists>e'. ((hm_get (gc_statements g))(k := None)) (st_cache_key s) = Some e' \<and> n = cs_name e')"
    using gc_inv_name [OF assms(1)] key by (auto split: if_splits)
  show ?thesis
    unfolding gc_inv_def ev using un st nm gc_inv_ok [OF assms(1)] by simp
qed

lemma gc_evict_effect:
  assumes "gc_inv g" "c \<in> gc_unused g"
  shows "gc_unused (gc_evict g c) = gc_unused g - {c}"
    and "Suc (gc_len (gc_evict g c)) = gc_len g"
    and "n \<noteq> global_name c \<Longrightarrow> hm_get (gc_names (gc_evict g c)) n = hm_get (gc_names g) n"
    and "hm_get (gc_statements g) k = Some e \<Longrightarrow> cs_counter e \<noteq> c \<Longrightarrow>
         hm_get (gc_statements (gc_evict g c)) k = Some e"
    and "gc_counter (gc_evict g c) = gc_counter g" "gc_versions (gc_evict g c) = gc_versions g"
proof -
  obtain k' e' st where e: "hm_get (gc_statements g) k' = Some e'" "cs_counter e' = c"
    and ev: "gc_evict g c = g\<lparr>gc_unused := gc_unused g - {c}, gc_names := hm_remove (global_name c) (gc_names g),
                     gc_statements := hm_remove k' (gc_statements g)\<rparr>"
    using assms by (rule gc_evict_unused)
  show "gc_unused (gc_evict g c) = gc_unused g - {c}" "gc_counter (gc_evict g c) = gc_counter g"
    "gc_versions (gc_evict g c) = gc_versions g" "Suc (gc_len (gc_evict g c)) = gc_len g"
    using e gc_inv_ok [OF assms(1)] by (simp_all add: ev gc_len_def length_hm_remove)
  show "n \<noteq> global_name c \<Longrightarrow> hm_get (gc_names (gc_evict g c)) n = hm_get (gc_names g) n"
    by (simp add: ev)
  show "hm_get (gc_statements g) k = Some e \<Longrightarrow> cs_counter e \<noteq> c \<Longrightarrow>
      hm_get (gc_statements (gc_evict g c)) k = Some e"
    using e by (auto simp: ev)
qed

lemma gc_evict_all:
  assumes "gc_inv g" "set cs \<subseteq> gc_unused g" "distinct cs"
  shows "gc_inv (foldl gc_evict g cs) \<and> gc_len (foldl gc_evict g cs) + length cs = gc_len g
    \<and> gc_counter (foldl gc_evict g cs) = gc_counter g \<and> gc_unused (foldl gc_evict g cs) = gc_unused g - set cs
    \<and> (\<forall>k e. hm_get (gc_statements g) k = Some e \<longrightarrow> cs_counter e \<notin> set cs \<longrightarrow>
         hm_get (gc_statements (foldl gc_evict g cs)) k = Some e
         \<and> hm_get (gc_names (foldl gc_evict g cs)) (cs_name e) = hm_get (gc_names g) (cs_name e))"
  using assms
proof (induction cs arbitrary: g)
  case (Cons c cs)
  have c: "c \<in> gc_unused g" using Cons.prems by simp
  note ev = gc_evict_effect [OF Cons.prems(1) c]
  have "set cs \<subseteq> gc_unused (gc_evict g c)"
    using Cons.prems ev(1) by auto
  note IH = Cons.IH [OF gc_inv_evict [OF Cons.prems(1) c] this]
  show ?case
    using IH Cons.prems(3) ev by (auto simp: cs_name_def) (metis global_name_inject)
qed simp

text \<open>The order in which a hash set is iterated is not known; every element comes once.\<close>

definition iterates :: "(nat set \<Rightarrow> nat list) \<Rightarrow> bool" where
  "iterates iter \<longleftrightarrow> (\<forall>A. finite A \<longrightarrow> set (iter A) = A \<and> distinct (iter A))"

lemma iterates_sorted: "iterates sorted_list_of_set"
  by (simp add: iterates_def)

lemma gc_unused_finite: "gc_inv g \<Longrightarrow> finite (gc_unused g)"
  by (rule finite_subset [of _ "{..gc_counter g}"]) (use gc_inv_statement in \<open>fastforce simp: gc_inv_unused\<close>)+

lemma gc_close_unused_effect:
  assumes "gc_inv g" "iterates iter" "0 < capacity"
  shows "gc_inv (snd (gc_close_unused iter g capacity))"
    and "gc_counter (snd (gc_close_unused iter g capacity)) = gc_counter g"
    and "gc_len (snd (gc_close_unused iter g capacity)) = max (min capacity (gc_len g)) (gc_len g - card (gc_unused g))"
    and "hm_get (gc_statements g) k = Some e \<Longrightarrow> 0 < cs_used e \<Longrightarrow>
      hm_get (gc_statements (snd (gc_close_unused iter g capacity))) k = Some e
      \<and> hm_get (gc_names (snd (gc_close_unused iter g capacity))) (cs_name e) = hm_get (gc_names g) (cs_name e)"
proof -
  let ?cs = "take (gc_len g - capacity) (iter (gc_unused g))"
  have it: "set (iter (gc_unused g)) = gc_unused g" "distinct (iter (gc_unused g))"
    using assms(2) gc_unused_finite [OF assms(1)] by (auto simp: iterates_def)
  have cs: "set ?cs \<subseteq> gc_unused g" "distinct ?cs"
    using it set_take_subset [of "gc_len g - capacity" "iter (gc_unused g)"] by auto
  note ev = gc_evict_all [OF assms(1) cs]
  have len: "length (iter (gc_unused g)) = card (gc_unused g)"
    using it distinct_card by fastforce
  have eq: "snd (gc_close_unused iter g capacity) = foldl gc_evict g ?cs"
    using assms(3) by (simp add: gc_close_unused_def Let_def)
  show "gc_inv (snd (gc_close_unused iter g capacity))"
    and "gc_counter (snd (gc_close_unused iter g capacity)) = gc_counter g"
    using ev by (simp_all add: eq)
  have "gc_len (foldl gc_evict g ?cs) + min (card (gc_unused g)) (gc_len g - capacity) = gc_len g"
    using ev len by simp
  then show "gc_len (snd (gc_close_unused iter g capacity))
      = max (min capacity (gc_len g)) (gc_len g - card (gc_unused g))"
    unfolding eq by linarith
  assume e: "hm_get (gc_statements g) k = Some e" "0 < cs_used e"
  then have "cs_counter e \<notin> set ?cs"
    using gc_unused_iff [OF assms(1) e(1)] cs(1) by auto
  with e(1) ev show "hm_get (gc_statements (snd (gc_close_unused iter g capacity))) k = Some e
      \<and> hm_get (gc_names (snd (gc_close_unused iter g capacity))) (cs_name e) = hm_get (gc_names g) (cs_name e)"
    unfolding eq by blast
qed

section \<open>References held by clients\<close>

text \<open>\<open>supported g r\<close>: the cache is consistent, and a name with \<open>r x\<close> references held outside is cached with
  at least that many uses.\<close>

definition supported :: "'rd global_cache \<Rightarrow> (string \<Rightarrow> nat) \<Rightarrow> bool" where
  "supported g r \<longleftrightarrow>
     gc_inv g
     \<and> (\<forall>x. 0 < r x \<longrightarrow>
         (\<exists>st e. hm_get (gc_names g) x = Some st \<and> hm_get (gc_statements g) (st_cache_key st) = Some e
                \<and> r x \<le> cs_used e))"

lemma supported_inv: "supported g r \<Longrightarrow> gc_inv g"
  by (simp add: supported_def)

lemma supported_default: "supported gc_default (\<lambda>_. 0)"
  by (simp add: supported_def gc_inv_default)

lemma supportedE:
  assumes "supported g r" "0 < r x"
  obtains st e where "hm_get (gc_names g) x = Some st" "hm_get (gc_statements g) (st_cache_key st) = Some e"
    "x = cs_name e" "r x \<le> cs_used e"
proof -
  obtain st e where e: "hm_get (gc_names g) x = Some st" "hm_get (gc_statements g) (st_cache_key st) = Some e"
    "r x \<le> cs_used e"
    using assms unfolding supported_def by blast
  moreover have "x = cs_name e"
    using gc_inv_name [OF supported_inv [OF assms(1)] e(1)] e(2) by simp
  ultimately show ?thesis by (intro that)
qed

lemma supported_lookup: "supported g r \<Longrightarrow> 0 < r x \<Longrightarrow> gc_parse g x \<noteq> None"
  by (erule (1) supportedE) (simp add: gc_parse_def)

lemma gc_parse_set_used [simp]: "gc_parse (gc_set_used g k e u) = gc_parse g"
  by (rule ext) (simp add: gc_parse_def gc_set_used_def)

lemma gc_names_set_used [simp]: "gc_names (gc_set_used g k e u) = gc_names g"
  by (simp add: gc_set_used_def)

lemma gc_statements_set_used [simp]:
  "hm_get (gc_statements (gc_set_used g k e u)) = (hm_get (gc_statements g))(k \<mapsto> e\<lparr>cs_used := u\<rparr>)"
  by (simp add: gc_set_used_def)

lemma supported_set_used:
  assumes "supported g r" and e: "hm_get (gc_statements g) k = Some e"
    and "\<And>y. y \<noteq> cs_name e \<Longrightarrow> r' y \<le> r y" and "r' (cs_name e) \<le> u"
  shows "supported (gc_set_used g k e u) r'"
  unfolding supported_def
proof (intro conjI allI impI)
  note inv = supported_inv [OF assms(1)]
  show "gc_inv (gc_set_used g k e u)"
    using inv e by (rule gc_inv_set_used)
  fix x assume x: "0 < r' x"
  show "\<exists>st e'. hm_get (gc_names (gc_set_used g k e u)) x = Some st
      \<and> hm_get (gc_statements (gc_set_used g k e u)) (st_cache_key st) = Some e' \<and> r' x \<le> cs_used e'"
  proof (cases "x = cs_name e")
    case True
    obtain st where "hm_get (gc_names g) x = Some st" "st_cache_key st = k"
      using gc_inv_statement [OF inv e] True by blast
    with True assms(4) show ?thesis by simp
  next
    case False
    with assms(3) [OF False] x have "0 < r x" by simp
    with assms(1) obtain st e' where e': "hm_get (gc_names g) x = Some st"
        "hm_get (gc_statements g) (st_cache_key st) = Some e'" "x = cs_name e'" "r x \<le> cs_used e'"
      by (rule supportedE)
    then have "st_cache_key st \<noteq> k"
      using False e by auto
    with e' assms(3) [OF False] show ?thesis by (auto intro: order_trans)
  qed
qed

text \<open>\<^verbatim>\<open>close\<close> and \<^verbatim>\<open>decrement\<close> give one reference back.\<close>

lemma supported_release:
  assumes "supported g r" "0 < r x"
  shows "supported (gc_close g x) (r(x := r x - 1))" "gc_parse (gc_close g x) = gc_parse g"
    and "supported (gc_decrement g x) (r(x := r x - 1))" "gc_parse (gc_decrement g x) = gc_parse g"
proof -
  obtain st e where e: "hm_get (gc_names g) x = Some st" "hm_get (gc_statements g) (st_cache_key st) = Some e"
      "x = cs_name e" "r x \<le> cs_used e"
    using assms by (rule supportedE)
  have "supported (gc_set_used g (st_cache_key st) e (cs_used e - 1)) (r(x := r x - 1))"
    using assms(1) e(2) by (rule supported_set_used) (use e in auto)
  then show "supported (gc_close g x) (r(x := r x - 1))" "gc_parse (gc_close g x) = gc_parse g"
    "supported (gc_decrement g x) (r(x := r x - 1))" "gc_parse (gc_decrement g x) = gc_parse g"
    by (simp_all add: gc_close_set_used [OF supported_inv [OF assms(1)] e(1,2)])
qed

lemma supported_add:
  assumes "supported g r" "terminated p" "hm_get (gc_statements g) (parse_key p v) = None"
  defines "x \<equiv> global_name (gc_counter g + 1)"
  shows "supported (gc_add g p v) (r(x := Suc (r x)))" "gc_parse (gc_add g p v) = (gc_parse g)(x \<mapsto> parse_rename p x)"
proof -
  note inv = supported_inv [OF assms(1)]
  have "hm_get (gc_names g) x = None"
    unfolding x_def by (rule gc_name_fresh [OF inv])
  then have r0: "r x = 0"
    using supported_lookup [OF assms(1), of x] by (auto simp: gc_parse_def)
  have names: "hm_get (gc_names (gc_add g p v)) y = hm_get (gc_names g) y" if "y \<noteq> x" for y
    using that by (simp add: gc_add_def Let_def x_def)
  show "supported (gc_add g p v) (r(x := Suc (r x)))"
    unfolding supported_def
  proof (intro conjI allI impI)
    show "gc_inv (gc_add g p v)"
      using inv assms(2,3) by (rule gc_inv_add)
    fix y assume y: "0 < (r(x := Suc (r x))) y"
    show "\<exists>st e'. hm_get (gc_names (gc_add g p v)) y = Some st
      \<and> hm_get (gc_statements (gc_add g p v)) (st_cache_key st) = Some e' \<and> (r(x := Suc (r x))) y \<le> cs_used e'"
    proof (cases "y = x")
      case True
      with r0 show ?thesis by (simp add: gc_add_def Let_def x_def)
    next
      case False
      with y have "0 < r y" by simp
      with assms(1) obtain st e' where e': "hm_get (gc_names g) y = Some st"
          "hm_get (gc_statements g) (st_cache_key st) = Some e'" "r y \<le> cs_used e'"
        by (auto elim: supportedE)
      moreover from e'(2) assms(3) have "st_cache_key st \<noteq> parse_key p v" by auto
      ultimately show ?thesis
        using False names [OF False] by (simp add: gc_add_def Let_def)
    qed
  qed
  show "gc_parse (gc_add g p v) = (gc_parse g)(x \<mapsto> parse_rename p x)"
    by (rule ext) (simp add: gc_parse_def gc_add_def Let_def x_def)
qed

text \<open>The two ways of entering a statement, \<^verbatim>\<open>insert\<close> and \<^verbatim>\<open>insert_anyway\<close>, share a contract: the returned name
  is held once more, it stands for the statement, and no other name changes its meaning.\<close>

definition same_statement :: "parse \<Rightarrow> parse \<Rightarrow> bool" where
  "same_statement p q \<longleftrightarrow>
     parse_query_bytes p = parse_query_bytes q \<and> parse_data_types p = parse_data_types q"

lemma same_statement_key: "same_statement p q \<longleftrightarrow> parse_key p v = parse_key q v"
  by (simp add: same_statement_def parse_key_def)

lemma same_statement_rename [simp]: "terminated p \<Longrightarrow> same_statement (parse_rename p x) p"
  by (simp add: same_statement_key [where v = 0])

locale statement_source =
  fixes acquire :: "'rd global_cache \<Rightarrow> parse \<Rightarrow> string \<times> 'rd global_cache"
  assumes acquire_supported:
      "supported g r \<Longrightarrow> terminated p \<Longrightarrow> acquire g p = (x, g') \<Longrightarrow> supported g' (r(x := Suc (r x)))"
    and acquire_stored:
      "supported g r \<Longrightarrow> terminated p \<Longrightarrow> acquire g p = (x, g') \<Longrightarrow>
       \<exists>q. gc_parse g' x = Some q \<and> same_statement q p"
    and acquire_keeps:
      "supported g r \<Longrightarrow> terminated p \<Longrightarrow> acquire g p = (x, g') \<Longrightarrow> gc_parse g y = Some q \<Longrightarrow>
       gc_parse g' y = Some q"
begin

text \<open>A statement stays what it is while others are entered.\<close>

lemma acquire_all_keeps:
  "supported g r \<Longrightarrow> list_all terminated ps \<Longrightarrow> gc_parse g y = Some q \<Longrightarrow>
   gc_parse (foldl (\<lambda>g p. snd (acquire g p)) g ps) y = Some q"
proof (induction ps arbitrary: g r)
  case (Cons p ps)
  obtain x g' where a: "acquire g p = (x, g')" by fastforce
  have "gc_parse g' y = Some q"
    using Cons.prems a by (auto intro: acquire_keeps)
  moreover have "supported g' (r(x := Suc (r x)))"
    using Cons.prems a by (auto intro: acquire_supported)
  ultimately show ?case
    using Cons.IH Cons.prems(2) a by auto
qed simp

end

definition gc_insert_name :: "'rd global_cache \<Rightarrow> parse \<Rightarrow> string \<times> 'rd global_cache" where
  "gc_insert_name g p = (snd (fst (gc_insert g p)), snd (gc_insert g p))"

lemma gc_insert_cases:
  assumes "supported g r" "terminated p"
  obtains (old) e st where "hm_get (gc_statements g) (parse_key p 0) = Some e"
      "hm_get (gc_names g) (cs_name e) = Some st" "same_statement (st_parse st) p" "r (cs_name e) \<le> cs_used e"
      "gc_insert_name g p = (cs_name e, gc_set_used g (parse_key p 0) e (cs_used e + 1))"
  | (new) "hm_get (gc_statements g) (parse_key p 0) = None"
      "gc_insert_name g p = (global_name (gc_counter g + 1), gc_add g p 0)"
proof (cases "hm_get (gc_statements g) (parse_key p 0)")
  case None
  with assms(2) show ?thesis by (intro new) (simp_all add: gc_insert_name_def gc_insert_new)
next
  case (Some e)
  note inv = supported_inv [OF assms(1)]
  obtain st where st: "hm_get (gc_names g) (cs_name e) = Some st" "st_cache_key st = parse_key p 0"
    using gc_inv_statement [OF inv Some] by blast
  have "same_statement (st_parse st) p"
    using gc_inv_name [OF inv st(1)] st(2) by (simp add: same_statement_key [where v = 0])
  moreover have "r (cs_name e) \<le> cs_used e"
  proof (cases "0 < r (cs_name e)")
    case True
    with assms(1) show ?thesis
      by (rule supportedE) (use Some st in simp)
  qed simp
  ultimately show ?thesis
    using Some st(1)
    by (intro old) (simp_all add: gc_insert_name_def gc_insert_existing [OF inv Some])
qed

interpretation gci: statement_source gc_insert_name
proof
  fix g :: "'a global_cache" and r p x g'
  assume a: "supported g r" "terminated p" "gc_insert_name g p = (x, g')"
  from a(1,2) show "supported g' (r(x := Suc (r x)))"
  proof (cases rule: gc_insert_cases)
    case (old e st)
    with old a show ?thesis
      by (auto intro!: supported_set_used)
  next
    case new
    with a supported_add(1) [OF a(1,2) new(1)] show ?thesis by simp
  qed
  from a(1,2) show "\<exists>q. gc_parse g' x = Some q \<and> same_statement q p"
  proof (cases rule: gc_insert_cases)
    case (old e st)
    with a show ?thesis by (auto simp: gc_parse_def)
  next
    case new
    with a supported_add(2) [OF a(1,2) new(1)] show ?thesis by auto
  qed
  fix y q assume y: "gc_parse g y = Some q"
  from a(1,2) show "gc_parse g' y = Some q"
  proof (cases rule: gc_insert_cases)
    case (old e st)
    with a y show ?thesis by auto
  next
    case new
    moreover have "gc_parse g (global_name (gc_counter g + 1)) = None"
      using gc_name_fresh [OF supported_inv [OF a(1)]] by (simp add: gc_parse_def)
    ultimately show ?thesis
      using a y supported_add(2) [OF a(1,2) new(1)] by auto
  qed
qed

interpretation gca: statement_source gc_insert_anyway
proof
  fix g :: "'a global_cache" and r p x g'
  assume a: "supported g r" "terminated p" "gc_insert_anyway g p = (x, g')"
  note inv = supported_inv [OF a(1)]
  have x: "x = global_name (gc_counter g + 1)" "g' = gc_add g p (gc_versions g + 1)"
    using a by (simp_all add: gc_insert_anyway_add)
  note add = supported_add [OF a(1,2) gc_version_fresh [OF inv], folded x]
  show "supported g' (r(x := Suc (r x)))"
    by (rule add(1))
  show "\<exists>q. gc_parse g' x = Some q \<and> same_statement q p"
    using a(2) by (simp add: add(2))
  have "gc_parse g x = None"
    using gc_name_fresh [OF inv] by (simp add: gc_parse_def x)
  then show "gc_parse g' y = Some q" if "gc_parse g y = Some q" for y q
    using that by (auto simp: add(2))
qed

section \<open>Properties\<close>

datatype 'rd gc_op =
    OpInsert parse
  | OpInsertAnyway parse
  | OpRewrite parse
  | OpRowDescription string 'rd
  | OpClose string
  | OpDecrement string
  | OpCloseUnused "nat set \<Rightarrow> nat list" nat

fun gc_step :: "'rd global_cache \<Rightarrow> 'rd gc_op \<Rightarrow> 'rd global_cache" where
  "gc_step g (OpInsert p) = snd (gc_insert g p)"
| "gc_step g (OpInsertAnyway p) = snd (gc_insert_anyway g p)"
| "gc_step g (OpRewrite p) = gc_rewrite g p"
| "gc_step g (OpRowDescription n rd) = gc_insert_row_description g n rd"
| "gc_step g (OpClose n) = gc_close g n"
| "gc_step g (OpDecrement n) = gc_decrement g n"
| "gc_step g (OpCloseUnused iter capacity) = snd (gc_close_unused iter g capacity)"

text \<open>A \<^verbatim>\<open>Parse\<close> that enters the cache has a terminated query text.\<close>

fun gc_op_ok :: "'rd gc_op \<Rightarrow> bool" where
  "gc_op_ok (OpInsert p) = terminated p"
| "gc_op_ok (OpInsertAnyway p) = terminated p"
| "gc_op_ok (OpCloseUnused iter capacity) = iterates iter"
| "gc_op_ok _ = True"

lemma gc_inv_step: "gc_inv g \<Longrightarrow> gc_op_ok op \<Longrightarrow> gc_inv (gc_step g op)"
proof (cases op)
  case (OpCloseUnused iter capacity)
  assume "gc_inv g" "gc_op_ok op"
  with OpCloseUnused show ?thesis
    by (cases "capacity = 0") (simp_all add: gc_close_unused_effect(1), simp add: gc_close_unused_def gc_inv_reset)
qed (simp_all add: gc_inv_insert gc_inv_insert_anyway gc_inv_rewrite gc_inv_row_description gc_inv_close
    gc_inv_decrement)

interpretation gcs: op_system gc_step gc_op_ok gc_inv
  by unfold_locales (rule gc_inv_step)

text \<open>Without \<^verbatim>\<open>reset\<close>, the counter that makes the names never goes back.\<close>

fun gc_op_keep :: "'rd gc_op \<Rightarrow> bool" where
  "gc_op_keep (OpCloseUnused iter capacity) = (iterates iter \<and> 0 < capacity)"
| "gc_op_keep op = gc_op_ok op"

lemma gc_op_keep_ok: "gc_op_keep op \<Longrightarrow> gc_op_ok op"
  by (cases op) auto

lemma gc_counter_set_used [simp]: "gc_counter (gc_set_used g k e u) = gc_counter g"
  by (simp add: gc_set_used_def)

lemma gc_counter_step: "gc_inv g \<Longrightarrow> gc_op_keep op \<Longrightarrow> gc_counter g \<le> gc_counter (gc_step g op)"
proof (cases op)
  case (OpCloseUnused iter capacity)
  assume "gc_inv g" "gc_op_keep op"
  with OpCloseUnused show ?thesis by (simp add: gc_close_unused_effect(2))
qed (auto simp: gc_insert_def gc_insert_anyway_def gc_rewrite_def gc_insert_row_description_def gc_close_def
    gc_decrement_def gc_remove_def Let_def split: option.splits)

interpretation gcm: monotone_system gc_step gc_op_keep gc_inv gc_counter
  by unfold_locales (auto intro: gc_inv_step gc_counter_step gc_op_keep_ok)

text \<open>C6: after any sequence of operations from the empty cache, the map from statements to names and the map
  from names to statements are inverse to each other, every name is numbered by a counter that was
  issued, and the unused set holds exactly the statements without a user.\<close>

theorem cache_consistent:
  assumes "list_all gc_op_ok ops"
  shows "gc_inv (foldl gc_step gc_default ops)"
  using gcs.run_inv [OF gc_inv_default assms] .

theorem cache_consistent_witness:
  "gc_inv (foldl gc_step gc_default
     [OpInsert (parse_named ''a'' ''SELECT 1''), OpClose (global_name 1), OpCloseUnused sorted_list_of_set 1,
      OpInsertAnyway (parse_named ''b'' ''SELECT 1'')] :: unit global_cache)"
  by (rule cache_consistent) (simp add: terminated_def parse_named_def iterates_sorted)

lemma supported_none: "gc_inv g \<Longrightarrow> supported g (\<lambda>_. 0)"
  by (simp add: supported_def)

lemma gc_insert_entry:
  assumes "gc_inv g" "terminated p" "gc_insert g p = ((b, x), g')"
  obtains e where "hm_get (gc_statements g') (parse_key p 0) = Some e" "cs_name e = x"
proof (cases "hm_get (gc_statements g) (parse_key p 0)")
  case None
  with assms show ?thesis
    by (intro that [of "\<lparr>cs_counter = gc_counter g + 1, cs_used = 1\<rparr>"])
      (auto simp: gc_insert_new gc_add_def Let_def cs_name_def)
next
  case (Some e)
  with assms show ?thesis
    by (intro that [of "e\<lparr>cs_used := cs_used e + 1\<rparr>"]) (auto simp: gc_insert_existing cs_name_def)
qed



text \<open>A name is never given to a second statement: as long as the cache is not reset, a new statement
  gets a name that no statement had before, whatever was inserted, closed and evicted in between.\<close>

theorem new_names_are_fresh:
  assumes "gc_inv g" "list_all gc_op_keep ops" "terminated p"
    and "gc_insert (foldl gc_step g ops) p = ((True, x), g')"
    and "c \<le> gc_counter g"
  shows "x \<noteq> global_name c"
proof -
  have "gc_inv (foldl gc_step g ops)"
    using assms(1,2) by (rule gcm.run_inv)
  with assms(3,4) have "x = global_name (gc_counter (foldl gc_step g ops) + 1)"
    by (cases "hm_get (gc_statements (foldl gc_step g ops)) (parse_key p 0)")
      (auto simp: gc_insert_new gc_insert_existing)
  with gcm.run_progress [OF assms(1,2)] assms(5) show ?thesis by simp
qed

theorem new_names_are_fresh_witness:
  "let p = parse_named ''a'' ''SELECT 1''; g = snd (gc_insert (gc_default :: unit global_cache) p);
       g1 = foldl gc_step g [OpClose (global_name 1), OpCloseUnused sorted_list_of_set 1]
   in snd (fst (gc_insert g1 (parse_named ''b'' ''SELECT 2''))) \<noteq> global_name 1"
proof -
  let ?p = "parse_named ''a'' ''SELECT 1''" and ?q = "parse_named ''b'' ''SELECT 2''"
  let ?g = "snd (gc_insert (gc_default :: unit global_cache) ?p)"
  let ?ops = "[OpClose (global_name 1), OpCloseUnused sorted_list_of_set 1]"
  have t: "terminated ?p" "terminated ?q"
    by (simp_all add: terminated_def parse_named_def)
  have "fst (fst (gc_insert (foldl gc_step ?g ?ops) ?q))" "gc_counter ?g = 1"
    by (simp_all add: gc_insert_def gc_default_def Let_def gc_close_def gc_close_unused_def gc_len_def
        hm_insert_def hm_remove_def parse_key_def parse_rename_def parse_named_def parse_query_def)
  moreover obtain b x g' where r: "gc_insert (foldl gc_step ?g ?ops) ?q = ((b, x), g')"
    by (metis prod.collapse)
  ultimately have "x \<noteq> global_name 1"
    using new_names_are_fresh [OF gc_inv_insert [OF gc_inv_default t(1)] _ t(2), of ?ops x g' 1]
    by (simp add: iterates_sorted)
  with r show ?thesis by simp
qed

text \<open>Eviction down to a limit keeps every statement somebody uses, with its name; it removes unused
  statements only, as many as the limit asks for or as there are.\<close>

theorem close_unused_keeps_used:
  assumes "gc_inv g" "iterates iter" "0 < capacity"
  shows "gc_len (snd (gc_close_unused iter g capacity)) = max (min capacity (gc_len g)) (gc_len g - card (gc_unused g))
    \<and> (\<forall>k e. hm_get (gc_statements g) k = Some e \<and> 0 < cs_used e \<longrightarrow>
         hm_get (gc_statements (snd (gc_close_unused iter g capacity))) k = Some e
         \<and> gc_parse (snd (gc_close_unused iter g capacity)) (cs_name e) = gc_parse g (cs_name e))"
  using gc_close_unused_effect(3,4) [OF assms] by (auto simp: gc_parse_def)

theorem close_unused_keeps_used_witness:
  "let p = parse_named ''a'' ''SELECT 1''; g = snd (gc_insert (gc_default :: unit global_cache) p)
   in gc_len (snd (gc_close_unused sorted_list_of_set g 1)) = 1"
proof -
  have "terminated (parse_named ''a'' ''SELECT 1'')"
    by (simp add: terminated_def parse_named_def)
  note r = close_unused_keeps_used [of "snd (gc_insert (gc_default :: unit global_cache) (parse_named ''a'' ''SELECT 1''))",
      OF gc_inv_insert [OF gc_inv_default this] iterates_sorted, of 1]
  have "gc_len (snd (gc_insert (gc_default :: unit global_cache) (parse_named ''a'' ''SELECT 1''))) = 1"
    by (simp add: gc_insert_def gc_default_def gc_len_def Let_def hm_insert_def hm_remove_def)
  with r show ?thesis unfolding Let_def by linarith
qed

text \<open>A limit of zero does not evict unused statements only: it forgets every statement, also one that
  is in use, and starts numbering again, so the next statement is given the global name a client
  already holds for another query.\<close>

theorem zero_limit_reissues_names:
  "let p = parse_named ''a'' ''SELECT 1''; q = parse_named ''b'' ''SELECT 2'';
       ((_, x), g) = gc_insert (gc_default :: unit global_cache) p;
       (removed, g1) = gc_close_unused sorted_list_of_set g 0;
       ((_, y), g2) = gc_insert g1 q
   in gc_query g x = Some ''SELECT 1'' \<and> gc_unused g = {} \<and> removed = 1 \<and> gc_query g1 x = None
      \<and> y = x \<and> gc_query g2 x = Some ''SELECT 2''"
  by (simp add: gc_insert_def gc_default_def Let_def gc_close_unused_def gc_reset_def gc_len_def gc_query_def
      hm_insert_def hm_remove_def parse_key_def parse_rename_def parse_named_def parse_query_def)

end
