(* ===== verification/Codec.thy ===== *)
theory Codec
  imports Messages
begin

text \<open>
  The codecs of the messages of \<^verbatim>\<open>pgdog/src/net/messages/\<close>: what a decoder accepts is well formed, and
  a well-formed message is read back from its encoding. The interface \<open>wire_codec\<close> states the
  contract once; \<^verbatim>\<open>Parse\<close>, \<^verbatim>\<open>Bind\<close>, \<^verbatim>\<open>Describe\<close>, \<^verbatim>\<open>ReadyForQuery\<close>, \<^verbatim>\<open>BackendKeyData\<close> interpret it. The
  lemmas at the end are about the format codes of a \<^verbatim>\<open>Bind\<close> to which a parameter is appended.
\<close>

section \<open>The contract of a codec\<close>

text \<open>\<open>decoded x\<close> is what reading the encoding of \<open>x\<close> gives: \<open>x\<close> itself, with the bytes it came from
  remembered where the message keeps them.\<close>

locale wire_codec =
  fixes encode :: "'a \<Rightarrow> bytes"
    and decode :: "bytes \<Rightarrow> net_error + 'a"
    and valid :: "'a \<Rightarrow> bool"
    and decoded :: "'a \<Rightarrow> 'a"
  assumes decode_encode: "valid x \<Longrightarrow> decode (encode x) = Inr (decoded x)"
    and encode_decoded: "valid x \<Longrightarrow> encode (decoded x) = encode x"
begin

lemma forwarded_unchanged: "valid x \<Longrightarrow> decode (encode x) = Inr y \<Longrightarrow> encode y = encode x"
  using decode_encode encode_decoded by auto

lemma encode_inj: "valid x \<Longrightarrow> valid y \<Longrightarrow> encode x = encode y \<Longrightarrow> decoded x = decoded y"
  using decode_encode [of x] decode_encode [of y] by simp

end

section \<open>Parse\<close>

text \<open>A text read by \<^verbatim>\<open>c_string_buf_len\<close> in front of \<open>rest\<close>: terminated, or the last bytes of the buffer.\<close>

definition cstr_before :: "bytes \<Rightarrow> bytes \<Rightarrow> bool" where
  "cstr_before bs rest \<longleftrightarrow> bs \<noteq> [] \<and> c_string_buf_len (bs @ rest) = length bs \<and> utf8_valid (butlast bs)"

lemma cstr_ok_before [simp]: "cstr_ok bs \<Longrightarrow> cstr_before bs rest"
  by (auto simp: cstr_before_def c_string_buf_len_cstr) (simp add: cstr_ok_def)

lemma c_string_buf_len_le: "c_string_buf_len bs \<le> length bs"
  by (induction bs) auto

lemma c_string_buf_len_eq_0 [simp]:
  "c_string_buf_len bs = 0 \<longleftrightarrow> bs = []" "0 < c_string_buf_len bs \<longleftrightarrow> bs \<noteq> []"
  by (cases bs; simp)+

lemma take_c_string_cstr:
  "c_string_buf_len bs < length bs \<Longrightarrow>
   last (take (c_string_buf_len bs) bs) = NUL \<and> NUL \<notin> set (butlast (take (c_string_buf_len bs) bs))"
proof (induction bs)
  case (Cons c cs)
  then show ?case
    by (cases "c_string_buf_len cs") (auto split: if_splits)
qed simp

lemma cstr_before_take:
  "c_string_buf_len bs \<noteq> 0 \<Longrightarrow> utf8_valid (butlast (take (c_string_buf_len bs) bs)) \<Longrightarrow>
   cstr_before (take (c_string_buf_len bs) bs) (drop (c_string_buf_len bs) bs)"
  using c_string_buf_len_le [of bs] by (auto simp: cstr_before_def)

lemma cstr_ok_take:
  "c_string_buf_len bs \<noteq> 0 \<Longrightarrow> drop (c_string_buf_len bs) bs \<noteq> [] \<Longrightarrow>
   utf8_valid (butlast (take (c_string_buf_len bs) bs)) \<Longrightarrow> cstr_ok (take (c_string_buf_len bs) bs)"
  using take_c_string_cstr [of bs] by (auto simp: cstr_ok_def)

definition parse_ok :: "parse \<Rightarrow> bool" where
  "parse_ok p \<longleftrightarrow>
     cstr_ok (parse_name_bytes p) \<and> cstr_before (parse_query_bytes p) (parse_data_types p)
     \<and> parse_original p = None
     \<and> fits (parse_name_bytes p @ parse_query_bytes p @ parse_data_types p)"

definition parse_decoded :: "parse \<Rightarrow> parse" where
  "parse_decoded p = p\<lparr>parse_original := Some (parse_to_bytes p)\<rparr>"

lemma parse_decode_encode:
  assumes "parse_ok p"
  shows "parse_from_bytes (parse_to_bytes p) = Inr (parse_decoded p)"
proof -
  obtain n q d where p: "p = \<lparr>parse_name_bytes = n, parse_query_bytes = q, parse_data_types = d, parse_original = None\<rparr>"
    using assms by (cases p) (auto simp: parse_ok_def)
  have ok: "cstr_ok n" "q \<noteq> []" "c_string_buf_len (q @ d) = length q" "utf8_valid (butlast q)" "fits (n @ q @ d)"
    using assms by (auto simp: parse_ok_def cstr_before_def p)
  show ?thesis
    using ok c_string_buf_len_cstr [OF ok(1), of "q @ d"]
    by (simp add: p parse_to_bytes_def parse_from_bytes_def parse_decoded_def payload_named_fits Let_def
        from_utf8_def [of "butlast q"])
qed

interpretation parse_wire: wire_codec parse_to_bytes parse_from_bytes parse_ok parse_decoded
  by unfold_locales (auto simp: parse_decode_encode, simp add: parse_decoded_def parse_to_bytes_def)

lemma parse_from_bytes_shape:
  assumes "parse_from_bytes bs = Inr p"
  shows "cstr_before (parse_query_bytes p) (parse_data_types p)" "parse_original p = Some bs"
  using assms
  by (auto simp: parse_from_bytes_def and_then_eq_Inr Let_def from_utf8_def cstr_before_take
      simp flip: drop_drop split: if_splits)

text \<open>A \<^verbatim>\<open>Parse\<close> that was read from the wire and given another statement name is encoded to bytes
  that read back as the same query and the same parameter types under the new name: renaming a
  statement (\<^verbatim>\<open>rename_fast\<close>) never damages the request.\<close>

theorem parse_rename_roundtrip:
  assumes "parse_from_bytes bs = Inr p"
    and "cstr_ok (name @ [NUL])"
    and "length name + parse_len p < 2147483648"
  shows "parse_from_bytes (parse_to_bytes (parse_rename_fast p name))
         = Inr \<lparr>parse_name_bytes = name @ [NUL], parse_query_bytes = parse_query_bytes p,
                parse_data_types = parse_data_types p,
                parse_original = Some (payload_named CHR ''P''
                  (name @ [NUL] @ parse_query_bytes p @ parse_data_types p))\<rparr>"
proof -
  have "parse_ok (parse_rename_fast p name)"
    using parse_from_bytes_shape(1) [OF assms(1)] assms(2,3)
    by (simp add: parse_ok_def parse_rename_fast_def parse_len_def)
  then show ?thesis
    using parse_wire.decode_encode [of "parse_rename_fast p name"]
    by (simp add: parse_decoded_def parse_rename_fast_def parse_to_bytes_def)
qed

theorem parse_rename_roundtrip_witness:
  "parse_from_bytes (parse_to_bytes (parse_rename_fast (parse_decoded (parse_named ''a'' ''SELECT 1'')) ''__pgdog_1''))
   = Inr (parse_decoded (parse_named ''__pgdog_1'' ''SELECT 1''))"
proof -
  let ?p = "parse_named ''a'' ''SELECT 1''"
  have "parse_from_bytes (parse_to_bytes ?p) = Inr (parse_decoded ?p)"
    by (rule parse_wire.decode_encode) (simp add: parse_ok_def parse_named_def cstr_ok_def cstr_before_def)
  from parse_rename_roundtrip [OF this, of "''__pgdog_1''"] show ?thesis
    by (simp add: parse_decoded_def parse_named_def parse_len_def parse_to_bytes_def cstr_ok_def)
qed

section \<open>Bind\<close>

definition param_ok :: "parameter \<Rightarrow> bool" where
  "param_ok p \<longleftrightarrow>
     (if param_len p < 0 then - 2147483648 \<le> param_len p \<and> param_data p = []
      else param_len p = int (length (param_data p)) \<and> param_len p < 2147483648)"

definition bind_shape :: "bind \<Rightarrow> bool" where
  "bind_shape b \<longleftrightarrow>
     cstr_ok (bind_portal b) \<and> cstr_ok (bind_statement_bytes b)
     \<and> length (bind_codes b) < 65536 \<and> length (bind_params b) < 65536
     \<and> list_all param_ok (bind_params b)
     \<and> even (length (bind_results b)) \<and> length (bind_results b) div 2 < 32768"

definition bind_ok :: "bind \<Rightarrow> bool" where
  "bind_ok b \<longleftrightarrow> bind_shape b \<and> bind_original b = None \<and> fits (bind_body b)"

definition bind_decoded :: "bind \<Rightarrow> bind" where
  "bind_decoded b = b\<lparr>bind_original := Some (bind_to_bytes b)\<rparr>"

lemma length_put_formats [simp]: "length (concat (map put_format cs)) = 2 * length cs"
  by (induction cs) (auto simp: put_format_def)

lemma read_codes_put [simp]: "read_codes (length cs) (concat (map put_format cs) @ r) = Inr (cs, r)"
  by (induction cs) (auto simp: put_format_def split: format.splits)

lemma read_params_put [simp]:
  "list_all param_ok ps \<Longrightarrow> read_params (length ps) (concat (map put_param ps) @ r) = Inr (ps, r)"
proof (induction ps)
  case (Cons p ps)
  then show ?case
    by (cases p) (auto simp: put_param_def param_ok_def split: if_splits)
qed simp

lemma read_results_put [simp]:
  "even (length rs) \<Longrightarrow> length rs div 2 < 32768 \<Longrightarrow>
   read_results (put_i16 (int (length rs div 2)) @ rs) = Inr rs"
proof (elim evenE)
  fix k assume "length rs = 2 * k" "length rs div 2 < 32768"
  then have "get_i16 (put_i16 (int (length rs div 2)) @ rs) = Inr (int k, rs)" "nat (int k) * 2 = length rs" "k = 0 \<longrightarrow> rs = []"
    by auto
  then show ?thesis
    by (simp add: read_results_def)
qed

lemma bind_decode_encode:
  assumes "bind_ok b"
  shows "bind_from_bytes (bind_to_bytes b) = Inr (bind_decoded b)"
proof -
  obtain po st cs ps rs where b:
    "b = \<lparr>bind_portal = po, bind_statement_bytes = st, bind_codes = cs, bind_params = ps,
          bind_results = rs, bind_original = None\<rparr>"
    using assms by (cases b) (auto simp: bind_ok_def)
  define tail where "tail = put_u16 (length cs) @ concat (map put_format cs)
     @ put_u16 (length ps) @ concat (map put_param ps) @ put_i16 (int (length rs div 2)) @ rs"
  have ok: "cstr_ok po" "cstr_ok st" "length cs < 65536" "length ps < 65536" "list_all param_ok ps"
      "even (length rs)" "length rs div 2 < 32768" "fits (po @ st @ tail)"
    using assms by (simp_all add: bind_ok_def bind_shape_def b bind_body_def tail_def)
  have body: "bind_body b = po @ st @ tail"
    by (simp add: b bind_body_def tail_def)
  have "bind_from_bytes (CHR ''B'' # put_i32 (int (length (po @ st @ tail) + 4)) @ po @ st @ tail)
        = Inr (b\<lparr>bind_original := Some (CHR ''B'' # put_i32 (int (length (po @ st @ tail) + 4)) @ po @ st @ tail)\<rparr>)"
    using ok c_string_buf_len_cstr [OF ok(1), of "st @ tail"] c_string_buf_len_cstr [OF ok(2), of tail]
    by (simp add: bind_from_bytes_def Let_def b) (simp add: tail_def)
  then show ?thesis
    using ok(8) by (simp add: bind_to_bytes_def bind_decoded_def b payload_named_fits body [unfolded b])
qed

interpretation bind_wire: wire_codec bind_to_bytes bind_from_bytes bind_ok bind_decoded
  by unfold_locales (auto simp: bind_decode_encode, simp add: bind_decoded_def bind_to_bytes_def)

lemma be_value_less: "be_value xs < 256 ^ length xs"
proof (induction xs rule: rev_induct)
  case (snoc c xs)
  have "of_char c < (256::nat)"
    by simp
  with snoc have "256 * be_value xs + of_char c < 256 * 256 ^ length xs"
    by linarith
  then show ?case by simp
qed (simp add: be_value_def)

lemma get_be_less: "get_be k bs = Inr (n, r) \<Longrightarrow> n < 256 ^ k"
  using be_value_less [of "take k bs"] by (auto simp: get_be_def split: if_splits)

lemma get_u16_less: "get_u16 bs = Inr (n, r) \<Longrightarrow> n < 65536"
  using get_be_less [of 2 bs n r] by (simp add: get_u16_def)

lemma to_signed_range: "0 < w \<Longrightarrow> n < 2 ^ w \<Longrightarrow> - (2 ^ (w - 1)) \<le> to_signed w n \<and> to_signed w n < 2 ^ (w - 1)"
proof -
  assume w: "0 < w" and n: "n < 2 ^ w"
  have p: "(2::int) ^ w = 2 * 2 ^ (w - 1)"
    using w by (cases w) auto
  have "int n < 2 ^ w" "n < 2 ^ (w - 1) \<longleftrightarrow> int n < 2 ^ (w - 1)"
    using n by simp_all
  then show ?thesis
    unfolding to_signed_def p by auto
qed

lemma get_i16_range: "get_i16 bs = Inr (i, r) \<Longrightarrow> - 32768 \<le> i \<and> i < 32768"
  using get_be_less [of 2 bs] to_signed_range [of 16] by (fastforce simp: get_i16_def and_then_eq_Inr)

lemma get_i32_range: "get_i32 bs = Inr (i, r) \<Longrightarrow> - 2147483648 \<le> i \<and> i < 2147483648"
  using get_be_less [of 4 bs] to_signed_range [of 32] by (fastforce simp: get_i32_def and_then_eq_Inr)

lemma read_codes_length: "read_codes n bs = Inr (cs, r) \<Longrightarrow> length cs = n"
  by (induction n bs arbitrary: cs r rule: read_codes.induct) (auto simp: and_then_eq_Inr)

lemma read_params_ok: "read_params n bs = Inr (ps, r) \<Longrightarrow> length ps = n \<and> list_all param_ok ps"
proof (induction n arbitrary: bs ps)
  case (Suc n)
  then obtain len bs' where g: "get_i32 bs = Inr (len, bs')"
    by (auto simp: and_then_eq_Inr split: if_splits)
  have r: "- 2147483648 \<le> len" "len < 2147483648"
    using get_i32_range [OF g] by auto
  have u: "0 \<le> len \<Longrightarrow> as_usize len = nat len"
    using r by simp
  have ok: "0 \<le> len \<Longrightarrow> nat len \<le> length bs' \<Longrightarrow> param_ok \<lparr>param_len = len, param_data = take (nat len) bs'\<rparr>"
      "len < 0 \<Longrightarrow> param_ok \<lparr>param_len = len, param_data = []\<rparr>"
    using r by (auto simp: param_ok_def)
  show ?case
    using Suc.prems Suc.IH by (auto simp: g and_then_eq_Inr u ok split: if_splits)
qed simp

lemma read_results_ok: "read_results bs = Inr rs \<Longrightarrow> even (length rs) \<and> length rs div 2 < 32768"
  using get_i16_range [of bs]
  by (auto simp: read_results_def and_then_eq_Inr min_def split: if_splits)

lemma bind_from_bytes_shape:
  assumes "bind_from_bytes bs = Inr b"
  shows "bind_shape b" "bind_original b = Some bs"
  using assms
  by (auto simp: bind_from_bytes_def bind_shape_def and_then_eq_Inr Let_def from_utf8_def
      simp flip: drop_drop intro!: cstr_ok_take split: if_splits
      dest!: get_u16_less read_codes_length read_params_ok read_results_ok)

lemma bind_rename_ok:
  assumes "bind_shape b" "cstr_ok (name @ [NUL])" "fits (bind_body (bind_rename b name))"
  shows "bind_ok (bind_rename b name)"
  using assms by (simp add: bind_ok_def bind_shape_def bind_rename_def)

text \<open>C10: a \<^verbatim>\<open>Bind\<close> read from the wire and redirected to another prepared statement is encoded to bytes that
  read back as the same portal, the same format codes, the same parameters and the same result
  formats, for the new statement.\<close>

theorem bind_rename_roundtrip:
  assumes "bind_from_bytes bs = Inr b"
    and "cstr_ok (name @ [NUL])"
    and "fits (bind_body (bind_rename b name))"
  shows "bind_from_bytes (bind_to_bytes (bind_rename b name))
         = Inr (b\<lparr>bind_statement_bytes := name @ [NUL],
                  bind_original := Some (bind_to_bytes (bind_rename b name))\<rparr>)"
proof -
  have "bind_ok (bind_rename b name)"
    using bind_from_bytes_shape(1) [OF assms(1)] assms(2,3) by (rule bind_rename_ok)
  then show ?thesis
    by (simp add: bind_wire.decode_encode bind_decoded_def) (simp add: bind_rename_def)
qed

theorem bind_rename_roundtrip_witness:
  "bind_from_bytes (bind_to_bytes (bind_rename
     (bind_decoded (bind_new_params_codes ''a'' [new_parameter ''12'', new_null] [Text, Binary])) ''__pgdog_1''))
   = Inr (bind_decoded (bind_new_params_codes ''__pgdog_1'' [new_parameter ''12'', new_null] [Text, Binary]))"
proof -
  let ?b = "bind_new_params_codes ''a'' [new_parameter ''12'', new_null] [Text, Binary]"
  have "bind_from_bytes (bind_to_bytes ?b) = Inr (bind_decoded ?b)"
    by (rule bind_wire.decode_encode)
      (simp add: bind_ok_def bind_shape_def bind_new_params_codes_def bind_default_def cstr_ok_def param_ok_def
        new_parameter_def new_null_def to_signed_def bind_body_def put_format_def put_param_def)
  from bind_rename_roundtrip [OF this, of "''__pgdog_1''"] show ?thesis
    by (simp add: bind_decoded_def bind_rename_def bind_new_params_codes_def bind_default_def bind_to_bytes_def
        cstr_ok_def bind_body_def put_format_def put_param_def new_parameter_def new_null_def)
qed

section \<open>The other codecs\<close>

interpretation rfq_wire: wire_codec rfq_to_bytes rfq_from_bytes "\<lambda>_. True" "\<lambda>r. r"
  by unfold_locales (simp_all add: rfq_to_bytes_def rfq_from_bytes_def payload_named_fits)

definition bkd_ok :: "backend_key_data \<Rightarrow> bool" where
  "bkd_ok k \<longleftrightarrow>
     - 2147483648 \<le> pid k \<and> pid k < 2147483648 \<and> secret k \<noteq> [] \<and> length (secret k) \<le> max_secret_len"

interpretation bkd_wire: wire_codec bkd_to_bytes bkd_from_bytes bkd_ok "\<lambda>k. k"
proof
  fix k :: backend_key_data
  assume "bkd_ok k"
  then have "- 2147483648 \<le> pid k" "pid k < 2147483648" "secret k \<noteq> []" "length (secret k) \<le> 256"
    by (simp_all add: bkd_ok_def max_secret_len_def)
  then show "bkd_from_bytes (bkd_to_bytes k) = Inr k"
    by (simp add: bkd_to_bytes_def bkd_from_bytes_def payload_named_fits Let_def secret_from_slice_def
        max_secret_len_def nat_add_distrib)
qed simp

definition describe_ok :: "describe \<Rightarrow> bool" where
  "describe_ok d \<longleftrightarrow>
     (\<exists>k s. desc_payload d = payload_named CHR ''D'' (k # put_string s) \<and> utf8_valid s) \<and> desc_original d = None"

interpretation describe_wire: wire_codec desc_to_bytes desc_from_bytes describe_ok
    "\<lambda>d. d\<lparr>desc_original := Some (desc_to_bytes d)\<rparr>"
proof
  fix d :: describe
  assume "describe_ok d"
  then obtain k s where d: "d = \<lparr>desc_payload = payload_named CHR ''D'' (k # put_string s), desc_original = None\<rparr>"
      and s: "utf8_valid s"
    by (cases d) (auto simp: describe_ok_def)
  have "drop 6 (payload_named CHR ''D'' (k # put_string s)) = put_string s"
    by (simp add: payload_named_def drop_Cons')
  then show "desc_from_bytes (desc_to_bytes d) = Inr (d\<lparr>desc_original := Some (desc_to_bytes d)\<rparr>)"
    using s by (simp add: d desc_to_bytes_def desc_from_bytes_def from_utf8_def put_string_def)
qed (simp add: desc_to_bytes_def)

section \<open>Names and kinds of Describe and Close\<close>

lemma nth_5_payload [simp]: "payload_named c (k # body) ! 5 = k"
  by (rule nth_payload_named)

lemma drop_6_payload [simp]: "drop 6 (payload_named c (k # body)) = body"
  by (simp add: payload_named_def drop_Cons')

lemma butlast_put_string [simp]: "butlast (put_string s) = s"
  by (simp add: put_string_def)

lemma desc_rename_fields [simp]:
  "desc_kind (desc_rename d name) = desc_kind d" "desc_statement (desc_rename d name) = name"
  by (simp_all add: desc_kind_def desc_statement_def desc_rename_def)

lemma desc_new_fields [simp]:
  "desc_kind (desc_new_statement s) = CHR ''S''" "desc_statement (desc_new_statement s) = s"
  "desc_kind (desc_new_portal s) = CHR ''P''" "desc_statement (desc_new_portal s) = s"
  by (simp_all add: desc_kind_def desc_statement_def desc_new_statement_def desc_new_portal_def)

lemma close_fields [simp]:
  "close_kind (close_named s) = CHR ''S''" "close_name (close_named s) = s"
  "close_kind (close_portal s) = CHR ''P''" "close_name (close_portal s) = s"
  by (simp_all add: close_kind_def close_name_def close_named_def close_portal_def)

text \<open>The indexes 5 and 6 are inside every payload the constructors and decoders give.\<close>

lemma describe_wf:
  "7 \<le> length (desc_payload (desc_new_statement s))" "7 \<le> length (desc_payload (desc_new_portal s))"
  "7 \<le> length (desc_payload (desc_rename d s))"
  "desc_from_bytes bs = Inr d \<Longrightarrow> 7 \<le> length (desc_payload d)"
  by (auto simp: desc_new_statement_def desc_new_portal_def desc_rename_def put_string_def
      desc_from_bytes_def and_then_eq_Inr split: if_splits)

lemma close_wf:
  "7 \<le> length (close_payload (close_named s))" "7 \<le> length (close_payload (close_portal s))"
  "close_from_bytes bs = Inr c \<Longrightarrow> 7 \<le> length (close_payload c)"
  by (auto simp: close_named_def close_portal_def put_string_def close_from_bytes_def and_then_eq_Inr
      split: if_splits)

section \<open>Appending a parameter\<close>

text \<open>What the protocol allows: no format code (all text), one code for every parameter, or one code each.\<close>

definition codes_ok :: "bind \<Rightarrow> bool" where
  "codes_ok b \<longleftrightarrow> length (bind_codes b) \<in> {0, 1, length (bind_params b)}"

text \<open>Appending a parameter to a \<^verbatim>\<open>Bind\<close> gives the new parameter the format it was pushed with, keeps the
  value and the format of every parameter that was there, and keeps the format codes in a form the
  protocol allows.\<close>

theorem push_param_formats:
  assumes "codes_ok b"
  shows "codes_ok (push_param b p f)
    \<and> bind_parameter (push_param b p f) (length (bind_params b)) = Some \<lparr>pwf_parameter = p, pwf_format = f\<rparr>
    \<and> (\<forall>i < length (bind_params b). bind_parameter (push_param b p f) i = bind_parameter b i)"
proof -
  consider "bind_codes b = []" | c where "bind_codes b = [c]"
    | "length (bind_codes b) = length (bind_params b)" "length (bind_codes b) > 1"
    using assms unfolding codes_ok_def
    by (cases "bind_codes b"; cases "tl (bind_codes b)") auto
  then show ?thesis
  proof cases
    case 1
    then show ?thesis
      by (cases f) (auto simp: codes_ok_def push_param_def push_codes_def Let_def bind_parameter_def
          parameter_format_def nth_append)
  next
    case (2 c)
    then show ?thesis
      by (auto simp: codes_ok_def push_param_def push_codes_def Let_def bind_parameter_def
          parameter_format_def nth_append nth_Cons')
  next
    case 3
    then show ?thesis
      by (auto simp: codes_ok_def push_param_def push_codes_def Let_def bind_parameter_def
          parameter_format_def nth_append)
  qed
qed

theorem push_param_formats_witness:
  "bind_parameter (push_param (bind_new_params_codes ''a'' [new_parameter ''1'', new_null] [Binary]) new_null Text) 0
   = bind_parameter (bind_new_params_codes ''a'' [new_parameter ''1'', new_null] [Binary]) 0"
proof -
  have "codes_ok (bind_new_params_codes ''a'' [new_parameter ''1'', new_null] [Binary])"
    by (simp add: codes_ok_def bind_new_params_codes_def bind_default_def)
  from push_param_formats [OF this, of new_null Text] show ?thesis
    by (simp add: bind_new_params_codes_def bind_default_def)
qed

end
