(* ===== verification/FrontendPrepared.thy ===== *)
theory FrontendPrepared
  imports GlobalCache Codec
begin

text \<open>
  \<^verbatim>\<open>pgdog/src/frontend/prepared_statements/mod.rs\<close> and \<^verbatim>\<open>rewrite.rs\<close>: the prepared statements of one client,
  a map from the client's names to names of the shared \<open>global_cache\<close>, and the rewriting of the
  client's messages. The shared cache behind its lock is passed explicitly.

  \<open>world\<close> is the cache with all clients. The refinement theorem says that the clients cannot tell it
  from a proxy that keeps a separate map of statements for each of them.
\<close>

section \<open>The statements of a client\<close>

datatype prepared_level = Disabled | Extended | ExtendedAnonymous | Full

fun rewrite_anonymous :: "prepared_level \<Rightarrow> bool" where
  "rewrite_anonymous ExtendedAnonymous = True"
| "rewrite_anonymous _ = False"

text \<open>\<^verbatim>\<open>size_of::<String>()\<close> is three machine words.\<close>

definition str_mem :: "string \<Rightarrow> nat" where
  "str_mem s = length s + 24"

record client_statements =
  fe_local :: "(string, string) hmap"
  fe_level :: prepared_level
  fe_memory_used :: nat

definition fe_default :: client_statements where
  "fe_default = \<lparr>fe_local = [], fe_level = Extended, fe_memory_used = 0\<rparr>"

definition fe_insert ::
    "'rd global_cache \<Rightarrow> client_statements \<Rightarrow> parse \<Rightarrow> parse \<times> 'rd global_cache \<times> client_statements" where
  "fe_insert g f p =
     (let ((new, name), g1) = gc_insert g p;
          key = parse_name p;
          existed = hm_get (fe_local f) key;
          local = hm_insert key name (fe_local f)
      in (parse_rename_fast p name,
          (case existed of Some old \<Rightarrow> gc_decrement g1 old | None \<Rightarrow> g1),
          f\<lparr>fe_local := local,
            fe_memory_used :=
              (case existed of
                 Some old \<Rightarrow> fe_memory_used f - str_mem old + str_mem name
               | None \<Rightarrow> fe_memory_used f + (str_mem key + str_mem name))\<rparr>))"

definition fe_insert_anyway ::
    "'rd global_cache \<Rightarrow> client_statements \<Rightarrow> parse \<Rightarrow> parse \<times> 'rd global_cache \<times> client_statements" where
  "fe_insert_anyway g f p =
     (let (name, g1) = gc_insert_anyway g p;
          key = parse_name p;
          existed = hm_get (fe_local f) key
      in (parse_rename_fast p name, g1,
          f\<lparr>fe_local := hm_insert key name (fe_local f),
            fe_memory_used :=
              (case existed of
                 Some old \<Rightarrow> fe_memory_used f - str_mem old + str_mem name
               | None \<Rightarrow> fe_memory_used f + (str_mem key + str_mem name))\<rparr>))"

definition fe_name :: "client_statements \<Rightarrow> string \<Rightarrow> string option" where
  "fe_name f name = hm_get (fe_local f) name"

definition fe_parse :: "'rd global_cache \<Rightarrow> client_statements \<Rightarrow> string \<Rightarrow> parse option" where
  "fe_parse g f name = Option.bind (hm_get (fe_local f) name) (gc_parse g)"

definition fe_len_local :: "client_statements \<Rightarrow> nat" where
  "fe_len_local f = length (fe_local f)"

definition fe_is_empty :: "client_statements \<Rightarrow> bool" where
  "fe_is_empty f \<longleftrightarrow> fe_len_local f = 0"

definition fe_close ::
    "'rd global_cache \<Rightarrow> client_statements \<Rightarrow> string \<Rightarrow> 'rd global_cache \<times> client_statements" where
  "fe_close g f name =
     (case hm_get (fe_local f) name of
        Some gname \<Rightarrow>
          (gc_close g gname,
           f\<lparr>fe_local := hm_remove name (fe_local f),
             fe_memory_used := fe_memory_used f - (str_mem name + str_mem gname)\<rparr>)
      | None \<Rightarrow> (g, f))"

text \<open>\<^verbatim>\<open>self.local.values()\<close> visits the values in the order of the hash map, \<open>vals\<close>.\<close>

definition fe_close_all ::
    "((string, string) hmap \<Rightarrow> string list) \<Rightarrow> 'rd global_cache \<Rightarrow> client_statements \<Rightarrow>
     'rd global_cache \<times> client_statements" where
  "fe_close_all vals g f =
     (if fe_local f \<noteq> [] then foldl gc_close g (vals (fe_local f)) else g,
      f\<lparr>fe_local := [], fe_memory_used := 0\<rparr>)"

definition fe_set_level :: "client_statements \<Rightarrow> prepared_level \<Rightarrow> client_statements" where
  "fe_set_level f level = f\<lparr>fe_level := level\<rparr>"

definition run_maintenance ::
    "(nat set \<Rightarrow> nat list) \<Rightarrow> nat \<Rightarrow> 'rd global_cache \<Rightarrow> 'rd global_cache" where
  "run_maintenance iter capacity g = snd (gc_close_unused iter g capacity)"

section \<open>Rewriting messages\<close>

definition rewrite_bind :: "client_statements \<Rightarrow> bind \<Rightarrow> bind" where
  "rewrite_bind f b =
     (case fe_name f (bind_statement b) of Some name \<Rightarrow> bind_rename b name | None \<Rightarrow> b)"

definition rewrite_describe :: "client_statements \<Rightarrow> describe \<Rightarrow> describe" where
  "rewrite_describe f d =
     (if desc_is_portal d then d
      else case fe_name f (desc_statement d) of Some name \<Rightarrow> desc_rename d name | None \<Rightarrow> d)"

definition maybe_rewrite ::
    "'rd global_cache \<Rightarrow> client_statements \<Rightarrow> protocol_message \<Rightarrow>
     protocol_message \<times> 'rd global_cache \<times> client_statements" where
  "maybe_rewrite g f m =
     (case m of
        PBind b \<Rightarrow> (PBind (rewrite_bind f b), g, f)
      | PDescribe d \<Rightarrow> (PDescribe (rewrite_describe f d), g, f)
      | PParse p \<Rightarrow> (case fe_insert g f p of (p', g', f') \<Rightarrow> (PParse p', g', f'))
      | PClose c \<Rightarrow> (case fe_close g f (close_name c) of (g', f') \<Rightarrow> (PClose c, g', f'))
      | _ \<Rightarrow> (m, g, f))"

section \<open>References of a client\<close>

definition refs :: "(string, string) hmap \<Rightarrow> string \<Rightarrow> nat" where
  "refs m x = length (filter (\<lambda>p. snd p = x) m)"

lemma refs_Nil [simp]: "refs [] = (\<lambda>_. 0)"
  by (simp add: refs_def fun_eq_iff)

lemma refs_Cons [simp]: "refs ((n, y) # m) = (refs m)(y := Suc (refs m y))"
  by (auto simp: refs_def fun_eq_iff)

lemma refs_remove:
  "hm_ok m \<Longrightarrow> hm_get m n = Some x \<Longrightarrow> refs m = (refs (hm_remove n m))(x := Suc (refs (hm_remove n m) x))"
proof (induction m)
  case (Cons p m)
  obtain n' x' where p: "p = (n', x')" by fastforce
  show ?case
  proof (cases "n' = n")
    case True
    with Cons.prems p have "hm_remove n m = m" "x' = x" by auto
    with True p show ?thesis by (simp add: hm_remove_def)
  next
    case False
    have "refs m = (refs (hm_remove n m))(x := Suc (refs (hm_remove n m) x))"
      using Cons.prems False p by (intro Cons.IH) auto
    then have "refs m a = (if a = x then Suc (refs (hm_remove n m) a) else refs (hm_remove n m) a)" for a
      by (metis fun_upd_apply)
    with False p show ?thesis by (auto simp: hm_remove_def)
  qed
qed simp

lemma refs_pos: "hm_ok m \<Longrightarrow> hm_get m n = Some x \<Longrightarrow> 0 < refs m x"
  using refs_remove [of m n x] by (metis fun_upd_same zero_less_Suc)

lemma refs_remove_eq:
  "hm_ok m \<Longrightarrow> hm_get m n = Some x \<Longrightarrow> refs (hm_remove n m) = (refs m)(x := refs m x - 1)"
  using refs_remove [of m n x] by (simp add: fun_eq_iff)

lemma refs_insert: "refs (hm_insert n y m) = (refs (hm_remove n m))(y := Suc (refs (hm_remove n m) y))"
  by (simp add: hm_insert_def)

section \<open>One step of one client\<close>

text \<open>What a client's statements mean: its name, to the query text and the parameter types.\<close>

definition fe_view :: "'rd global_cache \<Rightarrow> client_statements \<Rightarrow> string \<Rightarrow> (bytes \<times> bytes) option" where
  "fe_view g f n =
     map_option (\<lambda>p. (parse_query_bytes p, parse_data_types p)) (fe_parse g f n)"

abbreviation meaning :: "parse \<Rightarrow> bytes \<times> bytes" where
  "meaning p \<equiv> (parse_query_bytes p, parse_data_types p)"

text \<open>\<open>held g f o\<close>: the client's references and those of all other clients, \<open>o\<close>, are supported.\<close>

definition held :: "'rd global_cache \<Rightarrow> client_statements \<Rightarrow> (string \<Rightarrow> nat) \<Rightarrow> bool" where
  "held g f oth \<longleftrightarrow> hm_ok (fe_local f) \<and> supported g (\<lambda>x. refs (fe_local f) x + oth x)"

lemma held_lookup:
  assumes "held g f oth" "hm_get (fe_local f) n = Some x"
  shows "gc_parse g x \<noteq> None"
proof -
  have "0 < refs (fe_local f) x"
    using assms by (auto simp: held_def intro: refs_pos)
  with assms(1) show ?thesis
    by (auto simp: held_def dest!: supported_lookup [where x = x])
qed

lemma fe_view_keep:
  assumes "\<And>n x. hm_get (fe_local f) n = Some x \<Longrightarrow> gc_parse g' x = gc_parse g x"
  shows "fe_view g' f = fe_view g f"
proof
  fix n
  show "fe_view g' f n = fe_view g f n"
    using assms by (cases "hm_get (fe_local f) n") (auto simp: fe_view_def fe_parse_def)
qed

text \<open>Names that stay cached keep their meaning for every holder.\<close>

definition extends :: "'rd global_cache \<Rightarrow> 'rd global_cache \<Rightarrow> bool" where
  "extends g g' \<longleftrightarrow> (\<forall>x q. gc_parse g x = Some q \<longrightarrow> gc_parse g' x = Some q)"

lemma extends_view: "held g f oth \<Longrightarrow> extends g g' \<Longrightarrow> fe_view g' f = fe_view g f"
  using held_lookup by (intro fe_view_keep) (fastforce simp: extends_def)

lemma fe_insert_step:
  assumes "held g f oth" "terminated p" "fe_insert g f p = (p', g', f')"
  shows "held g' f' oth" "extends g g'" "fe_view g' f' = (fe_view g f)(parse_name p \<mapsto> meaning p)"
proof -
  let ?n = "parse_name p" and ?m = "fe_local f"
  obtain x g1 where acq: "gc_insert_name g p = (x, g1)" by fastforce
  have f': "fe_local f' = hm_insert ?n x ?m"
    and g': "g' = (case hm_get ?m ?n of Some old \<Rightarrow> gc_decrement g1 old | None \<Rightarrow> g1)"
    using assms(3) acq by (auto simp: fe_insert_def gc_insert_name_def Let_def split: prod.splits)
  have ok: "hm_ok ?m" and sup: "supported g (\<lambda>y. refs ?m y + oth y)"
    using assms(1) by (simp_all add: held_def)
  note sup1 = gci.acquire_supported [OF sup assms(2) acq]
  obtain q where q: "gc_parse g1 x = Some q" "same_statement q p"
    using gci.acquire_stored [OF sup assms(2) acq] by blast
  have ext1: "extends g g1"
    using gci.acquire_keeps [OF sup assms(2) acq] by (simp add: extends_def)
  have "supported g' (\<lambda>y. refs (fe_local f') y + oth y) \<and> gc_parse g' = gc_parse g1"
  proof (cases "hm_get ?m ?n")
    case None
    then have "(\<lambda>y. refs (fe_local f') y + oth y) = (\<lambda>y. refs ?m y + oth y)(x := Suc (refs ?m x + oth x))"
      by (auto simp: f' refs_insert fun_eq_iff)
    with sup1 None g' show ?thesis by simp
  next
    case (Some old)
    let ?r = "(\<lambda>y. refs ?m y + oth y)(x := Suc (refs ?m x + oth x))"
    have pos: "0 < refs ?m old"
      using ok Some by (rule refs_pos)
    then have "(\<lambda>y. refs (fe_local f') y + oth y) = ?r(old := ?r old - 1)"
      using refs_remove_eq [OF ok Some] by (auto simp: f' refs_insert fun_eq_iff)
    with supported_release(3,4) [OF sup1, of old] pos Some g' show ?thesis by auto
  qed
  then show "held g' f' oth" "extends g g'"
    using ok ext1 by (simp_all add: held_def f' extends_def)
  have "fe_view g' f' n = ((fe_view g f)(?n \<mapsto> meaning p)) n" for n
  proof (cases "n = ?n")
    case True
    with q \<open>_ \<and> gc_parse g' = gc_parse g1\<close> show ?thesis
      by (simp add: fe_view_def fe_parse_def f' same_statement_def)
  next
    case False
    have "fe_view g' f n = fe_view g f n"
      using extends_view [OF assms(1) \<open>extends g g'\<close>] by simp
    with False show ?thesis
      by (simp add: fe_view_def fe_parse_def f')
  qed
  then show "fe_view g' f' = (fe_view g f)(?n \<mapsto> meaning p)" by blast
qed

lemma supported_mono:
  assumes "supported g r" "\<And>x. r' x \<le> r x"
  shows "supported g r'"
  unfolding supported_def
proof (intro conjI allI impI)
  show "gc_inv g" using assms(1) by (rule supported_inv)
  fix x assume "0 < r' x"
  with assms(2) [of x] have "0 < r x" by simp
  with assms(1) obtain st e where "hm_get (gc_names g) x = Some st"
      "hm_get (gc_statements g) (st_cache_key st) = Some e" "r x \<le> cs_used e"
    by (auto elim: supportedE)
  with assms(2) [of x] show "\<exists>st e. hm_get (gc_names g) x = Some st
      \<and> hm_get (gc_statements g) (st_cache_key st) = Some e \<and> r' x \<le> cs_used e"
    by (intro exI [of _ st] exI [of _ e]) simp
qed

lemma fe_insert_anyway_step:
  assumes "held g f oth" "terminated p" "fe_insert_anyway g f p = (p', g', f')"
  shows "held g' f' oth" "extends g g'" "fe_view g' f' = (fe_view g f)(parse_name p \<mapsto> meaning p)"
proof -
  let ?n = "parse_name p" and ?m = "fe_local f"
  obtain x where acq: "gc_insert_anyway g p = (x, g')" and f': "fe_local f' = hm_insert ?n x ?m"
    using assms(3) by (auto simp: fe_insert_anyway_def Let_def split: prod.splits)
  have ok: "hm_ok ?m" and sup: "supported g (\<lambda>y. refs ?m y + oth y)"
    using assms(1) by (simp_all add: held_def)
  have le: "refs (hm_remove ?n ?m) y \<le> refs ?m y" for y
    by (cases "hm_get ?m ?n") (simp_all add: refs_remove_eq [OF ok])
  have "refs (fe_local f') y + oth y \<le> ((\<lambda>y. refs ?m y + oth y)(x := Suc (refs ?m x + oth x))) y" for y
    using le [of y] le [of x] by (simp add: f' refs_insert)
  then have "supported g' (\<lambda>y. refs (fe_local f') y + oth y)"
    by (rule supported_mono [OF gca.acquire_supported [OF sup assms(2) acq]])
  then show "held g' f' oth"
    using ok by (simp add: held_def f')
  show ext: "extends g g'"
    using gca.acquire_keeps [OF sup assms(2) acq] by (simp add: extends_def)
  obtain q where q: "gc_parse g' x = Some q" "same_statement q p"
    using gca.acquire_stored [OF sup assms(2) acq] by blast
  have "fe_view g' f' n = ((fe_view g f)(?n \<mapsto> meaning p)) n" for n
    using q fun_cong [OF extends_view [OF assms(1) ext], of n]
    by (auto simp: fe_view_def fe_parse_def f' same_statement_def)
  then show "fe_view g' f' = (fe_view g f)(?n \<mapsto> meaning p)" by blast
qed

lemma fe_close_step:
  assumes "held g f oth" "fe_close g f n = (g', f')"
  shows "held g' f' oth" "extends g g'" "fe_view g' f' = (fe_view g f)(n := None)"
proof -
  have "held g' f' oth \<and> gc_parse g' = gc_parse g \<and> fe_local f' = hm_remove n (fe_local f)"
  proof (cases "hm_get (fe_local f) n")
    case None
    with assms show ?thesis by (auto simp: fe_close_def)
  next
    case (Some x)
    have ok: "hm_ok (fe_local f)" and sup: "supported g (\<lambda>y. refs (fe_local f) y + oth y)"
      using assms(1) by (simp_all add: held_def)
    have pos: "0 < refs (fe_local f) x"
      using ok Some by (rule refs_pos)
    then have eq: "(\<lambda>y. refs (hm_remove n (fe_local f)) y + oth y)
        = (\<lambda>y. refs (fe_local f) y + oth y)(x := refs (fe_local f) x + oth x - 1)"
      using refs_remove_eq [OF ok Some] by (auto simp: fun_eq_iff)
    show ?thesis
      using assms(2) Some ok supported_release(1,2) [OF sup, of x] pos
      by (auto simp: fe_close_def held_def eq)
  qed
  then have "held g' f' oth" "gc_parse g' = gc_parse g" "fe_local f' = hm_remove n (fe_local f)"
    by auto
  then show "held g' f' oth" "extends g g'" "fe_view g' f' = (fe_view g f)(n := None)"
    by (simp_all add: extends_def fe_view_def [abs_def] fe_parse_def) auto
qed

text \<open>\<^verbatim>\<open>values()\<close> yields every value of the map, as often as it occurs.\<close>

definition enumerates :: "((string, string) hmap \<Rightarrow> string list) \<Rightarrow> bool" where
  "enumerates vals \<longleftrightarrow> (\<forall>m x. count_list (vals m) x = refs m x)"

lemma enumerates_values: "enumerates (map snd)"
proof -
  have "count_list (map snd m) x = refs m x" for m :: "(string, string) hmap" and x
    by (induction m) auto
  then show ?thesis by (simp add: enumerates_def)
qed

lemma supported_release_all:
  "supported g r \<Longrightarrow> (\<And>x. count_list xs x \<le> r x) \<Longrightarrow>
   supported (foldl gc_close g xs) (\<lambda>x. r x - count_list xs x) \<and> gc_parse (foldl gc_close g xs) = gc_parse g"
proof (induction xs arbitrary: g r)
  case (Cons y xs)
  have pos: "0 < r y"
    using Cons.prems(2) [of y] by simp
  note rel = supported_release(1,2) [OF Cons.prems(1) pos]
  have "count_list xs x \<le> (r(y := r y - 1)) x" for x
    using Cons.prems(2) [of x] by (auto split: if_splits)
  from Cons.IH [OF rel(1) this]
  have "supported (foldl gc_close g (y # xs)) (\<lambda>x. (r(y := r y - 1)) x - count_list xs x)
      \<and> gc_parse (foldl gc_close g (y # xs)) = gc_parse g"
    using rel(2) by simp
  moreover have "(\<lambda>x. (r(y := r y - 1)) x - count_list xs x) = (\<lambda>x. r x - count_list (y # xs) x)"
    by (auto simp: fun_eq_iff)
  ultimately show ?case by simp
qed simp

lemma fe_close_all_step:
  assumes "held g f oth" "enumerates vals" "fe_close_all vals g f = (g', f')"
  shows "held g' f' oth" "extends g g'" "fe_view g' f' = (\<lambda>_. None)"
proof -
  have f': "fe_local f' = []" and g': "g' = (if fe_local f \<noteq> [] then foldl gc_close g (vals (fe_local f)) else g)"
    using assms(3) by (auto simp: fe_close_all_def)
  have sup: "supported g (\<lambda>y. refs (fe_local f) y + oth y)"
    using assms(1) by (simp add: held_def)
  have "supported g' oth \<and> gc_parse g' = gc_parse g"
    using supported_release_all [OF sup, of "vals (fe_local f)"] assms(2) sup
    by (cases "fe_local f = []") (simp_all add: g' enumerates_def)
  then show "held g' f' oth" "extends g g'"
    by (simp_all add: held_def f' extends_def)
  show "fe_view g' f' = (\<lambda>_. None)"
    by (simp add: fe_view_def fe_parse_def f' fun_eq_iff)
qed

lemma supported_close_unused:
  assumes "supported g r" "iterates iter" "0 < capacity"
  defines "g' \<equiv> snd (gc_close_unused iter g capacity)"
  shows "supported g' r" "0 < r x \<Longrightarrow> gc_parse g' x = gc_parse g x"
proof -
  note eff = gc_close_unused_effect [OF supported_inv [OF assms(1)] assms(2,3), folded g'_def]
  have keep: "hm_get (gc_names g') y = hm_get (gc_names g) y
      \<and> (\<exists>st e. hm_get (gc_names g) y = Some st \<and> hm_get (gc_statements g') (st_cache_key st) = Some e \<and> r y \<le> cs_used e)"
    if pos: "0 < r y" for y
  proof -
    obtain st e where "hm_get (gc_names g) y = Some st" "hm_get (gc_statements g) (st_cache_key st) = Some e"
        "y = cs_name e" "r y \<le> cs_used e"
      using assms(1) pos by (rule supportedE)
    with pos eff(4) [of "st_cache_key st" e] show ?thesis by auto
  qed
  show "supported g' r"
    unfolding supported_def using eff(1) keep by fastforce
  show "0 < r x \<Longrightarrow> gc_parse g' x = gc_parse g x"
    using keep by (simp add: gc_parse_def)
qed

lemma supported_update_name:
  assumes "supported g r" "hm_get (gc_names g) n = Some st"
    and "st_parse st' = st_parse st" "st_cache_key st' = st_cache_key st" "st_evict_on_close st' = st_evict_on_close st"
  defines "g' \<equiv> g\<lparr>gc_names := hm_insert n st' (gc_names g)\<rparr>"
  shows "supported g' r \<and> gc_parse g' = gc_parse g"
proof -
  have "gc_inv g'"
    using gc_inv_update_name [OF supported_inv [OF assms(1)] assms(2-5)] by (simp add: g'_def)
  moreover have "\<exists>s e. hm_get (gc_names g') x = Some s \<and> hm_get (gc_statements g') (st_cache_key s) = Some e \<and> r x \<le> cs_used e"
    if pos: "0 < r x" for x
  proof -
    obtain s e where "hm_get (gc_names g) x = Some s" "hm_get (gc_statements g) (st_cache_key s) = Some e" "r x \<le> cs_used e"
      using assms(1) pos by (rule supportedE)
    with assms(2,4) show ?thesis by (auto simp: g'_def)
  qed
  moreover have "gc_parse g' = gc_parse g"
    using assms(2,3) by (auto simp: g'_def gc_parse_def fun_eq_iff)
  ultimately show ?thesis by (simp add: supported_def)
qed

lemma supported_store:
  assumes "supported g r"
  shows "supported (gc_rewrite g p) r \<and> gc_parse (gc_rewrite g p) = gc_parse g"
    and "supported (gc_insert_row_description g n rd) r \<and> gc_parse (gc_insert_row_description g n rd) = gc_parse g"
proof -
  show "supported (gc_rewrite g p) r \<and> gc_parse (gc_rewrite g p) = gc_parse g"
    using assms supported_update_name [OF assms, of "parse_name p"]
    by (cases "hm_get (gc_names g) (parse_name p)") (simp_all add: gc_rewrite_def)
  show "supported (gc_insert_row_description g n rd) r \<and> gc_parse (gc_insert_row_description g n rd) = gc_parse g"
    using assms supported_update_name [OF assms, of n]
    by (cases "hm_get (gc_names g) n") (simp_all add: gc_insert_row_description_def)
qed

section \<open>All clients\<close>

record 'rd world =
  w_global :: "'rd global_cache"
  w_clients :: "client_statements list"

datatype 'rd w_op =
    ClientMessage nat protocol_message
  | ClientPrepare nat parse
  | ClientCloseAll "(string, string) hmap \<Rightarrow> string list" nat
  | ClientConnect
  | Maintenance "nat set \<Rightarrow> nat list" nat
  | StoreRewrite parse
  | StoreRowDescription string 'rd

definition w_init :: "'rd world" where
  "w_init = \<lparr>w_global = gc_default, w_clients = []\<rparr>"

text \<open>Client \<open>i\<close> performs an operation on the shared cache and its own statements.\<close>

definition w_client ::
    "'rd world \<Rightarrow> nat \<Rightarrow> ('rd global_cache \<Rightarrow> client_statements \<Rightarrow> 'rd global_cache \<times> client_statements) \<Rightarrow> 'rd world" where
  "w_client w i act =
     (if i < length (w_clients w)
      then (case act (w_global w) (w_clients w ! i) of
              (g, f) \<Rightarrow> w\<lparr>w_global := g, w_clients := (w_clients w)[i := f]\<rparr>)
      else w)"

fun w_step :: "'rd world \<Rightarrow> 'rd w_op \<Rightarrow> 'rd world" where
  "w_step w (ClientMessage i m) = w_client w i (\<lambda>g f. snd (maybe_rewrite g f m))"
| "w_step w (ClientPrepare i p) = w_client w i (\<lambda>g f. snd (fe_insert_anyway g f p))"
| "w_step w (ClientCloseAll vals i) = w_client w i (fe_close_all vals)"
| "w_step w ClientConnect = w\<lparr>w_clients := w_clients w @ [fe_default]\<rparr>"
| "w_step w (Maintenance iter capacity) = w\<lparr>w_global := run_maintenance iter capacity (w_global w)\<rparr>"
| "w_step w (StoreRewrite p) = w\<lparr>w_global := gc_rewrite (w_global w) p\<rparr>"
| "w_step w (StoreRowDescription n rd) = w\<lparr>w_global := gc_insert_row_description (w_global w) n rd\<rparr>"

fun w_op_ok :: "'rd w_op \<Rightarrow> bool" where
  "w_op_ok (ClientMessage i (PParse p)) = terminated p"
| "w_op_ok (ClientPrepare i p) = terminated p"
| "w_op_ok (ClientCloseAll vals i) = enumerates vals"
| "w_op_ok (Maintenance iter capacity) = (iterates iter \<and> 0 < capacity)"
| "w_op_ok _ = True"

text \<open>The specification: each client has its own statements and nothing is shared.\<close>

type_synonym own_statements = "string \<Rightarrow> (bytes \<times> bytes) option"

definition spec_client :: "own_statements list \<Rightarrow> nat \<Rightarrow> (own_statements \<Rightarrow> own_statements) \<Rightarrow> own_statements list" where
  "spec_client vs i act = (if i < length vs then vs[i := act (vs ! i)] else vs)"

fun spec_step :: "own_statements list \<Rightarrow> 'rd w_op \<Rightarrow> own_statements list" where
  "spec_step vs (ClientMessage i (PParse p)) = spec_client vs i (\<lambda>v. v(parse_name p \<mapsto> meaning p))"
| "spec_step vs (ClientMessage i (PClose c)) = spec_client vs i (\<lambda>v. v(close_name c := None))"
| "spec_step vs (ClientPrepare i p) = spec_client vs i (\<lambda>v. v(parse_name p \<mapsto> meaning p))"
| "spec_step vs (ClientCloseAll vals i) = spec_client vs i (\<lambda>v. (\<lambda>_. None))"
| "spec_step vs ClientConnect = vs @ [\<lambda>_. None]"
| "spec_step vs _ = vs"

definition w_view :: "'rd world \<Rightarrow> own_statements list" where
  "w_view w = map (fe_view (w_global w)) (w_clients w)"

definition w_refs :: "client_statements list \<Rightarrow> string \<Rightarrow> nat" where
  "w_refs fs x = (\<Sum>f\<leftarrow>fs. refs (fe_local f) x)"

definition w_inv :: "'rd world \<Rightarrow> bool" where
  "w_inv w \<longleftrightarrow> (\<forall>f\<in>set (w_clients w). hm_ok (fe_local f)) \<and> supported (w_global w) (w_refs (w_clients w))"

lemma w_refs_split:
  assumes "i < length fs"
  shows "w_refs (fs[i := f]) = (\<lambda>x. refs (fe_local f) x + w_refs (take i fs @ drop (Suc i) fs) x)"
  using assms by (simp add: w_refs_def upd_conv_take_nth_drop fun_eq_iff)

lemma w_refs_at:
  assumes "i < length fs"
  shows "w_refs fs = (\<lambda>x. refs (fe_local (fs ! i)) x + w_refs (take i fs @ drop (Suc i) fs) x)"
  using w_refs_split [OF assms, of "fs ! i"] by simp

lemma w_inv_held:
  assumes "w_inv w" "i < length (w_clients w)"
  shows "held (w_global w) (w_clients w ! i) (w_refs (take i (w_clients w) @ drop (Suc i) (w_clients w)))"
  using assms w_refs_at [OF assms(2)] by (simp add: w_inv_def held_def)

lemma w_client_step:
  assumes "w_inv w" "i < length (w_clients w)"
    and step: "\<And>oth. held (w_global w) (w_clients w ! i) oth \<Longrightarrow> held g' f' oth" and "extends (w_global w) g'"
  defines "w' \<equiv> w\<lparr>w_global := g', w_clients := (w_clients w)[i := f']\<rparr>"
  shows "w_inv w'" "w_view w' = (w_view w)[i := fe_view g' f']"
proof -
  let ?fs = "w_clients w"
  have "held g' f' (w_refs (take i ?fs @ drop (Suc i) ?fs))"
    by (rule step [OF w_inv_held [OF assms(1,2)]])
  then have "hm_ok (fe_local f')" "supported g' (w_refs (?fs[i := f']))"
    by (simp_all add: held_def w_refs_split [OF assms(2)])
  then show "w_inv w'"
    using assms(1) set_update_subset_insert [of ?fs i f'] by (auto simp: w_inv_def w'_def)
  have "fe_view g' (?fs ! j) = fe_view (w_global w) (?fs ! j)" if "j < length ?fs" for j
    using w_inv_held [OF assms(1) that] assms(4) by (rule extends_view)
  then have "map (fe_view g') ?fs = map (fe_view (w_global w)) ?fs"
    by (simp add: list_eq_iff_nth_eq)
  then show "w_view w' = (w_view w)[i := fe_view g' f']"
    by (simp add: w_view_def w'_def map_update del: map_eq_conv)
qed

lemma w_client_refines:
  assumes "w_inv w"
    and "\<And>oth g' f'. i < length (w_clients w) \<Longrightarrow> held (w_global w) (w_clients w ! i) oth \<Longrightarrow>
      act (w_global w) (w_clients w ! i) = (g', f') \<Longrightarrow>
      held g' f' oth \<and> extends (w_global w) g' \<and> fe_view g' f' = spec (fe_view (w_global w) (w_clients w ! i))"
  shows "w_inv (w_client w i act) \<and> w_view (w_client w i act) = spec_client (w_view w) i spec"
proof (cases "i < length (w_clients w)")
  case True
  obtain g' f' where act: "act (w_global w) (w_clients w ! i) = (g', f')" by fastforce
  have ext: "extends (w_global w) g'" and view: "fe_view g' f' = spec (fe_view (w_global w) (w_clients w ! i))"
    using assms(2) [OF True w_inv_held [OF assms(1) True] act] by auto
  from w_client_step [OF assms(1) True _ ext, of f'] assms(2) [OF True _ act] True act view
  show ?thesis by (simp add: w_client_def spec_client_def w_view_def)
next
  case False
  with assms(1) show ?thesis by (simp add: w_client_def spec_client_def w_view_def)
qed

lemma extends_refl [simp]: "extends g g"
  by (simp add: extends_def)

lemma spec_client_id: "spec_client vs i (\<lambda>v. v) = vs"
  by (simp add: spec_client_def)

text \<open>The three effects of a step as one fact, in the form \<open>w_client_refines\<close> asks for.\<close>

lemma snd_eqD: "snd r = (g, f) \<Longrightarrow> r = (fst r, g, f)"
  by (cases r) auto

lemma fe_step_effects:
  "held g f oth \<Longrightarrow> terminated p \<Longrightarrow> snd (fe_insert g f p) = (g', f') \<Longrightarrow>
   held g' f' oth \<and> extends g g' \<and> fe_view g' f' = (fe_view g f)(parse_name p \<mapsto> meaning p)"
  "held g f oth \<Longrightarrow> terminated p \<Longrightarrow> snd (fe_insert_anyway g f p) = (g', f') \<Longrightarrow>
   held g' f' oth \<and> extends g g' \<and> fe_view g' f' = (fe_view g f)(parse_name p \<mapsto> meaning p)"
  "held g f oth \<Longrightarrow> fe_close g f n = (g', f') \<Longrightarrow>
   held g' f' oth \<and> extends g g' \<and> fe_view g' f' = (fe_view g f)(n := None)"
  "held g f oth \<Longrightarrow> enumerates vals \<Longrightarrow> fe_close_all vals g f = (g', f') \<Longrightarrow>
   held g' f' oth \<and> extends g g' \<and> fe_view g' f' = (\<lambda>_. None)"
  using fe_insert_step [of g f oth p "fst (fe_insert g f p)" g' f']
    fe_insert_anyway_step [of g f oth p "fst (fe_insert_anyway g f p)" g' f']
    fe_close_step [of g f oth n g' f'] fe_close_all_step [of g f oth vals g' f']
  by (blast dest: snd_eqD)+

lemma w_message_refines:
  fixes w :: "'rd world"
  assumes "w_inv w" "w_op_ok (ClientMessage i m :: 'rd w_op)"
  shows "w_inv (w_step w (ClientMessage i m)) \<and>
    w_view (w_step w (ClientMessage i m)) = spec_step (w_view w) (ClientMessage i m :: 'rd w_op)"
proof -
  have same: ?thesis if "\<And>(g :: 'rd global_cache) f. snd (maybe_rewrite g f m) = (g, f)"
      "spec_step (w_view w) (ClientMessage i m :: 'rd w_op) = w_view w"
  proof -
    have "w_step w (ClientMessage i m) = w"
      using that(1) by (cases w) (simp add: w_client_def)
    with assms(1) that(2) show ?thesis by simp
  qed
  show ?thesis
  proof (cases m)
    case (PParse p)
    have step: "snd (maybe_rewrite g f m) = snd (fe_insert g f p)" for g :: "'rd global_cache" and f
      by (simp add: maybe_rewrite_def PParse split: prod.splits)
    have "terminated p" using assms(2) PParse by simp
    then have "w_inv (w_client w i (\<lambda>g f. snd (maybe_rewrite g f m)))
        \<and> w_view (w_client w i (\<lambda>g f. snd (maybe_rewrite g f m)))
          = spec_client (w_view w) i (\<lambda>v. v(parse_name p \<mapsto> meaning p))"
      by (intro w_client_refines [OF assms(1)]) (unfold step, rule fe_step_effects(1))
    then show ?thesis by (simp add: PParse)
  next
    case (PClose c)
    have step: "snd (maybe_rewrite g f m) = fe_close g f (close_name c)" for g :: "'rd global_cache" and f
      by (simp add: maybe_rewrite_def PClose split: prod.splits)
    have "w_inv (w_client w i (\<lambda>g f. snd (maybe_rewrite g f m)))
        \<and> w_view (w_client w i (\<lambda>g f. snd (maybe_rewrite g f m)))
          = spec_client (w_view w) i (\<lambda>v. v(close_name c := None))"
      by (intro w_client_refines [OF assms(1)]) (unfold step, rule fe_step_effects(3))
    then show ?thesis by (simp add: PClose)
  qed (rule same; simp add: maybe_rewrite_def)+
qed

lemma w_maintenance_refines:
  assumes "w_inv w" "iterates iter" "0 < capacity"
  defines "w' \<equiv> w\<lparr>w_global := run_maintenance iter capacity (w_global w)\<rparr>"
  shows "w_inv w' \<and> w_view w' = w_view w"
proof -
  have sup: "supported (w_global w) (w_refs (w_clients w))"
    using assms(1) by (simp add: w_inv_def)
  note close = supported_close_unused [OF sup assms(2,3)]
  have "fe_view (w_global w') (w_clients w ! i) = fe_view (w_global w) (w_clients w ! i)"
    if i: "i < length (w_clients w)" for i
  proof (rule fe_view_keep)
    fix n x assume "hm_get (fe_local (w_clients w ! i)) n = Some x"
    then have "0 < refs (fe_local (w_clients w ! i)) x"
      using assms(1) i by (auto simp: w_inv_def intro: refs_pos)
    then have "0 < w_refs (w_clients w) x"
      by (simp add: w_refs_at [OF i])
    then show "gc_parse (w_global w') x = gc_parse (w_global w) x"
      using close(2) by (simp add: w'_def run_maintenance_def)
  qed
  then have "w_view w' = w_view w"
    by (simp add: w_view_def w'_def list_eq_iff_nth_eq)
  with close(1) assms(1) show ?thesis
    by (simp add: w_inv_def w'_def run_maintenance_def)
qed

lemma fe_view_parse_eq: "gc_parse g' = gc_parse g \<Longrightarrow> fe_view g' = fe_view g"
  by (simp add: fe_view_def [abs_def] fe_parse_def [abs_def])

lemma w_step_refines:
  assumes "w_inv w" "w_op_ok op"
  shows "w_inv (w_step w op) \<and> w_view (w_step w op) = spec_step (w_view w) op"
proof (cases op)
  case (ClientMessage i m)
  with assms w_message_refines show ?thesis by blast
next
  case (ClientPrepare i p)
  have "terminated p" using assms(2) ClientPrepare by simp
  then show ?thesis
    unfolding ClientPrepare w_step.simps spec_step.simps
    by (intro w_client_refines [OF assms(1)]) (rule fe_step_effects(2))
next
  case (ClientCloseAll vals i)
  have "enumerates vals" using assms(2) ClientCloseAll by simp
  then show ?thesis
    unfolding ClientCloseAll w_step.simps spec_step.simps
    by (intro w_client_refines [OF assms(1)]) (rule fe_step_effects(4))
next
  case ClientConnect
  have "w_refs (w_clients w @ [fe_default]) = w_refs (w_clients w)"
    by (simp add: w_refs_def fe_default_def fun_eq_iff)
  then show ?thesis
    using assms(1) ClientConnect
    by (auto simp: w_inv_def w_view_def fe_default_def fe_view_def fe_parse_def)
next
  case (Maintenance iter capacity)
  with assms w_maintenance_refines [OF assms(1)] show ?thesis by simp
next
  case (StoreRewrite p)
  moreover have "supported (w_global w) (w_refs (w_clients w))"
    using assms(1) by (simp add: w_inv_def)
  note store = supported_store(1) [OF this, of p]
  ultimately show ?thesis
    using assms(1) store fe_view_parse_eq [OF conjunct2 [OF store]] by (simp add: w_inv_def w_view_def)
next
  case (StoreRowDescription n rd)
  moreover have "supported (w_global w) (w_refs (w_clients w))"
    using assms(1) by (simp add: w_inv_def)
  note store = supported_store(2) [OF this, of n rd]
  ultimately show ?thesis
    using assms(1) store fe_view_parse_eq [OF conjunct2 [OF store]] by (simp add: w_inv_def w_view_def)
qed

interpretation wref: refinement w_step w_op_ok w_inv w_view spec_step
  by unfold_locales (auto simp: w_step_refines)

lemma w_inv_init: "w_inv w_init"
  by (simp add: w_inv_def w_init_def w_refs_def [abs_def] supported_default)





text \<open>Closing a portal also closes the prepared statement that has the portal's name: the handler of
  \<^verbatim>\<open>Close\<close> does not look at the kind of the message.\<close>

theorem portal_close_drops_statement:
  "let p = parse_named ''s'' ''SELECT 1'';
       (_, g, f) = maybe_rewrite (gc_default :: unit global_cache) fe_default (PParse p);
       (_, g', f') = maybe_rewrite g f (PClose (close_portal ''s''))
   in close_kind (close_portal ''s'') = CHR ''P'' \<and> fe_name f ''s'' = Some (global_name 1)
      \<and> fe_name f' ''s'' = None \<and> gc_unused g' = {1}"
  by (simp add: maybe_rewrite_def fe_insert_def fe_close_def fe_default_def fe_name_def gc_insert_def gc_default_def
      gc_close_def Let_def hm_insert_def hm_remove_def parse_name_def parse_named_def)

text \<open>Preparing a statement a second time under the same name with \<^verbatim>\<open>insert_anyway\<close> leaves the first one
  counted as used although no client refers to it any more, so maintenance can never evict it.
  (\<^verbatim>\<open>insert\<close> gives the old reference back.)\<close>

theorem insert_anyway_leaks:
  "let p = parse_named ''s'' ''SELECT 1'';
       (_, g1, f1) = fe_insert_anyway (gc_default :: unit global_cache) fe_default p;
       (_, g2, f2) = fe_insert_anyway g1 f1 p;
       (g3, f3) = fe_close g2 f2 ''s''
   in fe_is_empty f3 \<and> gc_unused g3 = {2} \<and> gc_len g3 = 2
      \<and> gc_len (run_maintenance sorted_list_of_set 1 g3) = 1
      \<and> gc_query (run_maintenance sorted_list_of_set 1 g3) (global_name 1) = Some ''SELECT 1''"
  by (simp add: fe_insert_anyway_def fe_close_def fe_default_def fe_is_empty_def fe_len_local_def gc_insert_anyway_def
      gc_default_def gc_close_def Let_def hm_insert_def hm_remove_def parse_name_def parse_named_def gc_len_def
      run_maintenance_def gc_close_unused_def gc_evict_def gc_remove_def gc_query_def parse_rename_def parse_key_def
      parse_query_def)

end
