(* ===== verification/RowDescription.thy ===== *)
theory RowDescription
  imports Codec
begin

text \<open>
  \<^verbatim>\<open>pgdog/src/net/messages/row_description.rs\<close>: the column descriptions a server sends before rows, their
  codec, and the operations the proxy uses to compare them between shards and to remove the columns it
  added to a query itself.
\<close>

record field =
  field_name :: string
  field_table_oid :: int
  field_column :: int
  field_type_oid :: int
  field_type_size :: int
  field_type_modifier :: int
  field_format_code :: int

text \<open>The constructors of a field differ in the type, its size and the format of the column.\<close>

datatype field_kind =
  NumericField | NumericBinaryField | TextField | BoolField | BigintField
| TimestampField | FloatField | FloatBinaryField | DoubleField | DoubleBinaryField

fun field_new :: "field_kind \<Rightarrow> string \<Rightarrow> field" where
  "field_new NumericField name = \<lparr>field_name = name, field_table_oid = 0, field_column = 0, field_type_oid = 1700,
     field_type_size = - 1, field_type_modifier = - 1, field_format_code = 0\<rparr>"
| "field_new NumericBinaryField name = \<lparr>field_name = name, field_table_oid = 0, field_column = 0, field_type_oid = 1700,
     field_type_size = - 1, field_type_modifier = - 1, field_format_code = 1\<rparr>"
| "field_new TextField name = \<lparr>field_name = name, field_table_oid = 0, field_column = 0, field_type_oid = 25,
     field_type_size = - 1, field_type_modifier = - 1, field_format_code = 0\<rparr>"
| "field_new BoolField name = \<lparr>field_name = name, field_table_oid = 0, field_column = 0, field_type_oid = 16,
     field_type_size = 1, field_type_modifier = - 1, field_format_code = 0\<rparr>"
| "field_new BigintField name = \<lparr>field_name = name, field_table_oid = 0, field_column = 0, field_type_oid = 20,
     field_type_size = 8, field_type_modifier = - 1, field_format_code = 0\<rparr>"
| "field_new TimestampField name = \<lparr>field_name = name, field_table_oid = 0, field_column = 0, field_type_oid = 1114,
     field_type_size = 8, field_type_modifier = - 1, field_format_code = 0\<rparr>"
| "field_new FloatField name = \<lparr>field_name = name, field_table_oid = 0, field_column = 0, field_type_oid = 700,
     field_type_size = 4, field_type_modifier = - 1, field_format_code = 0\<rparr>"
| "field_new FloatBinaryField name = \<lparr>field_name = name, field_table_oid = 0, field_column = 0, field_type_oid = 700,
     field_type_size = 4, field_type_modifier = - 1, field_format_code = 1\<rparr>"
| "field_new DoubleField name = \<lparr>field_name = name, field_table_oid = 0, field_column = 0, field_type_oid = 701,
     field_type_size = 8, field_type_modifier = - 1, field_format_code = 0\<rparr>"
| "field_new DoubleBinaryField name = \<lparr>field_name = name, field_table_oid = 0, field_column = 0, field_type_oid = 701,
     field_type_size = 8, field_type_modifier = - 1, field_format_code = 1\<rparr>"

abbreviation field_text :: "string \<Rightarrow> field" where
  "field_text \<equiv> field_new TextField"

abbreviation field_bigint :: "string \<Rightarrow> field" where
  "field_bigint \<equiv> field_new BigintField"

definition field_format :: "field \<Rightarrow> format" where
  "field_format f = (if field_format_code f = 0 then Text else Binary)"

record row_description =
  rd_fields :: "field list"

definition rd_field :: "row_description \<Rightarrow> nat \<Rightarrow> field option" where
  "rd_field rd i = (if i < length (rd_fields rd) then Some (rd_fields rd ! i) else None)"

definition rd_field_index :: "row_description \<Rightarrow> string \<Rightarrow> nat option" where
  "rd_field_index rd name = position (\<lambda>f. field_name f = name) (rd_fields rd)"

text \<open>The indexes are sorted and deduplicated, and each column is looked up among them.\<close>

definition rd_drop_columns :: "row_description \<Rightarrow> nat list \<Rightarrow> row_description" where
  "rd_drop_columns rd dropped =
     (if dropped = [] then rd
      else let indices = remdups_adj (sort dropped) in
        \<lparr>rd_fields = map snd (filter (\<lambda>(idx, f). idx \<notin> set indices) (enumerate 0 (rd_fields rd)))\<rparr>)"

fun fields_equivalent :: "field list \<Rightarrow> field list \<Rightarrow> bool" where
  "fields_equivalent (a # as) (b # bs) =
     (if field_name a \<noteq> field_name b then False
      else if field_type_oid a \<noteq> field_type_oid b then False
      else fields_equivalent as bs)"
| "fields_equivalent _ _ = True"

definition rd_equivalent :: "row_description \<Rightarrow> row_description \<Rightarrow> bool" where
  "rd_equivalent a b =
     (if length (rd_fields a) \<noteq> length (rd_fields b) then False
      else fields_equivalent (rd_fields a) (rd_fields b))"

definition read_field :: "bytes \<Rightarrow> net_error + field \<times> bytes" where
  "read_field bs =
     (case c_string_buf bs of (name, bs) \<Rightarrow>
     and_then (get_i32 bs) (\<lambda>(table_oid, bs).
     and_then (get_i16 bs) (\<lambda>(column, bs).
     and_then (get_i32 bs) (\<lambda>(type_oid, bs).
     and_then (get_i16 bs) (\<lambda>(type_size, bs).
     and_then (get_i32 bs) (\<lambda>(type_modifier, bs).
     and_then (get_i16 bs) (\<lambda>(fmt, bs).
       Inr (\<lparr>field_name = name, field_table_oid = table_oid, field_column = column, field_type_oid = type_oid,
             field_type_size = type_size, field_type_modifier = type_modifier, field_format_code = fmt\<rparr>, bs))))))))"

fun read_fields :: "nat \<Rightarrow> bytes \<Rightarrow> net_error + field list \<times> bytes" where
  "read_fields 0 bs = Inr ([], bs)"
| "read_fields (Suc n) bs =
     and_then (read_field bs) (\<lambda>(f, bs).
     and_then (read_fields n bs) (\<lambda>(fs, bs). Inr (f # fs, bs)))"

text \<open>A negative count is an empty range.\<close>

definition rd_from_bytes :: "bytes \<Rightarrow> net_error + row_description" where
  "rd_from_bytes bs =
     and_then (expect_code CHR ''T'' bs) (\<lambda>bs.
     and_then (get_i32 bs) (\<lambda>(_, bs).
     and_then (get_i16 bs) (\<lambda>(n, bs).
     and_then (read_fields (nat n) bs) (\<lambda>(fs, _). Inr \<lparr>rd_fields = fs\<rparr>))))"

definition put_field :: "field \<Rightarrow> bytes" where
  "put_field f =
     put_string (field_name f) @ put_i32 (field_table_oid f) @ put_i16 (field_column f)
     @ put_i32 (field_type_oid f) @ put_i16 (field_type_size f) @ put_i32 (field_type_modifier f)
     @ put_i16 (field_format_code f)"

text \<open>\<^verbatim>\<open>as i16\<close> keeps the low sixteen bits.\<close>

definition rd_to_bytes :: "row_description \<Rightarrow> bytes" where
  "rd_to_bytes rd =
     payload_named CHR ''T''
       (put_i16 (to_signed 16 (length (rd_fields rd) mod 65536)) @ concat (map put_field (rd_fields rd)))"

section \<open>Properties\<close>

definition field_ok :: "field \<Rightarrow> bool" where
  "field_ok f \<longleftrightarrow>
     NUL \<notin> set (field_name f)
     \<and> (\<forall>i\<in>{field_table_oid f, field_type_oid f, field_type_modifier f}. - 2147483648 \<le> i \<and> i < 2147483648)
     \<and> (\<forall>i\<in>{field_column f, field_type_size f, field_format_code f}. - 32768 \<le> i \<and> i < 32768)"

definition rd_ok :: "row_description \<Rightarrow> bool" where
  "rd_ok rd \<longleftrightarrow> list_all field_ok (rd_fields rd) \<and> length (rd_fields rd) < 32768
     \<and> length (concat (map put_field (rd_fields rd))) + 6 < 2147483648"

lemma read_put_field: "field_ok f \<Longrightarrow> read_field (put_field f @ r) = Inr (f, r)"
  by (cases f) (simp add: field_ok_def put_field_def read_field_def put_string_def c_string_buf_append)

lemma read_put_fields:
  "list_all field_ok fs \<Longrightarrow> read_fields (length fs) (concat (map put_field fs) @ r) = Inr (fs, r)"
  by (induction fs) (simp_all add: read_put_field)

lemma rd_decode_encode: "rd_ok rd \<Longrightarrow> rd_from_bytes (rd_to_bytes rd) = Inr rd"
  using read_put_fields [of "rd_fields rd" "[]"]
  by (simp add: rd_ok_def rd_to_bytes_def rd_from_bytes_def payload_named_fits to_signed_def)

interpretation rd_wire: wire_codec rd_to_bytes rd_from_bytes rd_ok "\<lambda>rd. rd"
  by unfold_locales (simp_all add: rd_decode_encode)

lemma filter_enumerate_nths: "map snd (filter (\<lambda>(i, x). i \<notin> D) (enumerate n xs)) = nths xs {i. i + n \<notin> D}"
  by (induction xs arbitrary: n) (auto simp: nths_Cons)

lemma fields_equivalent_iff:
  "length as = length bs \<Longrightarrow>
   fields_equivalent as bs \<longleftrightarrow>
     map (\<lambda>f. (field_name f, field_type_oid f)) as = map (\<lambda>f. (field_name f, field_type_oid f)) bs"
  by (induction as bs rule: list_induct2) auto

text \<open>Removing the columns the proxy added keeps exactly the other columns, in their order, whatever the
  order and the repetitions of the index list; a description that was sent and read back is unchanged;
  and two descriptions are equivalent exactly when their columns have the same names and types.\<close>

theorem row_description_operations:
  "rd_fields (rd_drop_columns rd dropped) = nths (rd_fields rd) {i. i \<notin> set dropped}
   \<and> (rd_ok rd \<longrightarrow> rd_from_bytes (rd_to_bytes rd) = Inr rd)
   \<and> (rd_equivalent rd rd' \<longleftrightarrow>
        map (\<lambda>f. (field_name f, field_type_oid f)) (rd_fields rd)
        = map (\<lambda>f. (field_name f, field_type_oid f)) (rd_fields rd'))"
proof (intro conjI impI)
  show "rd_fields (rd_drop_columns rd dropped) = nths (rd_fields rd) {i. i \<notin> set dropped}"
    using filter_enumerate_nths [of "set dropped" 0 "rd_fields rd"]
    by (simp add: rd_drop_columns_def Let_def nths_all)
  show "rd_ok rd \<Longrightarrow> rd_from_bytes (rd_to_bytes rd) = Inr rd"
    by (rule rd_wire.decode_encode)
  show "rd_equivalent rd rd' \<longleftrightarrow>
        map (\<lambda>f. (field_name f, field_type_oid f)) (rd_fields rd)
        = map (\<lambda>f. (field_name f, field_type_oid f)) (rd_fields rd')"
    using fields_equivalent_iff [of "rd_fields rd" "rd_fields rd'"]
    by (auto simp: rd_equivalent_def dest: map_eq_imp_length_eq)
qed

theorem row_description_operations_witness:
  "rd_from_bytes (rd_to_bytes \<lparr>rd_fields = [field_bigint ''id'', field_text ''email'']\<rparr>)
   = Inr \<lparr>rd_fields = [field_bigint ''id'', field_text ''email'']\<rparr>"
proof -
  have "rd_ok \<lparr>rd_fields = [field_bigint ''id'', field_text ''email'']\<rparr>"
    by (simp add: rd_ok_def field_ok_def put_field_def put_string_def)
  with row_description_operations show ?thesis by blast
qed

end
