(* ===== verification/ProtocolState.thy ===== *)
theory ProtocolState
  imports Messages "HOL-Library.Sublist"
begin

text \<open>
  \<^verbatim>\<open>pgdog/src/backend/protocol/state.rs\<close>: the queue of responses a server connection still owes, with
  the messages the proxy answers itself. \<open>protocol_state\<close> is the struct; \<open>ps_add\<close>, \<open>ps_add_ignore\<close>,
  \<open>ps_prepend\<close>, \<open>ps_add_simulated\<close>, \<open>ps_get_simulated\<close> and \<open>ps_action\<close> are its methods. The queue
  implements the interface \<open>response_queue\<close>; the lemmas after it show how an error of the server
  drains the queue in the simple and in the extended protocol.
\<close>

section \<open>Data\<close>

datatype backend_error =
    ProtocolOutOfSync
  | UnsupportedHandleIgnore char
  | BackendNet net_error

datatype act = ActForward | ActIgnore

datatype execution_code =
    ReadyForQuery
  | ExecutionCompleted
  | ParseComplete
  | BindComplete
  | CloseComplete
  | DescriptionOrNothing
  | CopyCode
  | ErrorCode
  | Untracked

fun code_extended :: "execution_code \<Rightarrow> bool" where
  "code_extended ParseComplete = True"
| "code_extended BindComplete = True"
| "code_extended _ = False"

definition execution_code_from :: "char \<Rightarrow> execution_code" where
  "execution_code_from c =
     (if c = CHR ''Z'' then ReadyForQuery
      else if c = CHR ''C'' \<or> c = CHR ''s'' \<or> c = CHR ''I'' then ExecutionCompleted
      else if c = CHR ''1'' then ParseComplete
      else if c = CHR ''2'' then BindComplete
      else if c = CHR ''3'' then CloseComplete
      else if c = CHR ''T'' \<or> c = CHR ''n'' \<or> c = CHR ''t'' then DescriptionOrNothing
      else if c = CHR ''G'' \<or> c = CHR ''c'' \<or> c = CHR ''f'' then CopyCode
      else if c = CHR ''E'' then ErrorCode
      else Untracked)"

datatype execution_item = Code execution_code | Ignore execution_code

fun item_code :: "execution_item \<Rightarrow> execution_code" where
  "item_code (Code c) = c"
| "item_code (Ignore c) = c"

definition item_extended :: "execution_item \<Rightarrow> bool" where
  "item_extended i = code_extended (item_code i)"

record protocol_state =
  ps_queue :: "execution_item list"
  ps_simulated :: "message list"
  ps_extended :: bool
  ps_out_of_sync :: bool

definition ps_default :: protocol_state where
  "ps_default = \<lparr>ps_queue = [], ps_simulated = [], ps_extended = False, ps_out_of_sync = False\<rparr>"

section \<open>Operations\<close>

definition ps_add_ignore :: "protocol_state \<Rightarrow> execution_code \<Rightarrow> protocol_state" where
  "ps_add_ignore s c =
     s\<lparr>ps_extended := ps_extended s \<or> code_extended c, ps_queue := ps_queue s @ [Ignore c]\<rparr>"

definition ps_add :: "protocol_state \<Rightarrow> execution_code \<Rightarrow> protocol_state" where
  "ps_add s c =
     s\<lparr>ps_extended := ps_extended s \<or> code_extended c, ps_queue := ps_queue s @ [Code c]\<rparr>"

definition ps_prepend :: "protocol_state \<Rightarrow> execution_code \<Rightarrow> protocol_state" where
  "ps_prepend s c = s\<lparr>ps_queue := Code c # ps_queue s\<rparr>"

definition ps_add_simulated :: "protocol_state \<Rightarrow> message \<Rightarrow> protocol_state" where
  "ps_add_simulated s m =
     s\<lparr>ps_queue := ps_queue s @ [Code (execution_code_from (msg_code m))], ps_simulated := ps_simulated s @ [m]\<rparr>"

definition ps_get_simulated :: "protocol_state \<Rightarrow> message option \<times> protocol_state" where
  "ps_get_simulated s =
     (case (ps_queue s, ps_simulated s) of
        (Code c # q, m # ms) \<Rightarrow>
          if c = execution_code_from (msg_code m)
          then (Some m, s\<lparr>ps_queue := q, ps_simulated := ms\<rparr>) else (None, s)
      | _ \<Rightarrow> (None, s))"

text \<open>The two branches of \<^verbatim>\<open>ExecutionCode::Error\<close>.\<close>

definition ps_error :: "protocol_state \<Rightarrow> protocol_state" where
  "ps_error s =
     (if \<not> ps_extended s
      then s\<lparr>ps_queue := dropWhile (\<lambda>i. i \<noteq> Code ReadyForQuery) (ps_queue s)\<rparr>
      else s\<lparr>ps_out_of_sync := True,
             ps_queue := (if ps_queue s \<noteq> [] \<and> last (ps_queue s) = Code ReadyForQuery
                          then [Code ReadyForQuery] else [])\<rparr>)"

text \<open>The rest of \<^verbatim>\<open>action\<close>: the item at the front of the queue decides.\<close>

definition ps_pop :: "protocol_state \<Rightarrow> execution_code \<Rightarrow> (backend_error + act) \<times> protocol_state" where
  "ps_pop s c =
     (case ps_queue s of
        [] \<Rightarrow> (Inl ProtocolOutOfSync, s)
      | Code d # q \<Rightarrow>
          (Inr ActForward, if c \<noteq> ReadyForQuery \<and> d = ReadyForQuery then s else s\<lparr>ps_queue := q\<rparr>)
      | Ignore d # q \<Rightarrow> (if c = d then Inr ActIgnore else Inl ProtocolOutOfSync, s\<lparr>ps_queue := q\<rparr>))"

definition ps_action :: "protocol_state \<Rightarrow> execution_code \<Rightarrow> (backend_error + act) \<times> protocol_state" where
  "ps_action s c =
     (if c = Untracked then (Inr ActForward, s)
      else if c = ErrorCode then (Inr ActForward, ps_error s)
      else
        let s1 = (if c = ReadyForQuery then s\<lparr>ps_out_of_sync := False\<rparr> else s);
            (r, s2) = ps_pop s1 c
        in case r of
             Inl e \<Rightarrow> (Inl e, s2)
           | Inr a \<Rightarrow>
               (Inr a,
                if c = ReadyForQuery then s2\<lparr>ps_extended := list_ex item_extended (ps_queue s2)\<rparr> else s2))"

definition ps_len :: "protocol_state \<Rightarrow> nat" where
  "ps_len s = length (ps_queue s)"

definition ps_is_empty :: "protocol_state \<Rightarrow> bool" where
  "ps_is_empty s \<longleftrightarrow> ps_len s = 0"

definition ps_done :: "protocol_state \<Rightarrow> bool" where
  "ps_done s \<longleftrightarrow> ps_is_empty s \<and> \<not> ps_out_of_sync s"

definition ps_has_more_messages :: "protocol_state \<Rightarrow> bool" where
  "ps_has_more_messages s \<longleftrightarrow> \<not> ps_is_empty s"

section \<open>The queue of responses\<close>

definition ps_push :: "protocol_state \<Rightarrow> execution_item \<Rightarrow> protocol_state" where
  "ps_push s i = (case i of Code c \<Rightarrow> ps_add s c | Ignore c \<Rightarrow> ps_add_ignore s c)"

definition item_action :: "execution_item \<Rightarrow> act" where
  "item_action i = (case i of Code _ \<Rightarrow> ActForward | Ignore _ \<Rightarrow> ActIgnore)"

definition item_tracked :: "execution_item \<Rightarrow> bool" where
  "item_tracked i \<longleftrightarrow> item_code i \<noteq> Untracked \<and> item_code i \<noteq> ErrorCode"

lemma ps_queue_push [simp]: "ps_queue (ps_push s i) = ps_queue s @ [i]"
  by (cases i) (auto simp: ps_push_def ps_add_def ps_add_ignore_def)

lemma ps_is_empty_iff: "ps_is_empty s \<longleftrightarrow> ps_queue s = []"
  by (simp add: ps_is_empty_def ps_len_def)

lemma ps_action_front:
  assumes "ps_queue s = i # q" "item_tracked i"
  shows "fst (ps_action s (item_code i)) = Inr (item_action i)"
    and "ps_queue (snd (ps_action s (item_code i))) = q"
  using assms by (cases i; auto simp: ps_action_def ps_pop_def item_tracked_def item_action_def)+

interpretation psq: response_queue ps_queue ps_push ps_action item_code item_action item_tracked
  by unfold_locales (auto simp: ps_action_front)

text \<open>The frame of \<open>ps_action\<close>: it never touches the simulated messages.\<close>

lemma ps_simulated_action [simp]: "ps_simulated (snd (ps_action s c)) = ps_simulated s"
  by (auto simp: ps_action_def ps_error_def ps_pop_def Let_def split: list.splits execution_item.splits)

lemma ps_action_untracked [simp]: "ps_action s Untracked = (Inr ActForward, s)"
  by (simp add: ps_action_def)

text \<open>C8: whatever responses a request registers, replies that the client asked for (\<^verbatim>\<open>add\<close>) and replies to
  messages the proxy injected (\<^verbatim>\<open>add_ignore\<close>), in any order: when the server sends exactly these
  responses, the first kind is forwarded, the second kind is hidden from the client, no error is
  raised, and the queue is empty at the end.\<close>

theorem responses_in_order:
  assumes "ps_is_empty s" "\<forall>i\<in>set items. item_tracked i"
  shows "\<exists>s'. serve ps_action (foldl ps_push s items) (map item_code items)
               = (map (\<lambda>i. Inr (item_action i)) items, s') \<and> ps_is_empty s'"
  using psq.serve_pushed [of s items] assms by (simp add: ps_is_empty_iff)

theorem responses_in_order_witness:
  "\<exists>s'. serve ps_action (foldl ps_push ps_default [Ignore ParseComplete, Code BindComplete, Code ReadyForQuery])
          [ParseComplete, BindComplete, ReadyForQuery]
        = ([Inr ActIgnore, Inr ActForward, Inr ActForward], s') \<and> ps_is_empty s'"
  using responses_in_order [of ps_default "[Ignore ParseComplete, Code BindComplete, Code ReadyForQuery]"]
  by (simp add: ps_is_empty_iff ps_default_def item_tracked_def item_action_def)

section \<open>Errors of the server\<close>

lemma dropWhile_until:
  "x \<notin> set q \<Longrightarrow> dropWhile (\<lambda>i. i \<noteq> x) (q @ x # r) = x # r"
  by (induction q) auto

lemma ps_action_rfq:
  "ps_queue s = Code ReadyForQuery # q \<Longrightarrow>
   ps_action s ReadyForQuery =
     (Inr ActForward, s\<lparr>ps_out_of_sync := False, ps_queue := q, ps_extended := list_ex item_extended q\<rparr>)"
  by (simp add: ps_action_def ps_pop_def)

text \<open>An error in a simple query aborts that query only. The error and the \<^verbatim>\<open>ReadyForQuery\<close> that ends the
  failed query are forwarded, and what is left in the queue are exactly the responses of the queries
  pipelined behind it.\<close>

theorem simple_error_aborts_one_query:
  assumes "\<not> ps_extended s"
    and "ps_queue s = q @ Code ReadyForQuery # rest"
    and "Code ReadyForQuery \<notin> set q"
  shows "\<exists>s'. serve ps_action s [ErrorCode, ReadyForQuery] = ([Inr ActForward, Inr ActForward], s')
               \<and> ps_queue s' = rest \<and> \<not> ps_out_of_sync s'"
proof -
  have "ps_action s ErrorCode = (Inr ActForward, s\<lparr>ps_queue := Code ReadyForQuery # rest\<rparr>)"
    using assms by (simp add: ps_action_def ps_error_def dropWhile_until)
  then show ?thesis
    by (simp add: ps_action_rfq)
qed

theorem simple_error_aborts_one_query_witness:
  "\<exists>s'. serve ps_action (foldl ps_add ps_default [ExecutionCompleted, ReadyForQuery, ReadyForQuery])
          [ErrorCode, ReadyForQuery] = ([Inr ActForward, Inr ActForward], s')
        \<and> ps_queue s' = [Code ReadyForQuery] \<and> \<not> ps_out_of_sync s'"
  by (rule simple_error_aborts_one_query [where q = "[Code ExecutionCompleted]"])
    (simp_all add: ps_add_def ps_default_def)

lemma ps_error_extended:
  "ps_extended s \<Longrightarrow> ps_action s ErrorCode =
     (Inr ActForward,
      s\<lparr>ps_out_of_sync := True,
        ps_queue := (if ps_queue s \<noteq> [] \<and> last (ps_queue s) = Code ReadyForQuery then [Code ReadyForQuery] else [])\<rparr>)"
  by (simp add: ps_action_def ps_error_def)

text \<open>An error in the extended protocol makes the connection unusable for others (not \<^verbatim>\<open>done\<close>) until the
  client has synchronised. If the failed pipeline ends in a \<^verbatim>\<open>Sync\<close>, its \<^verbatim>\<open>ReadyForQuery\<close> is the only
  response still expected; if not, the next \<^verbatim>\<open>Sync\<close> registers it. In both cases that one message
  makes the connection \<^verbatim>\<open>done\<close> and ends the extended mode.\<close>

theorem extended_error_until_sync:
  assumes "ps_extended s"
  shows "\<exists>s1. ps_action s ErrorCode = (Inr ActForward, s1) \<and> \<not> ps_done s1
     \<and> (let s2 = (if ps_queue s \<noteq> [] \<and> last (ps_queue s) = Code ReadyForQuery then s1
                  else ps_add s1 ReadyForQuery)
        in ps_queue s2 = [Code ReadyForQuery]
           \<and> (\<exists>s3. ps_action s2 ReadyForQuery = (Inr ActForward, s3) \<and> ps_done s3 \<and> \<not> ps_extended s3))"
  by (auto simp: ps_error_extended [OF assms] ps_action_rfq ps_done_def ps_is_empty_iff ps_add_def Let_def)

theorem extended_error_until_sync_witness:
  "ps_extended (foldl ps_add ps_default [ParseComplete, BindComplete])
   \<and> (\<exists>s1. ps_action (foldl ps_add ps_default [ParseComplete, BindComplete]) ErrorCode = (Inr ActForward, s1)
        \<and> \<not> ps_done s1)"
proof
  show ex: "ps_extended (foldl ps_add ps_default [ParseComplete, BindComplete])"
    by (simp add: ps_add_def ps_default_def)
  show "\<exists>s1. ps_action (foldl ps_add ps_default [ParseComplete, BindComplete]) ErrorCode = (Inr ActForward, s1)
        \<and> \<not> ps_done s1"
    using extended_error_until_sync [OF ex] by auto
qed

text \<open>An error in the extended protocol leaves the simulated replies of the aborted pipeline behind. A
  \<^verbatim>\<open>Bind\<close>, a \<^verbatim>\<open>Close\<close> answered by the proxy and a \<^verbatim>\<open>Sync\<close> are registered, the \<^verbatim>\<open>Bind\<close> fails and the connection is
  synchronised and reported \<^verbatim>\<open>done\<close>. When the next pipeline registers a \<^verbatim>\<open>CloseComplete\<close> that the server
  will really send, the reply of the aborted pipeline is returned in its place.\<close>

theorem stale_simulated_reply:
  "let s0 = ps_add (ps_add_simulated (ps_add ps_default BindComplete) close_complete_message) ReadyForQuery;
       s1 = snd (serve ps_action s0 [ErrorCode, ReadyForQuery])
   in ps_done s1 \<and> ps_simulated s1 = [close_complete_message]
      \<and> fst (ps_get_simulated (ps_add s1 CloseComplete)) = Some close_complete_message"
  by (simp add: ps_add_def ps_add_simulated_def ps_default_def ps_action_def ps_error_def ps_pop_def ps_done_def
      ps_is_empty_def ps_len_def ps_get_simulated_def close_complete_message_def new_message_def
      execution_code_from_def)

text \<open>Without an error the simulated replies stay paired with items of the queue, in order.\<close>

definition simulated_paired :: "protocol_state \<Rightarrow> bool" where
  "simulated_paired s \<longleftrightarrow>
     subseq (map (\<lambda>m. Code (execution_code_from (msg_code m))) (ps_simulated s)) (ps_queue s)"

lemma simulated_paired_add: "simulated_paired s \<Longrightarrow> simulated_paired (ps_push s i)"
  by (cases i) (auto simp: simulated_paired_def ps_push_def ps_add_def ps_add_ignore_def intro: subseq_rev_drop_many)

lemma simulated_paired_simulated: "simulated_paired s \<Longrightarrow> simulated_paired (ps_add_simulated s m)"
  by (auto simp: simulated_paired_def ps_add_simulated_def intro: list_emb_append_mono)

end
