(* ===== verification/ServerPrepared.thy ===== *)
theory ServerPrepared
  imports FrontendPrepared RowDescription ProtocolState
begin

text \<open>
  \<^verbatim>\<open>pgdog/src/backend/prepared_statements.rs\<close>: the prepared statements of one server connection, and the
  loops of \<^verbatim>\<open>pgdog/src/backend/server.rs\<close> that send a client's message and read a reply through it. The
  shared \<open>global_cache\<close> is passed explicitly. The LRU cache of prepared names is the \<^verbatim>\<open>lru\<close> crate: a record
  of its operations (\<open>lru_ops\<close>) is a parameter, and what the crate documents is \<open>lru_laws\<close>.

  The lemmas show which replies a message registers, that replies to injected messages never reach
  the client, that replies reach the client in order, and that eviction ends within the capacity.
\<close>

section \<open>The LRU cache\<close>

record 'c lru_ops =
  lru_promote :: "'c \<Rightarrow> string \<Rightarrow> bool \<times> 'c"
  lru_push :: "'c \<Rightarrow> string \<Rightarrow> 'c"
  lru_pop :: "'c \<Rightarrow> string \<Rightarrow> bool \<times> 'c"
  lru_pop_lru :: "'c \<Rightarrow> string option \<times> 'c"
  lru_len :: "'c \<Rightarrow> nat"
  lru_clear :: "'c \<Rightarrow> 'c"

text \<open>The documented behaviour, on the keys from the most to the least recently used one.\<close>

definition lru_laws :: "'c lru_ops \<Rightarrow> ('c \<Rightarrow> string list) \<Rightarrow> bool" where
  "lru_laws L keys \<longleftrightarrow>
     (\<forall>c. distinct (keys c) \<and> lru_len L c = length (keys c) \<and> keys (lru_clear L c) = []
        \<and> fst (lru_pop_lru L c) = (if keys c = [] then None else Some (last (keys c)))
        \<and> keys (snd (lru_pop_lru L c)) = butlast (keys c))
     \<and> (\<forall>c k. fst (lru_promote L c k) = (k \<in> set (keys c))
        \<and> keys (snd (lru_promote L c k)) = (if k \<in> set (keys c) then k # remove1 k (keys c) else keys c)
        \<and> keys (lru_push L c k) = k # remove1 k (keys c)
        \<and> fst (lru_pop L c k) = (k \<in> set (keys c))
        \<and> keys (snd (lru_pop L c k)) = remove1 k (keys c))"

section \<open>State and operations\<close>

datatype handle_result =
    HForward
  | HDrop
  | HPrepend protocol_message
  | HRewrite protocol_message
  | HPrependRewrite protocol_message protocol_message

record 'c server_prepared =
  sp_cache :: 'c
  sp_state :: protocol_state
  sp_parses :: "string list"
  sp_describes :: "string list"
  sp_capacity :: nat
  sp_memory_used :: nat
  sp_level :: prepared_level

abbreviation sp_add :: "'c server_prepared \<Rightarrow> execution_code \<Rightarrow> 'c server_prepared" where
  "sp_add s c \<equiv> s\<lparr>sp_state := ps_add (sp_state s) c\<rparr>"

abbreviation sp_add_ignore :: "'c server_prepared \<Rightarrow> execution_code \<Rightarrow> 'c server_prepared" where
  "sp_add_ignore s c \<equiv> s\<lparr>sp_state := ps_add_ignore (sp_state s) c\<rparr>"

abbreviation sp_add_simulated :: "'c server_prepared \<Rightarrow> message \<Rightarrow> 'c server_prepared" where
  "sp_add_simulated s m \<equiv> s\<lparr>sp_state := ps_add_simulated (sp_state s) m\<rparr>"

definition sp_contains :: "'c lru_ops \<Rightarrow> 'c server_prepared \<Rightarrow> string \<Rightarrow> bool \<times> 'c server_prepared" where
  "sp_contains L s name = (case lru_promote L (sp_cache s) name of (b, c) \<Rightarrow> (b, s\<lparr>sp_cache := c\<rparr>))"

definition sp_prepared :: "'c lru_ops \<Rightarrow> 'c server_prepared \<Rightarrow> string \<Rightarrow> 'c server_prepared" where
  "sp_prepared L s name =
     s\<lparr>sp_memory_used := sp_memory_used s + str_mem name, sp_cache := lru_push L (sp_cache s) name\<rparr>"

definition sp_remove :: "'c lru_ops \<Rightarrow> 'c server_prepared \<Rightarrow> string \<Rightarrow> bool \<times> 'c server_prepared" where
  "sp_remove L s name =
     (case lru_pop L (sp_cache s) name of
        (True, c) \<Rightarrow> (True, s\<lparr>sp_cache := c, sp_memory_used := sp_memory_used s - str_mem name\<rparr>)
      | (False, c) \<Rightarrow> (False, s\<lparr>sp_cache := c\<rparr>))"

definition sp_clear :: "'c lru_ops \<Rightarrow> 'c server_prepared \<Rightarrow> 'c server_prepared" where
  "sp_clear L s = s\<lparr>sp_cache := lru_clear L (sp_cache s), sp_memory_used := 0\<rparr>"

definition sp_len :: "'c lru_ops \<Rightarrow> 'c server_prepared \<Rightarrow> nat" where
  "sp_len L s = lru_len L (sp_cache s)"

definition sp_set_capacity :: "'c server_prepared \<Rightarrow> nat \<Rightarrow> 'c server_prepared" where
  "sp_set_capacity s n = s\<lparr>sp_capacity := n\<rparr>"

definition sp_set_prepared_statements_level :: "'c server_prepared \<Rightarrow> prepared_level \<Rightarrow> 'c server_prepared" where
  "sp_set_prepared_statements_level s level = s\<lparr>sp_level := level\<rparr>"

definition sp_done :: "'c server_prepared \<Rightarrow> bool" where
  "sp_done s \<longleftrightarrow> ps_done (sp_state s) \<and> sp_parses s = [] \<and> sp_describes s = []"

definition sp_has_more_messages :: "'c server_prepared \<Rightarrow> bool" where
  "sp_has_more_messages s \<longleftrightarrow> ps_has_more_messages (sp_state s)"

definition check_prepared ::
    "'c lru_ops \<Rightarrow> 'rd global_cache \<Rightarrow> 'c server_prepared \<Rightarrow> string \<Rightarrow> parse option \<times> 'c server_prepared" where
  "check_prepared L g s name =
     (case sp_contains L s name of
        (b, s') \<Rightarrow>
          (if \<not> b \<and> name \<notin> set (sp_parses s') then gc_rewritten_parse g name else None, s'))"

definition handle_ignore :: "'c server_prepared \<Rightarrow> protocol_message \<Rightarrow> (backend_error + unit) \<times> 'c server_prepared" where
  "handle_ignore s m =
     (case m of
        PParse _ \<Rightarrow> (Inr (), sp_add_ignore s ParseComplete)
      | _ \<Rightarrow> (Inl (UnsupportedHandleIgnore (pm_code m)), s))"

text \<open>\<^verbatim>\<open>handle\<close>, one definition per kind of message.\<close>

definition handle_bind ::
    "'c lru_ops \<Rightarrow> 'rd global_cache \<Rightarrow> 'c server_prepared \<Rightarrow> bind \<Rightarrow> handle_result \<times> 'c server_prepared" where
  "handle_bind L g s b =
     (if \<not> bind_anonymous b then
        (case check_prepared L g s (bind_statement b) of
           (Some p, s) \<Rightarrow>
             let s = sp_add_ignore s ParseComplete;
                 s = s\<lparr>sp_parses := sp_parses s @ [bind_statement b]\<rparr>;
                 s = sp_add s BindComplete
             in if rewrite_anonymous (sp_level s)
                then (HPrependRewrite (PParse (parse_anonymize p)) (PBind (bind_anonymize b)), s)
                else (HPrepend (PParse p), s)
         | (None, s) \<Rightarrow>
             let s = sp_add s BindComplete
             in if rewrite_anonymous (sp_level s) then (HRewrite (PBind (bind_anonymize b)), s) else (HForward, s))
      else (HForward, sp_add s BindComplete))"

definition handle_describe ::
    "'c lru_ops \<Rightarrow> 'rd global_cache \<Rightarrow> 'c server_prepared \<Rightarrow> describe \<Rightarrow> handle_result \<times> 'c server_prepared" where
  "handle_describe L g s d =
     (if \<not> desc_anonymous d then
        (case check_prepared L g s (desc_statement d) of
           (Some p, s) \<Rightarrow>
             let s = sp_add_ignore s ParseComplete;
                 s = s\<lparr>sp_parses := sp_parses s @ [desc_statement d]\<rparr>;
                 s = sp_add s DescriptionOrNothing;
                 s = sp_add s DescriptionOrNothing
             in if rewrite_anonymous (sp_level s)
                then (HPrependRewrite (PParse (parse_anonymize p)) (PDescribe (desc_anonymize d)),
                      s\<lparr>sp_describes := sp_describes s @ [desc_statement d]\<rparr>)
                else (HPrepend (PParse p), s)
         | (None, s) \<Rightarrow>
             let s = sp_add s DescriptionOrNothing;
                 s = sp_add s DescriptionOrNothing;
                 s = s\<lparr>sp_describes := sp_describes s @ [desc_statement d]\<rparr>
             in if rewrite_anonymous (sp_level s) then (HRewrite (PDescribe (desc_anonymize d)), s) else (HForward, s))
      else if desc_is_portal d then (HForward, sp_add s DescriptionOrNothing)
      else if desc_is_statement d then (HForward, sp_add (sp_add s DescriptionOrNothing) DescriptionOrNothing)
      else (HForward, s))"

definition handle_parse :: "'c lru_ops \<Rightarrow> 'c server_prepared \<Rightarrow> parse \<Rightarrow> handle_result \<times> 'c server_prepared" where
  "handle_parse L s p =
     (if \<not> parse_anonymous p then
        (case sp_contains L s (parse_name p) of
           (True, s) \<Rightarrow> (HDrop, sp_add_simulated s parse_complete_message)
         | (False, s) \<Rightarrow>
             let s = sp_add s ParseComplete;
                 s = s\<lparr>sp_parses := sp_parses s @ [parse_name p]\<rparr>
             in if rewrite_anonymous (sp_level s) then (HRewrite (PParse (parse_anonymize p)), s) else (HForward, s))
      else (HForward, sp_add s ParseComplete))"

definition handle_close :: "'c server_prepared \<Rightarrow> close \<Rightarrow> handle_result \<times> 'c server_prepared" where
  "handle_close s c =
     (if \<not> close_anonymous c then (HDrop, sp_add_simulated s close_complete_message)
      else (HForward, sp_add s CloseComplete))"

definition handle_prepare :: "'c lru_ops \<Rightarrow> 'c server_prepared \<Rightarrow> string \<Rightarrow> handle_result \<times> 'c server_prepared" where
  "handle_prepare L s name =
     (case sp_contains L s name of
        (True, s) \<Rightarrow> (HDrop, s)
      | (False, s) \<Rightarrow>
          (HForward, sp_add_ignore (sp_add_ignore (s\<lparr>sp_parses := sp_parses s @ [name]\<rparr>) ExecutionCompleted) ReadyForQuery))"

definition handle_copy :: "'c server_prepared \<Rightarrow> execution_code \<Rightarrow> (backend_error + handle_result) \<times> 'c server_prepared" where
  "handle_copy s c =
     (case ps_action (sp_state s) c of
        (Inl e, st) \<Rightarrow> (Inl e, s\<lparr>sp_state := st\<rparr>)
      | (Inr _, st) \<Rightarrow> (Inr HForward, s\<lparr>sp_state := st\<rparr>))"

definition sp_handle ::
    "'c lru_ops \<Rightarrow> 'rd global_cache \<Rightarrow> 'c server_prepared \<Rightarrow> protocol_message \<Rightarrow>
     (backend_error + handle_result) \<times> 'c server_prepared" where
  "sp_handle L g s m =
     (case m of
        PBind b \<Rightarrow> map_prod Inr id (handle_bind L g s b)
      | PDescribe d \<Rightarrow> map_prod Inr id (handle_describe L g s d)
      | PExecute _ \<Rightarrow> (Inr HForward, sp_add s ExecutionCompleted)
      | PSync \<Rightarrow> (Inr HForward, sp_add s ReadyForQuery)
      | PQuery _ \<Rightarrow> (Inr HForward, sp_add s ReadyForQuery)
      | PParse p \<Rightarrow> map_prod Inr id (handle_parse L s p)
      | PClose c \<Rightarrow> map_prod Inr id (handle_close s c)
      | PPrepare name _ \<Rightarrow> map_prod Inr id (handle_prepare L s name)
      | PCopyDone _ \<Rightarrow> handle_copy s CopyCode
      | PCopyFail _ \<Rightarrow> handle_copy s CopyCode
      | PFastpath _ \<Rightarrow> (Inr HForward, sp_add s ReadyForQuery)
      | _ \<Rightarrow> (Inr HForward, s))"

text \<open>\<^verbatim>\<open>forward\<close>: what the message just received does to the pending statements, then whether the client gets it.\<close>

definition sp_cleanup ::
    "'c lru_ops \<Rightarrow> row_description global_cache \<Rightarrow> 'c server_prepared \<Rightarrow> message \<Rightarrow>
     (backend_error + unit) \<times> row_description global_cache \<times> 'c server_prepared" where
  "sp_cleanup L g s m =
     (let code = msg_code m in
      if code = CHR ''E'' then (Inr (), g, s\<lparr>sp_describes := [], sp_parses := []\<rparr>)
      else if code = CHR ''T'' then
        (case sp_describes s of
           [] \<Rightarrow> (Inr (), g, s)
         | d # ds \<Rightarrow>
             (case rd_from_bytes (payload m) of
                Inl e \<Rightarrow> (Inl (BackendNet e), g, s\<lparr>sp_describes := ds\<rparr>)
              | Inr rd \<Rightarrow> (Inr (), gc_insert_row_description g d rd, s\<lparr>sp_describes := ds\<rparr>)))
      else if code = CHR ''n'' then (Inr (), g, s\<lparr>sp_describes := tl (sp_describes s)\<rparr>)
      else if code = CHR ''1'' \<or> code = CHR ''C'' then
        (case sp_parses s of
           [] \<Rightarrow> (Inr (), g, s)
         | p # ps \<Rightarrow> (Inr (), g, sp_prepared L (s\<lparr>sp_parses := ps\<rparr>) p))
      else if code = CHR ''G'' then (Inr (), g, s\<lparr>sp_state := ps_prepend (sp_state s) CopyCode\<rparr>)
      else if code = CHR ''c'' then
        (case ps_action (sp_state s) (execution_code_from code) of
           (Inl e, st) \<Rightarrow> (Inl e, g, s\<lparr>sp_state := st\<rparr>)
         | (Inr _, st) \<Rightarrow> (Inr (), g, s\<lparr>sp_state := st\<rparr>))
      else (Inr (), g, s))"

definition sp_forward ::
    "'c lru_ops \<Rightarrow> row_description global_cache \<Rightarrow> 'c server_prepared \<Rightarrow> message \<Rightarrow>
     (backend_error + bool) \<times> row_description global_cache \<times> 'c server_prepared" where
  "sp_forward L g s m =
     (case ps_action (sp_state s) (execution_code_from (msg_code m)) of
        (Inl e, st) \<Rightarrow> (Inl e, g, s\<lparr>sp_state := st\<rparr>)
      | (Inr a, st) \<Rightarrow>
          (case sp_cleanup L g (s\<lparr>sp_state := st\<rparr>) m of
             (Inl e, g', s') \<Rightarrow> (Inl e, g', s')
           | (Inr _, g', s') \<Rightarrow>
               (Inr (a = ActForward), g',
                if \<not> sp_has_more_messages s' \<and> rewrite_anonymous (sp_level s') then sp_clear L s' else s')))"

text \<open>\<^verbatim>\<open>ensure_capacity\<close>: a loop that ends only if evicting makes the cache smaller.\<close>

partial_function (option) sp_evict ::
    "'c lru_ops \<Rightarrow> 'c server_prepared \<Rightarrow> close list \<Rightarrow> (close list \<times> 'c server_prepared) option" where
  "sp_evict L s cs =
     (if lru_len L (sp_cache s) > sp_capacity s then
        (case lru_pop_lru L (sp_cache s) of
           (Some name, c) \<Rightarrow>
             sp_evict L (s\<lparr>sp_cache := c, sp_memory_used := sp_memory_used s - str_mem name\<rparr>) (cs @ [close_named name])
         | (None, c) \<Rightarrow> sp_evict L (s\<lparr>sp_cache := c\<rparr>) cs)
      else Some (cs, s))"

definition ensure_capacity :: "'c lru_ops \<Rightarrow> 'c server_prepared \<Rightarrow> (close list \<times> 'c server_prepared) option" where
  "ensure_capacity L s = sp_evict L s []"

section \<open>Sending and reading on a server connection\<close>

definition sent :: "handle_result \<Rightarrow> protocol_message \<Rightarrow> protocol_message list" where
  "sent r m =
     (case r of
        HDrop \<Rightarrow> []
      | HPrepend prepare \<Rightarrow> [prepare, m]
      | HForward \<Rightarrow> [m]
      | HRewrite m' \<Rightarrow> [m']
      | HPrependRewrite prepare m' \<Rightarrow> [prepare, m'])"

definition send_one ::
    "'c lru_ops \<Rightarrow> 'rd global_cache \<Rightarrow> 'c server_prepared \<Rightarrow> protocol_message \<Rightarrow>
     (backend_error + protocol_message list) \<times> 'c server_prepared" where
  "send_one L g s m =
     (case sp_handle L g s m of (Inl e, s') \<Rightarrow> (Inl e, s') | (Inr r, s') \<Rightarrow> (Inr (sent r m), s'))"

text \<open>The loop of \<^verbatim>\<open>read\<close> over the messages that have arrived: a simulated reply that is due comes first, a reply
  that is not for the client is skipped. \<open>None\<close> is waiting for the server.\<close>

fun srv_read ::
    "'c lru_ops \<Rightarrow> bool \<Rightarrow> backend_key_data \<Rightarrow> row_description global_cache \<Rightarrow> 'c server_prepared \<Rightarrow> message list \<Rightarrow>
     ((backend_error + message) \<times> message list \<times> row_description global_cache \<times> 'c server_prepared) option" where
  "srv_read L streaming key g s incoming =
     (case ps_get_simulated (sp_state s) of
        (Some m, st) \<Rightarrow> Some (Inr (backend key m), incoming, g, s\<lparr>sp_state := st\<rparr>)
      | (None, _) \<Rightarrow>
          (case incoming of
             [] \<Rightarrow> None
           | m # rest \<Rightarrow>
               let m = backend key (m\<lparr>msg_stream := streaming\<rparr>) in
               (case sp_forward L g s m of
                  (Inl e, g', s') \<Rightarrow> Some (Inl e, rest, g', s')
                | (Inr True, g', s') \<Rightarrow> Some (Inr m, rest, g', s')
                | (Inr False, g', s') \<Rightarrow> srv_read L streaming key g' s' rest)))"

declare srv_read.simps [simp del]

section \<open>The replies a message registers\<close>

text \<open>What PostgreSQL answers to a message of the extended protocol, and to the \<^verbatim>\<open>PREPARE\<close> the proxy sends itself.\<close>

fun pg_replies :: "protocol_message \<Rightarrow> execution_code list" where
  "pg_replies (PParse _) = [ParseComplete]"
| "pg_replies (PBind _) = [BindComplete]"
| "pg_replies (PDescribe d) =
     (if desc_is_portal d then [DescriptionOrNothing]
      else if desc_is_statement d then [DescriptionOrNothing, DescriptionOrNothing] else [])"
| "pg_replies (PExecute _) = [ExecutionCompleted]"
| "pg_replies (PClose _) = [CloseComplete]"
| "pg_replies PSync = [ReadyForQuery]"
| "pg_replies (PPrepare _ _) = [ExecutionCompleted, ReadyForQuery]"
| "pg_replies _ = []"

fun pipelined :: "protocol_message \<Rightarrow> bool" where
  "pipelined (PQuery _) = False"
| "pipelined (POther _) = False"
| "pipelined (PCopyData _) = False"
| "pipelined (PCopyFail _) = False"
| "pipelined (PCopyDone _) = False"
| "pipelined (PFastpath _) = False"
| "pipelined _ = True"

text \<open>A \<^verbatim>\<open>Prepare\<close> comes from the proxy, not from the client.\<close>

definition client_replies :: "protocol_message \<Rightarrow> execution_code list" where
  "client_replies m = (case m of PPrepare _ _ \<Rightarrow> [] | _ \<Rightarrow> pg_replies m)"

definition visible :: "execution_item list \<Rightarrow> execution_code list" where
  "visible items = concat (map (\<lambda>i. case i of Code c \<Rightarrow> [c] | Ignore _ \<Rightarrow> []) items)"

lemma visible_simps [simp]:
  "visible [] = []" "visible (Code c # q) = c # visible q" "visible (Ignore c # q) = visible q"
  by (simp_all add: visible_def)

lemma ps_add_queue [simp]:
  "ps_queue (ps_add s c) = ps_queue s @ [Code c]" "ps_queue (ps_add_ignore s c) = ps_queue s @ [Ignore c]"
  "ps_simulated (ps_add s c) = ps_simulated s" "ps_simulated (ps_add_ignore s c) = ps_simulated s"
  "ps_queue (ps_add_simulated s m) = ps_queue s @ [Code (execution_code_from (msg_code m))]"
  "ps_simulated (ps_add_simulated s m) = ps_simulated s @ [m]"
  by (simp_all add: ps_add_def ps_add_ignore_def ps_add_simulated_def)

lemma simulated_codes [simp]:
  "execution_code_from (msg_code parse_complete_message) = ParseComplete"
  "execution_code_from (msg_code close_complete_message) = CloseComplete"
  by (simp_all add: parse_complete_message_def close_complete_message_def new_message_def execution_code_from_def)

lemma sp_contains_eq: "sp_contains L s n = (b, s') \<Longrightarrow> sp_state s' = sp_state s"
  by (auto simp: sp_contains_def split: prod.splits)

lemma check_prepared_state: "check_prepared L g s n = (r, s') \<Longrightarrow> sp_state s' = sp_state s"
  by (auto simp: check_prepared_def dest: sp_contains_eq split: prod.splits)

lemma desc_kinds:
  "\<not> desc_anonymous d \<Longrightarrow> desc_is_statement d \<and> \<not> desc_is_portal d"
  "desc_is_portal (desc_anonymize d) = desc_is_portal d" "desc_is_statement (desc_anonymize d) = desc_is_statement d"
  by (simp_all add: desc_anonymous_def desc_is_statement_def desc_is_portal_def desc_anonymize_def)

definition registers ::
    "'c server_prepared \<Rightarrow> protocol_message \<Rightarrow> handle_result \<Rightarrow> 'c server_prepared \<Rightarrow> bool" where
  "registers s m r s' \<longleftrightarrow>
     (\<exists>new sims. ps_queue (sp_state s') = ps_queue (sp_state s) @ new
        \<and> ps_simulated (sp_state s') = ps_simulated (sp_state s) @ sims
        \<and> visible new = client_replies m
        \<and> (if r = HDrop then new = map (\<lambda>m. Code (execution_code_from (msg_code m))) sims
            else sims = [] \<and> map item_code new = concat (map pg_replies (sent r m))))"

lemma handle_bind_registers: "handle_bind L g s b = (r, s') \<Longrightarrow> registers s (PBind b) r s'"
  by (auto simp: handle_bind_def registers_def client_replies_def sent_def Let_def dest: check_prepared_state
      split: if_splits prod.splits option.splits)

lemma handle_describe_registers: "handle_describe L g s d = (r, s') \<Longrightarrow> registers s (PDescribe d) r s'"
  by (auto simp: handle_describe_def registers_def client_replies_def sent_def Let_def desc_kinds
      dest: check_prepared_state split: if_splits prod.splits option.splits)

lemma handle_parse_registers: "handle_parse L s p = (r, s') \<Longrightarrow> registers s (PParse p) r s'"
  by (auto simp: handle_parse_def registers_def client_replies_def sent_def Let_def dest: sp_contains_eq
      split: if_splits prod.splits bool.splits)

lemma handle_close_registers: "handle_close s c = (r, s') \<Longrightarrow> registers s (PClose c) r s'"
  by (auto simp: handle_close_def registers_def client_replies_def sent_def split: if_splits)

lemma handle_prepare_registers: "handle_prepare L s n = (r, s') \<Longrightarrow> registers s (PPrepare n q) r s'"
  by (auto simp: handle_prepare_def registers_def client_replies_def sent_def dest: sp_contains_eq
      split: prod.splits bool.splits)

lemmas handle_registers =
  handle_bind_registers handle_describe_registers handle_parse_registers handle_close_registers
  handle_prepare_registers

lemma sp_handle_registers:
  assumes "pipelined m" "sp_handle L g s m = (Inr r, s')"
  shows "registers s m r s'"
  using assms
  by (cases m) (auto simp: sp_handle_def map_prod_def handle_registers split: prod.splits,
      auto simp: registers_def client_replies_def sent_def)

text \<open>C4: a message of the extended protocol registers exactly the replies the server is going to send to what
  the proxy really sends in its place, in their order. Those the client sees are the replies to the
  client's own message; those to a \<^verbatim>\<open>Parse\<close> the proxy injected are marked to be hidden; and for a message
  the proxy drops, the reply it registers is one it simulates.\<close>

theorem handle_registers_replies:
  assumes "pipelined m" "sp_handle L g s m = (Inr r, s')"
  shows "\<exists>new sims. ps_queue (sp_state s') = ps_queue (sp_state s) @ new
        \<and> ps_simulated (sp_state s') = ps_simulated (sp_state s) @ sims
        \<and> visible new = client_replies m
        \<and> (if r = HDrop then new = map (\<lambda>m. Code (execution_code_from (msg_code m))) sims
            else sims = [] \<and> map item_code new = concat (map pg_replies (sent r m)))"
  using sp_handle_registers [OF assms] by (simp add: registers_def)

text \<open>An instance of the LRU cache on which the laws hold: a list of keys.\<close>

definition list_lru :: "string list lru_ops" where
  "list_lru =
     \<lparr>lru_promote = (\<lambda>c k. (k \<in> set c, if k \<in> set c then k # remove1 k (remdups c) else remdups c)),
      lru_push = (\<lambda>c k. k # remove1 k (remdups c)),
      lru_pop = (\<lambda>c k. (k \<in> set c, remove1 k (remdups c))),
      lru_pop_lru = (\<lambda>c. (if c = [] then None else Some (last (remdups c)), butlast (remdups c))),
      lru_len = (\<lambda>c. length (remdups c)),
      lru_clear = (\<lambda>_. [])\<rparr>"

lemma remdups_remove1_remdups [simp]: "remdups (remove1 k (remdups c)) = remove1 k (remdups c)"
  by (simp add: distinct_remdups_id)

lemma notin_remove1_remdups [simp]: "k \<notin> set (remove1 k (remdups c))"
  by (simp add: distinct_remove1_removeAll)

lemma list_lru_laws: "lru_laws list_lru remdups"
  by (auto simp: lru_laws_def list_lru_def distinct_remdups_id distinct_butlast)

definition sp_new :: "prepared_level \<Rightarrow> string list server_prepared" where
  "sp_new level =
     \<lparr>sp_cache = [], sp_state = ps_default, sp_parses = [], sp_describes = [], sp_capacity = 2, sp_memory_used = 0,
      sp_level = level\<rparr>"

definition example_cache :: "row_description global_cache" where
  "example_cache = snd (gc_insert gc_default (parse_named ''s'' ''SELECT 1''))"

theorem handle_registers_replies_witness:
  "\<exists>r s'. sp_handle list_lru example_cache (sp_new Extended) (PBind (bind_new_statement (global_name 1))) = (Inr r, s')
     \<and> (\<exists>p. r = HPrepend (PParse p))
     \<and> (\<exists>new sims. ps_queue (sp_state s') = ps_queue (sp_state (sp_new Extended)) @ new
        \<and> ps_simulated (sp_state s') = ps_simulated (sp_state (sp_new Extended)) @ sims
        \<and> visible new = client_replies (PBind (bind_new_statement (global_name 1))))"
proof -
  let ?s = "sp_new Extended" and ?m = "PBind (bind_new_statement (global_name 1))"
  obtain r s' where h: "sp_handle list_lru example_cache ?s ?m = (Inr r, s')" "\<exists>p. r = HPrepend (PParse p)"
    by (simp add: sp_handle_def handle_bind_def bind_anonymous_def bind_statement_def bind_new_statement_def
        bind_default_def check_prepared_def sp_contains_def list_lru_def sp_new_def gc_rewritten_parse_def
        example_cache_def gc_insert_def gc_default_def Let_def hm_insert_def hm_remove_def global_name_def)
  show ?thesis
    using handle_registers_replies [OF _ h(1)] h by simp blast
qed

lemma lru_lawsD:
  assumes "lru_laws L keys"
  shows "distinct (keys c)" "lru_len L c = length (keys c)" "keys (lru_clear L c) = []"
    "fst (lru_pop_lru L c) = (if keys c = [] then None else Some (last (keys c)))"
    "keys (snd (lru_pop_lru L c)) = butlast (keys c)"
    "fst (lru_promote L c k) = (k \<in> set (keys c))"
    "keys (snd (lru_promote L c k)) = (if k \<in> set (keys c) then k # remove1 k (keys c) else keys c)"
    "keys (lru_push L c k) = k # remove1 k (keys c)"
    "fst (lru_pop L c k) = (k \<in> set (keys c))" "keys (snd (lru_pop L c k)) = remove1 k (keys c)"
  using assms by (simp_all add: lru_laws_def)

lemma sp_evict_terminates:
  assumes "lru_laws L keys"
  shows "\<exists>s'. sp_evict L s cs = Some (cs @ map close_named (rev (drop (sp_capacity s) (keys (sp_cache s)))), s')
     \<and> keys (sp_cache s') = take (sp_capacity s) (keys (sp_cache s)) \<and> sp_capacity s' = sp_capacity s"
proof (induction "length (keys (sp_cache s)) - sp_capacity s" arbitrary: s cs)
  case 0
  then show ?case
    by (subst sp_evict.simps) (simp add: lru_lawsD(2) [OF assms])
next
  case (Suc n)
  obtain xs x where ks: "keys (sp_cache s) = xs @ [x]"
    using Suc.hyps(2) by (cases "keys (sp_cache s)" rule: rev_exhaust) auto
  obtain k c where pop: "lru_pop_lru L (sp_cache s) = (k, c)" by fastforce
  have k: "k = Some x" and c: "keys c = xs"
    using lru_lawsD(4,5) [OF assms, of "sp_cache s"] pop ks by auto
  have over: "sp_capacity s \<le> length xs" and n: "n = length xs - sp_capacity s"
    using Suc.hyps(2) ks by auto
  let ?s = "s\<lparr>sp_cache := c, sp_memory_used := sp_memory_used s - str_mem x\<rparr>"
  have "\<exists>s'. sp_evict L ?s (cs @ [close_named x])
      = Some ((cs @ [close_named x]) @ map close_named (rev (drop (sp_capacity ?s) (keys (sp_cache ?s)))), s')
     \<and> keys (sp_cache s') = take (sp_capacity ?s) (keys (sp_cache ?s)) \<and> sp_capacity s' = sp_capacity ?s"
    by (rule Suc.hyps(1)) (simp add: c n)
  moreover have "sp_evict L s cs = sp_evict L ?s (cs @ [close_named x])"
    using over ks by (subst sp_evict.simps) (simp add: lru_lawsD(2) [OF assms] pop k)
  ultimately show ?case
    using over by (simp add: c ks)
qed


text \<open>With an LRU cache that behaves as documented, \<^verbatim>\<open>ensure_capacity\<close> always returns. It keeps the most
  recently used statements, as many as the capacity allows, and returns the \<^verbatim>\<open>Close\<close> messages for exactly
  the others, the least recently used one first.\<close>

theorem ensure_capacity_evicts_lru:
  assumes "lru_laws L keys"
  shows "\<exists>cs s'. ensure_capacity L s = Some (cs, s')
     \<and> sp_len L s' \<le> sp_capacity s
     \<and> keys (sp_cache s') = take (sp_capacity s) (keys (sp_cache s))
     \<and> map close_name cs = rev (drop (sp_capacity s) (keys (sp_cache s)))
     \<and> list_all (\<lambda>c. close_kind c = CHR ''S'') cs"
proof -
  obtain s' where "sp_evict L s [] = Some (map close_named (rev (drop (sp_capacity s) (keys (sp_cache s)))), s')"
      "keys (sp_cache s') = take (sp_capacity s) (keys (sp_cache s))"
    using sp_evict_terminates [OF assms, of s "[]"] by auto
  then show ?thesis
    by (simp add: ensure_capacity_def sp_len_def lru_lawsD(2) [OF assms] list.map_comp comp_def list_all_iff)
qed

theorem ensure_capacity_evicts_lru_witness:
  "\<exists>cs s'. ensure_capacity list_lru ((sp_new Extended)\<lparr>sp_cache := [''c'', ''b'', ''a'']\<rparr>) = Some (cs, s')
     \<and> map close_name cs = [''a'']"
  using ensure_capacity_evicts_lru [OF list_lru_laws, of "(sp_new Extended)\<lparr>sp_cache := [''c'', ''b'', ''a'']\<rparr>"]
  by (auto simp: sp_new_def)

section \<open>Replies reach the client in order\<close>

text \<open>An entry of the queue is either answered by the server or by the proxy.\<close>

datatype entry = Real execution_item | Sim message

abbreviation reply_code :: "message \<Rightarrow> execution_code" where
  "reply_code m \<equiv> execution_code_from (msg_code m)"

fun entry_item :: "entry \<Rightarrow> execution_item" where
  "entry_item (Real i) = i"
| "entry_item (Sim m) = Code (reply_code m)"

fun plan_sims :: "entry list \<Rightarrow> message list" where
  "plan_sims [] = []"
| "plan_sims (Sim m # p) = m # plan_sims p"
| "plan_sims (Real i # p) = plan_sims p"

fun plan_real :: "entry list \<Rightarrow> execution_code list" where
  "plan_real [] = []"
| "plan_real (Sim m # p) = plan_real p"
| "plan_real (Real i # p) = item_code i # plan_real p"

text \<open>No reply of the server that the client sees is of the kind of the next simulated reply.\<close>

fun plan_ok :: "entry list \<Rightarrow> bool" where
  "plan_ok [] = True"
| "plan_ok (Sim m # p) = plan_ok p"
| "plan_ok (Real i # p) =
     (item_tracked i \<and> plan_ok p
      \<and> (case (i, plan_sims p) of (Code c, m # _) \<Rightarrow> c \<noteq> reply_code m | _ \<Rightarrow> True))"

definition planned :: "'c server_prepared \<Rightarrow> entry list \<Rightarrow> bool" where
  "planned s plan \<longleftrightarrow> ps_queue (sp_state s) = map entry_item plan \<and> ps_simulated (sp_state s) = plan_sims plan"

text \<open>A reply outside of errors and \<^verbatim>\<open>COPY\<close>, whose row description can be decoded.\<close>

definition plain_reply :: "message \<Rightarrow> bool" where
  "plain_reply m \<longleftrightarrow>
     msg_code m \<noteq> CHR ''E'' \<and> msg_code m \<noteq> CHR ''G'' \<and> msg_code m \<noteq> CHR ''c''
     \<and> (msg_code m = CHR ''T'' \<longrightarrow> (\<exists>rd. rd_from_bytes (payload m) = Inr rd))"

definition as_read :: "bool \<Rightarrow> backend_key_data \<Rightarrow> message \<Rightarrow> message" where
  "as_read streaming key m = backend key (m\<lparr>msg_stream := streaming\<rparr>)"

lemma as_read_simps [simp]:
  "msg_code (as_read streaming key m) = msg_code m" "payload (as_read streaming key m) = payload m"
  "msg_code (backend key m) = msg_code m"
  by (simp_all add: as_read_def backend_def payload_def)

lemma sp_cleanup_plain:
  assumes "plain_reply m"
  shows "\<exists>g' s'. sp_cleanup L g s m = (Inr (), g', s') \<and> sp_state s' = sp_state s"
  using assms
  by (auto simp: plain_reply_def sp_cleanup_def sp_prepared_def Let_def split: list.splits sum.splits)

lemma sp_forward_plain:
  assumes "plain_reply m" "ps_action (sp_state s) (reply_code m) = (Inr a, st)"
  shows "\<exists>g' s'. sp_forward L g s m = (Inr (a = ActForward), g', s') \<and> sp_state s' = st"
proof -
  obtain g' s' where "sp_cleanup L g (s\<lparr>sp_state := st\<rparr>) m = (Inr (), g', s')" "sp_state s' = st"
    using sp_cleanup_plain [OF assms(1), of L g "s\<lparr>sp_state := st\<rparr>"] by auto
  with assms(2) show ?thesis
    by (auto simp: sp_forward_def sp_clear_def)
qed

lemma get_simulated_sim:
  assumes "planned s (Sim m # plan)"
  shows "\<exists>st. ps_get_simulated (sp_state s) = (Some m, st) \<and> ps_queue st = map entry_item plan
    \<and> ps_simulated st = plan_sims plan"
  using assms by (simp add: planned_def ps_get_simulated_def)

lemma get_simulated_real:
  assumes "planned s (Real i # plan)" "plan_ok (Real i # plan)"
  shows "ps_get_simulated (sp_state s) = (None, sp_state s)"
  using assms by (cases i; cases "plan_sims plan") (auto simp: planned_def ps_get_simulated_def)

lemma srv_read_sim:
  assumes "planned s (Sim m # plan)"
  shows "\<exists>s'. srv_read L str key g s incoming = Some (Inr (backend key m), incoming, g, s') \<and> planned s' plan"
  using get_simulated_sim [OF assms] by (subst srv_read.simps) (auto simp: planned_def)

lemma srv_read_real:
  assumes "planned s (Real i # plan)" "plan_ok (Real i # plan)" "plain_reply m" "reply_code m = item_code i"
  shows "\<exists>g' s'. planned s' plan \<and>
    srv_read L str key g s (m # rest) =
      (case i of Code _ \<Rightarrow> Some (Inr (as_read str key m), rest, g', s')
       | Ignore _ \<Rightarrow> srv_read L str key g' s' rest)"
proof -
  have q: "ps_queue (sp_state s) = i # map entry_item plan" and i: "item_tracked i"
    using assms(1,2) by (simp_all add: planned_def)
  obtain r st where act: "ps_action (sp_state s) (item_code i) = (r, st)" by fastforce
  have r: "r = Inr (item_action i)" and st: "ps_queue st = map entry_item plan"
    using ps_action_front [OF q i] act by auto
  have sim: "ps_simulated st = plan_sims plan"
    using ps_simulated_action [of "sp_state s" "item_code i"] act assms(1) by (simp add: planned_def)
  have "plain_reply (as_read str key m)"
    using assms(3) by (simp add: plain_reply_def)
  then obtain g' s' where f: "sp_forward L g s (as_read str key m) = (Inr (item_action i = ActForward), g', s')"
      "sp_state s' = st"
    using sp_forward_plain [of "as_read str key m" s "item_action i" st L g] act r assms(4) by auto
  have "planned s' plan"
    using f(2) st sim by (simp add: planned_def)
  moreover have "srv_read L str key g s (m # rest) =
      (case i of Code _ \<Rightarrow> Some (Inr (as_read str key m), rest, g', s')
       | Ignore _ \<Rightarrow> srv_read L str key g' s' rest)"
    using get_simulated_real [OF assms(1,2)] f(1)
    by (subst srv_read.simps) (simp add: as_read_def item_action_def split: execution_item.splits)
  ultimately show ?thesis by blast
qed

text \<open>A client reads \<open>n\<close> replies.\<close>

fun read_n ::
    "'c lru_ops \<Rightarrow> bool \<Rightarrow> backend_key_data \<Rightarrow> row_description global_cache \<Rightarrow> 'c server_prepared \<Rightarrow> message list \<Rightarrow>
     nat \<Rightarrow> (message list \<times> message list \<times> row_description global_cache \<times> 'c server_prepared) option" where
  "read_n L str key g s incoming 0 = Some ([], incoming, g, s)"
| "read_n L str key g s incoming (Suc n) =
     (case srv_read L str key g s incoming of
        Some (Inr m, incoming, g, s) \<Rightarrow>
          map_option (\<lambda>(ms, r). (m # ms, r)) (read_n L str key g s incoming n)
      | _ \<Rightarrow> None)"

lemma read_n_plan:
  "planned s plan \<Longrightarrow> plan_ok plan \<Longrightarrow> list_all plain_reply replies \<Longrightarrow> map reply_code replies = plan_real plan \<Longrightarrow>
   \<exists>got rest g' s' plan'.
     read_n L str key g s replies (length (visible (map entry_item plan))) = Some (got, rest, g', s')
     \<and> map reply_code got = visible (map entry_item plan)
     \<and> planned s' plan' \<and> suffix plan' plan \<and> visible (map entry_item plan') = []
     \<and> map reply_code rest = plan_real plan'"
proof (induction plan arbitrary: s g replies)
  case Nil
  then show ?case by (auto simp: planned_def)
next
  case (Cons e plan)
  show ?case
  proof (cases e)
    case (Sim m)
    obtain s1 where r: "srv_read L str key g s replies = Some (Inr (backend key m), replies, g, s1)" "planned s1 plan"
      using srv_read_sim Cons.prems(1) Sim by blast
    from Cons.IH [OF r(2), of replies g] Cons.prems Sim r(1) show ?thesis
      by (fastforce intro: suffix_ConsI)
  next
    case (Real i)
    obtain m rest where replies: "replies = m # rest" "plain_reply m" "reply_code m = item_code i"
      using Cons.prems(3,4) Real by (cases replies) auto
    obtain g1 s1 where r: "planned s1 plan" "srv_read L str key g s replies =
      (case i of Code _ \<Rightarrow> Some (Inr (as_read str key m), rest, g1, s1)
       | Ignore _ \<Rightarrow> srv_read L str key g1 s1 rest)"
      using srv_read_real [of s i plan m L str key g rest] Cons.prems(1,2) Real replies by blast
    have IH: "\<exists>got rest' g' s' plan'.
       read_n L str key g1 s1 rest (length (visible (map entry_item plan))) = Some (got, rest', g', s')
       \<and> map reply_code got = visible (map entry_item plan)
       \<and> planned s' plan' \<and> suffix plan' plan \<and> visible (map entry_item plan') = []
       \<and> map reply_code rest' = plan_real plan'"
      using Cons.prems(2-4) Real replies by (intro Cons.IH r(1)) auto
    show ?thesis
    proof (cases i)
      case (Code c)
      with IH r(2) Real replies show ?thesis
        by (fastforce intro: suffix_ConsI)
    next
      case (Ignore c)
      show ?thesis
      proof (cases "length (visible (map entry_item plan))")
        case 0
        then have "visible (map entry_item plan) = []" by simp
        with Cons.prems(1,4) Real Ignore show ?thesis
          by (intro exI [of _ "[]"] exI [of _ replies] exI [of _ g] exI [of _ s] exI [of _ "e # plan"]) auto
      next
        case (Suc n)
        then have "read_n L str key g s replies (length (visible (map entry_item plan)))
          = read_n L str key g1 s1 rest (length (visible (map entry_item plan)))"
          using r(2) Ignore by simp
        with IH Real Ignore show ?thesis
          by (fastforce intro: suffix_ConsI)
      qed
    qed
  qed
qed

section \<open>A whole pipeline\<close>

fun send_all ::
    "'c lru_ops \<Rightarrow> 'rd global_cache \<Rightarrow> 'c server_prepared \<Rightarrow> protocol_message list \<Rightarrow>
     (backend_error + protocol_message list) \<times> 'c server_prepared" where
  "send_all L g s [] = (Inr [], s)"
| "send_all L g s (m # ms) =
     (case send_one L g s m of
        (Inl e, s) \<Rightarrow> (Inl e, s)
      | (Inr out, s) \<Rightarrow> map_prod (map_sum id (\<lambda>outs. out @ outs)) id (send_all L g s ms))"

definition entries :: "handle_result \<Rightarrow> execution_item list \<Rightarrow> message list \<Rightarrow> entry list" where
  "entries r new sims = (if r = HDrop then map Sim sims else map Real new)"

definition real_tracked :: "entry list \<Rightarrow> bool" where
  "real_tracked plan \<longleftrightarrow> (\<forall>i. Real i \<in> set plan \<longrightarrow> item_tracked i)"

lemma visible_append [simp]: "visible (a @ b) = visible a @ visible b"
  by (simp add: visible_def)

lemma plan_append [simp]:
  "plan_sims (p @ q) = plan_sims p @ plan_sims q" "plan_real (p @ q) = plan_real p @ plan_real q"
  by (induction p rule: plan_sims.induct) auto

lemma plan_maps [simp]:
  "plan_sims (map Sim ms) = ms" "plan_real (map Sim ms) = []"
  "plan_sims (map Real new) = []" "plan_real (map Real new) = map item_code new"
  by (induction ms, auto) (induction new, auto)+

lemma pg_replies_tracked: "c \<in> set (pg_replies m) \<Longrightarrow> c \<noteq> Untracked \<and> c \<noteq> ErrorCode"
  by (cases m) (auto split: if_splits)

lemma send_one_plan:
  assumes "planned s plan" "pipelined m" "send_one L g s m = (Inr out, s')"
  shows "\<exists>p. planned s' (plan @ p) \<and> visible (map entry_item p) = client_replies m
    \<and> plan_real p = concat (map pg_replies out) \<and> real_tracked p"
proof -
  obtain r where h: "sp_handle L g s m = (Inr r, s')" and out: "out = sent r m"
    using assms(3) by (auto simp: send_one_def split: prod.splits sum.splits)
  obtain new sims where new: "ps_queue (sp_state s') = ps_queue (sp_state s) @ new"
      "ps_simulated (sp_state s') = ps_simulated (sp_state s) @ sims" "visible new = client_replies m"
      "if r = HDrop then new = map (\<lambda>m. Code (reply_code m)) sims
       else sims = [] \<and> map item_code new = concat (map pg_replies (sent r m))"
    using sp_handle_registers [OF assms(2) h] unfolding registers_def by blast
  have items: "map entry_item (entries r new sims) = new"
    using new(4) by (simp add: entries_def comp_def split: if_splits)
  have real: "plan_real (entries r new sims) = concat (map pg_replies out)"
    using new(4) by (simp add: entries_def out sent_def split: if_splits handle_result.splits)
  have "item_tracked i" if "Real i \<in> set (entries r new sims)" for i
  proof -
    have "item_code i \<in> set (map item_code new)" "r \<noteq> HDrop"
      using that by (auto simp: entries_def split: if_splits)
    then have "item_code i \<in> set (concat (map pg_replies (sent r m)))"
      using new(4) by simp
    then show ?thesis
      by (auto simp: item_tracked_def dest: pg_replies_tracked)
  qed
  then have "real_tracked (entries r new sims)"
    by (simp add: real_tracked_def)
  moreover have "planned s' (plan @ entries r new sims)"
    using assms(1) new items by (auto simp: planned_def entries_def split: if_splits)
  ultimately show ?thesis
    using items real new(3) by (intro exI [of _ "entries r new sims"]) simp
qed

lemma send_all_plan:
  "planned s plan \<Longrightarrow> real_tracked plan \<Longrightarrow> list_all pipelined ms \<Longrightarrow> send_all L g s ms = (Inr out, s') \<Longrightarrow>
   \<exists>p. planned s' (plan @ p) \<and> visible (map entry_item p) = concat (map client_replies ms)
     \<and> plan_real p = concat (map pg_replies out) \<and> real_tracked (plan @ p)"
proof (induction ms arbitrary: s plan out)
  case Nil
  then show ?case by (intro exI [of _ "[]"]) auto
next
  case (Cons m ms)
  obtain r1 s1 where one: "send_one L g s m = (r1, s1)" by fastforce
  then obtain o1 where r1: "r1 = Inr o1"
    using Cons.prems(4) by (cases r1) auto
  obtain r2 s2 where all: "send_all L g s1 ms = (r2, s2)" by fastforce
  then obtain o2 where r2: "r2 = Inr o2" "out = o1 @ o2" "s2 = s'"
    using Cons.prems(4) one r1 by (cases r2) auto
  obtain p1 where p1: "planned s1 (plan @ p1)" "visible (map entry_item p1) = client_replies m"
      "plan_real p1 = concat (map pg_replies o1)" "real_tracked p1"
    using send_one_plan [OF Cons.prems(1) _ one [unfolded r1]] Cons.prems(3) by auto
  have "real_tracked (plan @ p1)"
    using Cons.prems(2) p1(4) by (auto simp: real_tracked_def)
  from Cons.IH [OF p1(1) this _ all [unfolded r2]] Cons.prems(3)
  obtain p2 where "planned s' ((plan @ p1) @ p2)" "visible (map entry_item p2) = concat (map client_replies ms)"
      "plan_real p2 = concat (map pg_replies o2)" "real_tracked ((plan @ p1) @ p2)"
    by auto
  with p1(2,3) r2(2) show ?case
    by (intro exI [of _ "p1 @ p2"]) simp
qed

text \<open>The condition under which replies cannot overtake each other: no reply of the server that the client sees
  is of the same kind as a simulated one.\<close>

definition unmixed :: "protocol_state \<Rightarrow> bool" where
  "unmixed st \<longleftrightarrow>
     (\<forall>m\<in>set (ps_simulated st).
        count_list (visible (ps_queue st)) (reply_code m) = count_list (map reply_code (ps_simulated st)) (reply_code m))"

definition real_codes :: "entry list \<Rightarrow> execution_code list" where
  "real_codes plan = visible (concat (map (\<lambda>e. case e of Real i \<Rightarrow> [i] | Sim _ \<Rightarrow> []) plan))"

lemma count_visible_plan:
  "count_list (visible (map entry_item plan)) c = count_list (map reply_code (plan_sims plan)) c + count_list (real_codes plan) c"
proof (induction plan)
  case (Cons e plan)
  then show ?case
    by (cases e; cases "entry_item e") (auto simp: real_codes_def)
qed (simp add: real_codes_def)

lemma plan_ok_unmixed:
  assumes "real_tracked plan" "\<forall>m\<in>set (plan_sims plan). reply_code m \<notin> set (real_codes plan)"
  shows "plan_ok plan"
  using assms
proof (induction plan)
  case (Cons e plan)
  have tr: "real_tracked plan"
    using Cons.prems(1) by (auto simp: real_tracked_def)
  show ?case
  proof (cases e)
    case (Sim m)
    with Cons tr show ?thesis by (auto simp: real_codes_def)
  next
    case (Real i)
    then have "item_tracked i"
      using Cons.prems(1) by (auto simp: real_tracked_def)
    with Real Cons tr show ?thesis
      by (cases i) (auto simp: real_codes_def split: list.split)
  qed
qed simp

lemma plan_ok_from_state:
  assumes "planned s plan" "real_tracked plan" "unmixed (sp_state s)"
  shows "plan_ok plan"
proof (rule plan_ok_unmixed [OF assms(2)], rule ballI)
  fix m assume "m \<in> set (plan_sims plan)"
  with assms(1,3) count_visible_plan [of plan "reply_code m"] have "count_list (real_codes plan) (reply_code m) = 0"
    by (simp add: unmixed_def planned_def)
  then show "reply_code m \<notin> set (real_codes plan)"
    by (simp add: count_list_0_iff)
qed

lemma visible_suffix_empty:
  assumes "suffix p plan" "visible (map entry_item p) = []" "visible (map entry_item plan) \<noteq> []"
    and "last (map entry_item plan) = Code c"
  shows "p = []"
proof (rule ccontr)
  assume "p \<noteq> []"
  then have "last (map entry_item p) = Code c"
    using assms(1,4) by (metis last_appendR last_map suffix_def suffix_bot.extremum_uniqueI map_is_Nil_conv)
  with \<open>p \<noteq> []\<close> have "map entry_item p = butlast (map entry_item p) @ [Code c]"
    by (metis append_butlast_last_id map_is_Nil_conv)
  with assms(2) show False
    by (metis visible_append visible_simps(1,2) append_is_Nil_conv not_Cons_self2)
qed

lemma send_all_sync:
  "send_all L g s (ms @ [PSync]) = (Inr out, s') \<Longrightarrow> ms \<noteq> [] \<or> ps_queue (sp_state s) = [] \<Longrightarrow>
   ps_queue (sp_state s') \<noteq> [] \<and> last (ps_queue (sp_state s')) = Code ReadyForQuery"
proof (induction ms arbitrary: s out)
  case Nil
  then show ?case by (auto simp: send_one_def sp_handle_def sent_def)
next
  case (Cons m ms)
  obtain r1 s1 where one: "send_one L g s m = (r1, s1)" by fastforce
  obtain r2 s2 where all: "send_all L g s1 (ms @ [PSync]) = (r2, s2)" by fastforce
  obtain o1 o2 where "r1 = Inr o1" "r2 = Inr o2" "s2 = s'"
    using Cons.prems(1) one all by (cases r1; cases r2) auto
  with Cons.IH [of s1 o2] all show ?case
    by (cases ms) (auto simp: send_one_def sp_handle_def sent_def)
qed


abbreviation reply :: "char \<Rightarrow> message" where
  "reply c \<equiv> new_message c (put_i32 4)"

definition example_key :: backend_key_data where
  "example_key = \<lparr>pid = 1, secret = ''k''\<rparr>"


lemmas run_defs =
  send_one_def sp_handle_def handle_bind_def handle_parse_def handle_close_def bind_anonymous_def bind_default_def
  sp_contains_def list_lru_def sp_new_def sent_def ps_default_def srv_read.simps sp_forward_def sp_cleanup_def
  sp_prepared_def ps_get_simulated_def ps_action_def ps_pop_def ps_error_def ps_add_def ps_add_simulated_def
  execution_code_from_def new_message_def backend_def close_complete_message_def close_anonymous_def
  sp_has_more_messages_def ps_has_more_messages_def ps_is_empty_def ps_len_def parse_anonymous_def parse_name_def
  parse_named_def Let_def


text \<open>A statement can be recorded as prepared although the server rejected it. The \<^verbatim>\<open>CommandComplete\<close> of an
  \<^verbatim>\<open>Execute\<close> that comes before the \<^verbatim>\<open>Parse\<close> in the pipeline takes the pending statement off the list; the
  error that follows finds nothing to take back, and the connection goes on with a statement in its
  cache that the server does not have.\<close>

theorem failed_parse_recorded_as_prepared:
  "let ms = [PBind bind_default, PExecute execute_new, PParse (parse_named ''s'' ''SELEC''), PSync];
       (out, s1) = send_all list_lru example_cache (sp_new Extended) ms;
       replies = [reply CHR ''2'', reply CHR ''C'', reply CHR ''E'', reply CHR ''Z'']
   in (case read_n list_lru False example_key example_cache s1 replies 4 of
         Some (got, rest, _, s2) \<Rightarrow>
           map msg_code got = ''2CEZ'' \<and> sp_done s2 \<and> fst (sp_contains list_lru s2 ''s'')
       | None \<Rightarrow> False)"
  by (simp add: run_defs sp_done_def ps_done_def numeral_eq_Suc)

end
