(* ===== verification/PoolTaken.thy ===== *)
theory PoolTaken
  imports Messages
begin

text \<open>
  \<^verbatim>\<open>pgdog/src/backend/pool/taken.rs\<close> and \<^verbatim>\<open>mapping.rs\<close>: which client holds which server connection of a
  pool. Three hash maps are kept in step; the counter that links two of them is a machine word and
  wraps around. \<^verbatim>\<open>pgdog/src/backend/pool/error.rs\<close> is the error type of the pool.
\<close>

section \<open>Data\<close>

datatype pool_error =
    CheckoutTimeout
  | ConnectTimeout
  | ReplicaCheckoutTimeout
  | ServerError
  | ManualBan
  | NoReplicas
  | NoShard nat
  | Banned
  | HealthcheckTimeout
  | HealthcheckError
  | PrimaryLsnQueryFailed
  | ReplicaLsnQueryFailed
  | Offline
  | NoPrimary
  | NoDatabases
  | NullBytes
  | AllReplicasDown
  | RouterError
  | PubSubDisabled
  | PoolNoHealthTarget nat
  | PoolUnhealthy
  | UntrackedConnCheckin backend_key_data
  | MappingMissing u64
  | FastShutdown
  | ReplicaLagError

fun is_retryable :: "pool_error \<Rightarrow> bool" where
  "is_retryable NullBytes = False"
| "is_retryable (NoShard _) = False"
| "is_retryable NoDatabases = False"
| "is_retryable PubSubDisabled = False"
| "is_retryable (PoolNoHealthTarget _) = False"
| "is_retryable (MappingMissing _) = False"
| "is_retryable ManualBan = False"
| "is_retryable (UntrackedConnCheckin _) = False"
| "is_retryable FastShutdown = False"
| "is_retryable _ = True"

record mapping =
  map_client :: backend_key_data
  map_server :: backend_key_data

record taken =
  tk_taken :: "(u64, mapping) hmap"
  tk_server_client :: "(backend_key_data, u64) hmap"
  tk_client_server :: "(backend_key_data, backend_key_data) hmap"
  tk_counter :: u64

definition tk_default :: taken where
  "tk_default = \<lparr>tk_taken = [], tk_server_client = [], tk_client_server = [], tk_counter = 0\<rparr>"

section \<open>Operations\<close>

text \<open>\<^verbatim>\<open>wrapping_add\<close> is addition on words.\<close>

definition tk_take :: "taken \<Rightarrow> mapping \<Rightarrow> taken" where
  "tk_take t m =
     \<lparr>tk_taken = hm_insert (tk_counter t) m (tk_taken t),
      tk_server_client = hm_insert (map_server m) (tk_counter t) (tk_server_client t),
      tk_client_server = hm_insert (map_client m) (map_server m) (tk_client_server t),
      tk_counter = tk_counter t + 1\<rparr>"

definition tk_check_in :: "taken \<Rightarrow> backend_key_data \<Rightarrow> (pool_error + unit) \<times> taken" where
  "tk_check_in t server =
     (case hm_get (tk_server_client t) server of
        None \<Rightarrow> (Inl (UntrackedConnCheckin server), t)
      | Some counter \<Rightarrow>
          let t1 = t\<lparr>tk_server_client := hm_remove server (tk_server_client t)\<rparr> in
          (case hm_get (tk_taken t1) counter of
             None \<Rightarrow> (Inl (MappingMissing counter), t1)
           | Some m \<Rightarrow>
               (Inr (), t1\<lparr>tk_taken := hm_remove counter (tk_taken t1),
                           tk_client_server := hm_remove (map_client m) (tk_client_server t1)\<rparr>)))"

definition tk_len :: "taken \<Rightarrow> nat" where
  "tk_len t = length (tk_taken t)"

definition tk_server :: "taken \<Rightarrow> backend_key_data \<Rightarrow> backend_key_data option" where
  "tk_server t client = hm_get (tk_client_server t) client"

section \<open>The invariant\<close>

text \<open>\<open>tk_inv t n\<close>: the maps agree, after \<open>n\<close> checkouts since the counter was zero.\<close>

definition tk_inv :: "taken \<Rightarrow> nat \<Rightarrow> bool" where
  "tk_inv t n \<longleftrightarrow>
     hm_ok (tk_taken t) \<and> hm_ok (tk_server_client t) \<and> hm_ok (tk_client_server t)
     \<and> tk_counter t = of_nat n
     \<and> (\<forall>c m. hm_get (tk_taken t) c = Some m \<longrightarrow> unat c < n \<and> hm_get (tk_server_client t) (map_server m) = Some c)
     \<and> (\<forall>s c. hm_get (tk_server_client t) s = Some c \<longrightarrow> (\<exists>m. hm_get (tk_taken t) c = Some m \<and> map_server m = s))
     \<and> (\<forall>cl s. hm_get (tk_client_server t) cl = Some s \<longrightarrow>
          (\<exists>c. hm_get (tk_taken t) c = Some \<lparr>map_client = cl, map_server = s\<rparr>))"

definition is_taken :: "taken \<Rightarrow> backend_key_data \<Rightarrow> bool" where
  "is_taken t server \<longleftrightarrow> hm_get (tk_server_client t) server \<noteq> None"

lemma tk_inv_ok: "tk_inv t n \<Longrightarrow> hm_ok (tk_taken t) \<and> hm_ok (tk_server_client t) \<and> hm_ok (tk_client_server t)"
  by (simp add: tk_inv_def)

lemma tk_inv_taken:
  "tk_inv t n \<Longrightarrow> hm_get (tk_taken t) c = Some m \<Longrightarrow> unat c < n \<and> hm_get (tk_server_client t) (map_server m) = Some c"
  by (simp add: tk_inv_def)

lemma tk_inv_server:
  "tk_inv t n \<Longrightarrow> hm_get (tk_server_client t) s = Some c \<Longrightarrow> \<exists>m. hm_get (tk_taken t) c = Some m \<and> map_server m = s"
  by (simp add: tk_inv_def)

lemma tk_inv_client:
  "tk_inv t n \<Longrightarrow> hm_get (tk_client_server t) cl = Some s \<Longrightarrow>
   \<exists>c. hm_get (tk_taken t) c = Some \<lparr>map_client = cl, map_server = s\<rparr>"
  by (simp add: tk_inv_def)

lemma tk_inv_default: "tk_inv tk_default 0"
  by (simp add: tk_inv_def tk_default_def)

lemma tk_counter_fresh:
  assumes "tk_inv t n" "n < 2 ^ 64"
  shows "hm_get (tk_taken t) (tk_counter t) = None"
proof (rule ccontr)
  assume "hm_get (tk_taken t) (tk_counter t) \<noteq> None"
  then obtain m where "hm_get (tk_taken t) (tk_counter t) = Some m" by blast
  with assms(1) have "unat (tk_counter t) < n" "tk_counter t = of_nat n"
    unfolding tk_inv_def by blast+
  with assms(2) show False by (simp add: unat_of_nat_u64)
qed

lemma tk_inv_take:
  assumes "tk_inv t n" "n < 2 ^ 64" "\<not> is_taken t (map_server m)"
  shows "tk_inv (tk_take t m) (Suc n)"
proof -
  have c: "tk_counter t = of_nat n" "unat (tk_counter t) = n"
    using assms(1,2) by (auto simp: tk_inv_def unat_of_nat_u64)
  note fresh = tk_counter_fresh [OF assms(1,2)]
  have other: "map_server m' \<noteq> map_server m" if "hm_get (tk_taken t) c = Some m'" for c m'
    using tk_inv_taken [OF assms(1) that] assms(3) by (auto simp: is_taken_def)
  let ?T = "(hm_get (tk_taken t))(tk_counter t \<mapsto> m)"
    and ?S = "(hm_get (tk_server_client t))(map_server m \<mapsto> tk_counter t)"
    and ?C = "(hm_get (tk_client_server t))(map_client m \<mapsto> map_server m)"
  have client: "\<forall>cl s. ?C cl = Some s \<longrightarrow> (\<exists>c. ?T c = Some \<lparr>map_client = cl, map_server = s\<rparr>)"
  proof (intro allI impI)
    fix cl s assume h: "?C cl = Some s"
    show "\<exists>c. ?T c = Some \<lparr>map_client = cl, map_server = s\<rparr>"
    proof (cases "cl = map_client m")
      case True
      with h show ?thesis by (intro exI [of _ "tk_counter t"]) simp
    next
      case False
      then obtain c where "hm_get (tk_taken t) c = Some \<lparr>map_client = cl, map_server = s\<rparr>"
        using tk_inv_client [OF assms(1), of cl s] h by auto
      with fresh show ?thesis by (intro exI [of _ c]) auto
    qed
  qed
  have taken: "\<forall>c m'. ?T c = Some m' \<longrightarrow> unat c < Suc n \<and> ?S (map_server m') = Some c"
    using tk_inv_taken [OF assms(1)] other c(2) by (fastforce split: if_splits)
  have server: "\<forall>s c. ?S s = Some c \<longrightarrow> (\<exists>m'. ?T c = Some m' \<and> map_server m' = s)"
  proof (intro allI impI)
    fix s c assume h: "?S s = Some c"
    show "\<exists>m'. ?T c = Some m' \<and> map_server m' = s"
    proof (cases "s = map_server m")
      case False
      then obtain m' where "hm_get (tk_taken t) c = Some m'" "map_server m' = s"
        using tk_inv_server [OF assms(1), of s c] h by auto
      with fresh show ?thesis by (intro exI [of _ m']) auto
    qed (use h in auto)
  qed
  have sel: "hm_get (tk_taken (tk_take t m)) = ?T" "hm_get (tk_server_client (tk_take t m)) = ?S"
      "hm_get (tk_client_server (tk_take t m)) = ?C" "tk_counter (tk_take t m) = of_nat (Suc n)"
      "hm_ok (tk_taken (tk_take t m)) \<and> hm_ok (tk_server_client (tk_take t m)) \<and> hm_ok (tk_client_server (tk_take t m))"
    using tk_inv_ok [OF assms(1)] c(1) by (simp_all add: tk_take_def)
  show ?thesis
    unfolding tk_inv_def sel(1-4) using sel(5) client taken server by blast
qed

lemma tk_check_in_taken:
  assumes "tk_inv t n" "hm_get (tk_server_client t) s = Some c"
  obtains m where "hm_get (tk_taken t) c = Some m" "map_server m = s"
    "tk_check_in t s = (Inr (), t\<lparr>tk_server_client := hm_remove s (tk_server_client t),
        tk_taken := hm_remove c (tk_taken t), tk_client_server := hm_remove (map_client m) (tk_client_server t)\<rparr>)"
proof -
  obtain m where "hm_get (tk_taken t) c = Some m" "map_server m = s"
    using assms unfolding tk_inv_def by blast
  with assms(2) show ?thesis by (intro that) (simp_all add: tk_check_in_def)
qed

lemma tk_inv_check_in:
  assumes "tk_inv t n"
  shows "tk_inv (snd (tk_check_in t s)) n"
proof (cases "hm_get (tk_server_client t) s")
  case None
  with assms show ?thesis by (simp add: tk_check_in_def)
next
  case (Some c)
  obtain m where m: "hm_get (tk_taken t) c = Some m" "map_server m = s" and
    r: "tk_check_in t s = (Inr (), t\<lparr>tk_server_client := hm_remove s (tk_server_client t),
        tk_taken := hm_remove c (tk_taken t), tk_client_server := hm_remove (map_client m) (tk_client_server t)\<rparr>)"
    using assms Some by (rule tk_check_in_taken)
  have uniq: "map_server m' \<noteq> s" if "hm_get (tk_taken t) c' = Some m'" "c' \<noteq> c" for c' m'
    using assms Some that unfolding tk_inv_def by fastforce
  have cs: "\<exists>c'. ((hm_get (tk_taken t))(c := None)) c' = Some \<lparr>map_client = cl, map_server = sv\<rparr>"
    if h: "hm_get (tk_client_server t) cl = Some sv" "cl \<noteq> map_client m" for cl sv
  proof -
    obtain c' where "hm_get (tk_taken t) c' = Some \<lparr>map_client = cl, map_server = sv\<rparr>"
      using tk_inv_client [OF assms h(1)] by blast
    with m(1) h(2) show ?thesis by (intro exI [of _ c']) auto
  qed
  have sc: "\<exists>m'. ((hm_get (tk_taken t))(c := None)) c' = Some m' \<and> map_server m' = sv"
    if h: "hm_get (tk_server_client t) sv = Some c'" "sv \<noteq> s" for sv c'
  proof -
    obtain m' where "hm_get (tk_taken t) c' = Some m'" "map_server m' = sv"
      using tk_inv_server [OF assms h(1)] by blast
    with m h(2) show ?thesis by (intro exI [of _ m']) auto
  qed
  show ?thesis
    using assms uniq cs sc unfolding tk_inv_def r by (simp split: if_splits)
qed

lemma tk_len_take: "tk_inv t n \<Longrightarrow> n < 2 ^ 64 \<Longrightarrow> tk_len (tk_take t m) = Suc (tk_len t)"
  using tk_counter_fresh [of t n] by (simp add: tk_len_def tk_take_def length_hm_insert tk_inv_def)

lemma tk_check_in_effect:
  assumes "tk_inv t n" "is_taken t s"
  shows "fst (tk_check_in t s) = Inr ()" "Suc (tk_len (snd (tk_check_in t s))) = tk_len t"
    "is_taken (snd (tk_check_in t s)) s' \<longleftrightarrow> is_taken t s' \<and> s' \<noteq> s"
proof -
  obtain c where c: "hm_get (tk_server_client t) s = Some c" using assms(2) by (auto simp: is_taken_def)
  obtain m where m: "hm_get (tk_taken t) c = Some m" and
    r: "tk_check_in t s = (Inr (), t\<lparr>tk_server_client := hm_remove s (tk_server_client t),
        tk_taken := hm_remove c (tk_taken t), tk_client_server := hm_remove (map_client m) (tk_client_server t)\<rparr>)"
    using assms(1) c by (rule tk_check_in_taken)
  show "fst (tk_check_in t s) = Inr ()" "is_taken (snd (tk_check_in t s)) s' \<longleftrightarrow> is_taken t s' \<and> s' \<noteq> s"
    by (simp_all add: r is_taken_def)
  show "Suc (tk_len (snd (tk_check_in t s))) = tk_len t"
    using assms(1) m by (simp add: r tk_len_def length_hm_remove tk_inv_def)
qed

lemma is_taken_take [simp]: "is_taken (tk_take t m) s \<longleftrightarrow> s = map_server m \<or> is_taken t s"
  by (simp add: tk_take_def is_taken_def)

lemma tk_len_servers:
  assumes "tk_inv t n"
  shows "tk_len t = card {s. is_taken t s}"
proof -
  have "bij_betw (\<lambda>c. map_server (the (hm_get (tk_taken t) c))) (dom (hm_get (tk_taken t))) {s. is_taken t s}"
  proof (rule bij_betwI')
    fix c c' assume "c \<in> dom (hm_get (tk_taken t))" "c' \<in> dom (hm_get (tk_taken t))"
    then show "(map_server (the (hm_get (tk_taken t) c)) = map_server (the (hm_get (tk_taken t) c'))) = (c = c')"
      using tk_inv_taken [OF assms] by (metis domD option.sel)
  next
    fix c assume "c \<in> dom (hm_get (tk_taken t))"
    then show "map_server (the (hm_get (tk_taken t) c)) \<in> {s. is_taken t s}"
      using tk_inv_taken [OF assms, of c] by (fastforce simp: is_taken_def)
  next
    fix s assume "s \<in> {s. is_taken t s}"
    then show "\<exists>c\<in>dom (hm_get (tk_taken t)). s = map_server (the (hm_get (tk_taken t) c))"
      using tk_inv_server [OF assms, of s] by (auto simp: dom_def is_taken_def) (metis option.sel)
  qed
  then have "card (dom (hm_get (tk_taken t))) = card {s. is_taken t s}"
    by (rule bij_betw_same_card)
  moreover have "card (dom (hm_get (tk_taken t))) = length (tk_taken t)"
    using assms distinct_card [of "map fst (tk_taken t)"]
    by (simp add: tk_inv_def hm_ok_def hm_get_map_of dom_map_of_conv_image_fst)
  ultimately show ?thesis by (simp add: tk_len_def)
qed

end
