(* ===== verification/PoolInner.thy ===== *)
theory PoolInner
  imports PoolTaken
begin

text \<open>
  \<^verbatim>\<open>pgdog/src/backend/pool/inner.rs\<close>, the connection pool behind its mutex, with the operations of
  \<^verbatim>\<open>pool_impl.rs\<close> and \<^verbatim>\<open>waiting.rs\<close> that run under the lock. Times are milliseconds; \<^verbatim>\<open>duration_since\<close>
  saturates at zero. A connection has the fields of \<^verbatim>\<open>Server\<close> the pool reads. A waiting client is
  reached through a oneshot channel of the runtime: whether its receiver is still there when the pool
  sends is the parameter \<open>tx_open\<close>. Pools refer to each other by their id (\<open>pi_moved\<close>), so check-in works on a
  store of pools.
\<close>

section \<open>Data\<close>

datatype conn_state =
    StIdle | StActive | StIdleInTransaction | StTransactionError | StWaiting | StDisconnected | StError
  | StParseComplete | StPreparedStatementError | StReceivingData | StCopyMode | StForceClose

datatype disconnect_reason =
    DIdle | DOld | DError | DOffline | DForceClose | DPaused | DReplicationMode | DOutOfSync | DUnhealthy
  | DHealthcheck | DPubSub | DOther

datatype connect_reason = CBelowMin | CClientWaiting | CReplication | CPubSub | CProbe | CHealthcheck | COther

record server =
  srv_id :: backend_key_data
  srv_state :: conn_state
  srv_created_at :: nat
  srv_last_used :: nat
  srv_max_age :: "nat option"
  srv_io_in_progress :: bool
  srv_replication_mode :: bool
  srv_re_synced :: bool
  srv_disconnect_reason :: "disconnect_reason option"
  srv_pool_id :: nat

definition srv_error :: "server \<Rightarrow> bool" where
  "srv_error s \<longleftrightarrow> srv_state s = StError"

definition srv_can_check_in :: "server \<Rightarrow> bool" where
  "srv_can_check_in s \<longleftrightarrow> srv_state s = StIdle"

definition srv_force_close :: "server \<Rightarrow> bool" where
  "srv_force_close s \<longleftrightarrow> srv_state s = StForceClose \<or> srv_io_in_progress s"

definition srv_age :: "server \<Rightarrow> nat \<Rightarrow> nat" where
  "srv_age s now = now - srv_created_at s"

definition srv_idle_for :: "server \<Rightarrow> nat \<Rightarrow> nat" where
  "srv_idle_for s now = now - srv_last_used s"

definition effective_max_age :: "server \<Rightarrow> nat \<Rightarrow> nat" where
  "effective_max_age s base = (case srv_max_age s of Some a \<Rightarrow> a | None \<Rightarrow> base)"

definition srv_disconnect :: "server \<Rightarrow> disconnect_reason \<Rightarrow> server" where
  "srv_disconnect s r = (if srv_disconnect_reason s = None then s\<lparr>srv_disconnect_reason := Some r\<rparr> else s)"

record request =
  req_id :: backend_key_data
  req_created_at :: nat
  req_read :: bool

text \<open>A waiter is its request and the channel it listens on.\<close>

record waiter =
  wt_request :: request
  wt_channel :: nat

text \<open>Counters by name; adding two sets of counters adds each of them.\<close>

type_synonym counts = "string \<Rightarrow> nat"

definition counts_add :: "counts \<Rightarrow> counts \<Rightarrow> counts" where
  "counts_add a b = (\<lambda>f. a f + b f)"

record pool_config =
  cfg_min :: nat
  cfg_max :: nat
  cfg_max_age :: nat
  cfg_idle_timeout :: nat

record inner =
  pi_idle :: "server list"
  pi_taken :: taken
  pi_config :: pool_config
  pi_waiting :: "waiter list"
  pi_online :: bool
  pi_paused :: bool
  pi_out_of_sync :: nat
  pi_re_synced :: nat
  pi_force_close :: nat
  pi_errors :: nat
  pi_counts :: counts
  pi_moved :: "nat option"
  pi_id :: nat

definition pi_new :: "pool_config \<Rightarrow> nat \<Rightarrow> inner" where
  "pi_new cfg n =
     \<lparr>pi_idle = [], pi_taken = tk_default, pi_config = cfg, pi_waiting = [], pi_online = False, pi_paused = False,
      pi_out_of_sync = 0, pi_re_synced = 0, pi_force_close = 0, pi_errors = 0, pi_counts = (\<lambda>_. 0),
      pi_moved = None, pi_id = n\<rparr>"

section \<open>Sizes and maintenance decisions\<close>

definition pi_checked_out :: "inner \<Rightarrow> nat" where
  "pi_checked_out p = tk_len (pi_taken p)"

definition pi_total :: "inner \<Rightarrow> nat" where
  "pi_total p = length (pi_idle p) + pi_checked_out p"

definition pi_full :: "inner \<Rightarrow> bool" where
  "pi_full p \<longleftrightarrow> pi_total p \<ge> cfg_max (pi_config p)"

definition pi_peer :: "inner \<Rightarrow> backend_key_data \<Rightarrow> backend_key_data option" where
  "pi_peer p client = tk_server (pi_taken p) client"

text \<open>The signed difference is clamped at zero.\<close>

definition pi_can_remove :: "inner \<Rightarrow> nat" where
  "pi_can_remove p = nat (max 0 (int (pi_total p) - int (cfg_min (pi_config p))))"

datatype should_create = No | Yes connect_reason nat nat nat nat nat

definition pi_should_create :: "inner \<Rightarrow> should_create" where
  "pi_should_create p =
     (let below_min = pi_total p < cfg_min (pi_config p);
          below_max = pi_total p < cfg_max (pi_config p);
          maintain_min = below_min \<and> below_max;
          client_needs = below_max \<and> pi_waiting p \<noteq> [] \<and> pi_idle p = [];
          maintenance_on = pi_online p \<and> \<not> pi_paused p;
          yes = (\<lambda>reason. Yes reason (cfg_min (pi_config p)) (cfg_max (pi_config p)) (length (pi_idle p))
                   (pi_checked_out p) (length (pi_waiting p)))
      in if client_needs then yes CClientWaiting
         else if maintenance_on \<and> maintain_min then yes CBelowMin
         else No)"

text \<open>\<^verbatim>\<open>retain_mut\<close>: the kept connections, and the closed ones with their reason.\<close>

definition close_old :: "inner \<Rightarrow> nat \<Rightarrow> nat \<times> server list \<times> inner" where
  "close_old p now =
     (let keep = (\<lambda>c. srv_age c now < effective_max_age c (cfg_max_age (pi_config p)));
          closed = map (\<lambda>c. srv_disconnect c DOld) (filter (\<lambda>c. \<not> keep c) (pi_idle p))
      in (length closed, closed, p\<lparr>pi_idle := filter keep (pi_idle p)\<rparr>))"

fun retain_idle :: "nat \<Rightarrow> nat \<Rightarrow> nat \<Rightarrow> server list \<Rightarrow> server list \<times> server list" where
  "retain_idle timeout now remove [] = ([], [])"
| "retain_idle timeout now remove (c # cs) =
     (if remove > 0 \<and> srv_idle_for c now \<ge> timeout
      then (case retain_idle timeout now (remove - 1) cs of (kept, closed) \<Rightarrow> (kept, srv_disconnect c DIdle # closed))
      else (case retain_idle timeout now remove cs of (kept, closed) \<Rightarrow> (c # kept, closed)))"

definition close_idle :: "inner \<Rightarrow> nat \<Rightarrow> nat \<times> server list \<times> inner" where
  "close_idle p now =
     (case retain_idle (cfg_idle_timeout (pi_config p)) now (pi_can_remove p) (pi_idle p) of
        (kept, closed) \<Rightarrow> (length closed, closed, p\<lparr>pi_idle := kept\<rparr>))"

section \<open>Checking out\<close>

definition pi_take :: "inner \<Rightarrow> request \<Rightarrow> server option \<times> inner" where
  "pi_take p req =
     (if pi_idle p = [] then (None, p)
      else let conn = last (pi_idle p) in
        (Some conn,
         p\<lparr>pi_idle := butlast (pi_idle p),
           pi_taken := tk_take (pi_taken p) \<lparr>map_client = req_id req, map_server = srv_id conn\<rparr>\<rparr>))"

text \<open>The loop of \<^verbatim>\<open>put\<close>: waiters whose receiver is gone are dropped from the queue.\<close>

fun first_open :: "(waiter \<Rightarrow> bool) \<Rightarrow> waiter list \<Rightarrow> (waiter \<times> waiter list) option" where
  "first_open tx_open [] = None"
| "first_open tx_open (w # ws) = (if tx_open w then Some (w, ws) else first_open tx_open ws)"

definition pi_put :: "(waiter \<Rightarrow> bool) \<Rightarrow> inner \<Rightarrow> server \<Rightarrow> nat \<Rightarrow> waiter option \<times> inner" where
  "pi_put tx_open p conn now =
     (case first_open tx_open (pi_waiting p) of
        Some (w, ws) \<Rightarrow>
          (Some w,
           p\<lparr>pi_waiting := ws,
             pi_taken := tk_take (pi_taken p) \<lparr>map_client = req_id (wt_request w), map_server = srv_id conn\<rparr>,
             pi_counts := (pi_counts p)
               (''server_assignment_count'' := pi_counts p ''server_assignment_count'' + 1,
                ''wait_time'' := pi_counts p ''wait_time'' + (now - req_created_at (wt_request w)))\<rparr>)
      | None \<Rightarrow> (None, p\<lparr>pi_waiting := [], pi_idle := pi_idle p @ [conn]\<rparr>))"

definition set_taken :: "inner \<Rightarrow> taken \<Rightarrow> inner" where
  "set_taken p t = p\<lparr>pi_taken := t\<rparr>"

definition dump_idle :: "inner \<Rightarrow> server list \<times> inner" where
  "dump_idle p = (map (\<lambda>c. srv_disconnect c DOffline) (pi_idle p), p\<lparr>pi_idle := []\<rparr>)"

definition pi_move_conns_to :: "inner \<Rightarrow> nat \<Rightarrow> server list \<times> taken \<times> inner" where
  "pi_move_conns_to p dest =
     (map (\<lambda>c. c\<lparr>srv_pool_id := dest\<rparr>) (pi_idle p), pi_taken p,
      p\<lparr>pi_moved := Some dest, pi_idle := [], pi_taken := tk_default\<rparr>)"

definition remove_waiter :: "inner \<Rightarrow> backend_key_data \<Rightarrow> inner" where
  "remove_waiter p client =
     (case pi_waiting p of
        [] \<Rightarrow> p
      | w # ws \<Rightarrow>
          if req_id (wt_request w) \<noteq> client
          then (case position (\<lambda>w. req_id (wt_request w) = client) (w # ws) of
                  Some i \<Rightarrow> p\<lparr>pi_waiting := remove_at i (w # ws)\<rparr>
                | None \<Rightarrow> p)
          else p\<lparr>pi_waiting := ws\<rparr>)"

text \<open>The waiters are answered with the error and removed.\<close>

definition close_waiters :: "inner \<Rightarrow> pool_error \<Rightarrow> (waiter \<times> pool_error) list \<times> inner" where
  "close_waiters p err = (map (\<lambda>w. (w, err)) (pi_waiting p), p\<lparr>pi_waiting := []\<rparr>)"

section \<open>Checking in\<close>

record check_in_result =
  ci_server_error :: bool
  ci_replenish :: bool

text \<open>What becomes of the connection.\<close>

datatype fate = Closed server | BackToIdle | GivenTo waiter

text \<open>\<^verbatim>\<open>maybe_check_in\<close> from the point where the pool itself takes the connection.\<close>

definition check_in_here ::
    "(waiter \<Rightarrow> bool) \<Rightarrow> inner \<Rightarrow> server \<Rightarrow> nat \<Rightarrow> counts \<Rightarrow> bool \<Rightarrow> bool \<Rightarrow>
     (pool_error + check_in_result \<times> fate) \<times> inner" where
  "check_in_here tx_open p s now stats moving replenish =
     (case tk_check_in (pi_taken p) (srv_id s) of
        (Inl e, t) \<Rightarrow> (Inl e, p\<lparr>pi_taken := t\<rparr>)
      | (Inr _, t) \<Rightarrow>
          let p = p\<lparr>pi_taken := t, pi_counts := counts_add (pi_counts p) stats\<rparr>;
              closed = (\<lambda>error replenish s. Inr (\<lparr>ci_server_error = error, ci_replenish = replenish\<rparr>, Closed s)) in
          if srv_error s then
            (closed True replenish (srv_disconnect s DError), p\<lparr>pi_errors := pi_errors p + 1\<rparr>)
          else if \<not> pi_online p \<and> \<not> moving \<or> pi_paused p then (closed False False s, p)
          else if srv_age s now \<ge> effective_max_age s (cfg_max_age (pi_config p)) then
            (closed False replenish (srv_disconnect s DOld), p)
          else if srv_force_close s then
            (closed False replenish (srv_disconnect s DForceClose), p\<lparr>pi_force_close := pi_force_close p + 1\<rparr>)
          else if srv_replication_mode s then (closed False replenish (srv_disconnect s DReplicationMode), p)
          else
            let (p, s) = (if srv_re_synced s then (p\<lparr>pi_re_synced := pi_re_synced p + 1\<rparr>, s\<lparr>srv_re_synced := False\<rparr>)
                          else (p, s)) in
            if srv_can_check_in s then
              (case pi_put tx_open p s now of
                 (w, p) \<Rightarrow>
                   (Inr (\<lparr>ci_server_error = False, ci_replenish = False\<rparr>,
                         case w of Some w \<Rightarrow> GivenTo w | None \<Rightarrow> BackToIdle), p))
            else (closed False replenish (srv_disconnect s DOutOfSync), p\<lparr>pi_out_of_sync := pi_out_of_sync p + 1\<rparr>))"

text \<open>A pool whose connections were moved passes the connection on to the other pool, which may have been moved
  itself. \<open>None\<close> stands for a chain of moved pools that comes back to a locked pool.\<close>

partial_function (option) maybe_check_in ::
    "(waiter \<Rightarrow> bool) \<Rightarrow> (nat \<Rightarrow> inner) \<Rightarrow> nat \<Rightarrow> server \<Rightarrow> nat \<Rightarrow> counts \<Rightarrow> bool \<Rightarrow>
     ((pool_error + check_in_result \<times> fate) \<times> (nat \<Rightarrow> inner)) option" where
  "maybe_check_in tx_open pools n s now stats moving =
     (if pi_moved (pools n) \<noteq> None \<and> the (pi_moved (pools n)) \<noteq> pi_id (pools n) then
        Option.bind
          (maybe_check_in tx_open pools (the (pi_moved (pools n)))
             (s\<lparr>srv_pool_id := the (pi_moved (pools n))\<rparr>) now stats True)
          (\<lambda>(r, pools'). Some
             (map_sum id (\<lambda>(_, f). (\<lparr>ci_server_error = False, ci_replenish = False\<rparr>, f)) r, pools'))
      else
        (case check_in_here tx_open (pools n) s now stats moving (pi_moved (pools n) = None) of
           (r, p) \<Rightarrow> Some (r, pools(n := p))))"

section \<open>The pool\<close>

definition waiting_new :: "inner \<Rightarrow> request \<Rightarrow> nat \<Rightarrow> (pool_error + bool) \<times> inner" where
  "waiting_new p req channel =
     (if \<not> pi_online p then (Inl Offline, p)
      else let p = p\<lparr>pi_waiting := pi_waiting p @ [\<lparr>wt_request = req, wt_channel = channel\<rparr>]\<rparr> in (Inr (\<not> pi_full p), p))"

text \<open>The part of \<^verbatim>\<open>get_internal\<close> that runs under the lock. The time it adds to the wait is zero.\<close>

definition get_fast :: "inner \<Rightarrow> request \<Rightarrow> (pool_error + server option \<times> bool) \<times> inner" where
  "get_fast p req =
     (if \<not> pi_online p then (Inl Offline, p)
      else case pi_take p req of
        (conn, p) \<Rightarrow>
          (Inr (conn, pi_paused p),
           if conn = None then p
           else p\<lparr>pi_counts := (pi_counts p)
                   (''server_assignment_count'' := pi_counts p ''server_assignment_count'' + 1,
                    (if req_read req then ''reads'' else ''writes'') :=
                      pi_counts p (if req_read req then ''reads'' else ''writes'') + 1)\<rparr>))"

definition launch :: "inner \<Rightarrow> inner" where
  "launch p = (if \<not> pi_online p then p\<lparr>pi_online := True\<rparr> else p)"

definition pause :: "inner \<Rightarrow> server list \<times> inner" where
  "pause p = dump_idle (p\<lparr>pi_paused := True\<rparr>)"

definition resume :: "inner \<Rightarrow> inner" where
  "resume p = p\<lparr>pi_paused := False\<rparr>"

definition shutdown :: "inner \<Rightarrow> server list \<times> (waiter \<times> pool_error) list \<times> inner" where
  "shutdown p =
     (case dump_idle (p\<lparr>pi_online := False\<rparr>) of
        (closed, p) \<Rightarrow> (case close_waiters p Offline of (answers, p) \<Rightarrow> (closed, answers, p)))"

definition move_conns_to :: "(waiter \<Rightarrow> bool) \<Rightarrow> inner \<Rightarrow> inner \<Rightarrow> nat \<Rightarrow> inner \<times> inner" where
  "move_conns_to tx_open from to now =
     (case pi_move_conns_to (from\<lparr>pi_online := False\<rparr>) (pi_id to) of
        (idle, taken, from) \<Rightarrow>
          (snd (snd (shutdown from)),
           set_taken (foldl (\<lambda>to s. snd (pi_put tx_open to s now)) to idle) taken))"

section \<open>The monitor\<close>

text \<open>One round of the monitor's loop (\<^verbatim>\<open>monitor.rs\<close>) up to where it lets go of the lock: \<open>None\<close> ends the loop. The
  round then awaits \<^verbatim>\<open>replenish\<close>, whose connection attempt ends with a connection or not.\<close>

definition monitor_request :: "inner \<Rightarrow> should_create option \<times> inner" where
  "monitor_request p =
     (let online = pi_online p;
          p = (if \<not> online then snd (close_waiters p Offline) else p);
          sc = pi_should_create p
      in (if \<not> online then None else Some sc, p))"

definition replenish :: "(waiter \<Rightarrow> bool) \<Rightarrow> inner \<Rightarrow> server option \<Rightarrow> nat \<Rightarrow> bool \<times> inner" where
  "replenish tx_open p conn now =
     (case conn of
        Some server \<Rightarrow> (True, if pi_online p then snd (pi_put tx_open p server now) else p)
      | None \<Rightarrow> (False, p))"

text \<open>A tick of the maintenance loop: whether the monitor is notified (\<open>None\<close> ends the loop).\<close>

definition maintenance :: "inner \<Rightarrow> nat \<Rightarrow> bool option \<times> inner" where
  "maintenance p now =
     (if \<not> pi_online p then (None, snd (close_waiters p Offline))
      else
        (Some (pi_should_create p \<noteq> No),
         if pi_paused p then p
         else snd (snd (close_old (snd (snd (close_idle p now))) now))))"

section \<open>The invariant\<close>

abbreviation idle_ids :: "inner \<Rightarrow> backend_key_data list" where
  "idle_ids p \<equiv> map srv_id (pi_idle p)"

text \<open>No connection is in the idle list twice, or idle and checked out at the same time.\<close>

definition pool_inv :: "inner \<Rightarrow> nat \<Rightarrow> bool" where
  "pool_inv p n \<longleftrightarrow>
     (\<exists>m\<le>n. tk_inv (pi_taken p) m) \<and> distinct (idle_ids p) \<and> (\<forall>i\<in>set (idle_ids p). \<not> is_taken (pi_taken p) i)"

definition pool_ids :: "inner \<Rightarrow> backend_key_data set" where
  "pool_ids p = set (idle_ids p) \<union> {i. is_taken (pi_taken p) i}"

lemma finite_taken: "finite {i. is_taken t i}"
proof -
  have "{i. is_taken t i} = dom (hm_get (tk_server_client t))" by (auto simp: is_taken_def)
  then show ?thesis by (simp add: hm_get_map_of finite_dom_map_of)
qed

lemma pool_total_ids:
  assumes "pool_inv p n"
  shows "pi_total p = card (pool_ids p)"
proof -
  obtain m where tk: "tk_inv (pi_taken p) m" using assms by (auto simp: pool_inv_def)
  have "card (pool_ids p) = card (set (idle_ids p)) + card {i. is_taken (pi_taken p) i}"
    using assms unfolding pool_ids_def by (intro card_Un_disjoint) (auto simp: pool_inv_def finite_taken)
  also have "card (set (idle_ids p)) = length (pi_idle p)"
    using assms distinct_card by (fastforce simp: pool_inv_def)
  finally show ?thesis
    using tk_len_servers [OF tk] by (simp add: pi_total_def pi_checked_out_def)
qed

lemma pool_inv_new: "pool_inv (pi_new cfg k) 0"
  using tk_inv_default by (simp add: pool_inv_def pi_new_def)

lemma pool_inv_Suc: "pool_inv p n \<Longrightarrow> pool_inv p (Suc n)"
  by (auto simp: pool_inv_def intro: le_SucI)

lemma pool_inv_frame:
  "pool_inv p n \<Longrightarrow> pi_taken p' = pi_taken p \<Longrightarrow> set (idle_ids p') \<subseteq> set (idle_ids p) \<Longrightarrow> distinct (idle_ids p') \<Longrightarrow>
   pool_inv p' (Suc n)"
  by (auto simp: pool_inv_def intro: le_SucI)

lemma pool_inv_take:
  assumes "pool_inv p n" "n < 2 ^ 64"
  shows "pool_inv (snd (pi_take p req)) (Suc n)"
proof (cases "pi_idle p" rule: rev_exhaust)
  case Nil
  with assms show ?thesis by (simp add: pi_take_def pool_inv_Suc)
next
  case (snoc cs c)
  obtain m where m: "m \<le> n" "tk_inv (pi_taken p) m" using assms(1) by (auto simp: pool_inv_def)
  have "tk_inv (tk_take (pi_taken p) \<lparr>map_client = req_id req, map_server = srv_id c\<rparr>) (Suc m)"
    using assms snoc m by (intro tk_inv_take) (auto simp: pool_inv_def)
  with assms(1) snoc m(1) show ?thesis
    by (auto simp: pool_inv_def pi_take_def Let_def image_iff)
qed

lemma first_open_None: "first_open tx ws = None \<longleftrightarrow> (\<forall>w\<in>set ws. \<not> tx w)"
  by (induction ws) auto

lemma first_open_Some: "first_open tx ws = Some (w, r) \<Longrightarrow> \<exists>dead. ws = dead @ w # r \<and> tx w \<and> (\<forall>d\<in>set dead. \<not> tx d)"
proof (induction ws)
  case (Cons a ws)
  show ?case
  proof (cases "tx a")
    case True
    with Cons.prems show ?thesis by (intro exI [of _ "[]"]) auto
  next
    case False
    with Cons obtain dead where "ws = dead @ w # r" "tx w" "\<forall>d\<in>set dead. \<not> tx d" by auto
    with False show ?thesis by (intro exI [of _ "a # dead"]) auto
  qed
qed simp

lemma pool_inv_put:
  assumes "pool_inv p n" "n < 2 ^ 64" "srv_id conn \<notin> pool_ids p"
  shows "pool_inv (snd (pi_put tx p conn now)) (Suc n)"
proof -
  obtain m where m: "m \<le> n" "tk_inv (pi_taken p) m" using assms(1) by (auto simp: pool_inv_def)
  have "tk_inv (tk_take (pi_taken p) \<lparr>map_client = cl, map_server = srv_id conn\<rparr>) (Suc m)" for cl
    using assms m by (intro tk_inv_take) (auto simp: pool_ids_def)
  with assms m show ?thesis
    by (cases "first_open tx (pi_waiting p)")
      (auto simp: pi_put_def pool_inv_def pool_ids_def image_iff eq_commute [of "srv_id conn"] intro: le_SucI)
qed

lemma pool_inv_put_ids:
  "pool_ids (snd (pi_put tx p conn now)) = insert (srv_id conn) (pool_ids p)"
  by (cases "first_open tx (pi_waiting p)") (auto simp: pi_put_def pool_ids_def)

lemma pool_inv_closed:
  assumes "pool_inv p n" "tk_check_in (pi_taken p) i = (r, t)" "pi_taken p' = t" "pi_idle p' = pi_idle p"
  shows "pool_inv p' n"
proof (cases "is_taken (pi_taken p) i")
  case True
  obtain m where m: "m \<le> n" "tk_inv (pi_taken p) m" using assms(1) by (auto simp: pool_inv_def)
  have "tk_inv t m"
    using tk_inv_check_in [OF m(2), of i] assms(2) by simp
  moreover have "is_taken t j \<Longrightarrow> is_taken (pi_taken p) j" for j
    using tk_check_in_effect(3) [OF m(2) True, of j] assms(2) by simp
  ultimately show ?thesis
    using assms m(1) by (auto simp: pool_inv_def)
next
  case False
  then have "t = pi_taken p"
    using assms(2) by (simp add: tk_check_in_def is_taken_def)
  with assms show ?thesis by (simp add: pool_inv_def)
qed

lemma pool_inv_check_in:
  assumes "pool_inv p n" "n < 2 ^ 64"
  shows "pool_inv (snd (check_in_here tx p s now stats moving repl)) (Suc n)"
proof (cases "is_taken (pi_taken p) (srv_id s)")
  case False
  then show ?thesis
    using pool_inv_Suc [OF assms(1)] by (simp add: check_in_here_def tk_check_in_def is_taken_def)
next
  case True
  obtain m where m: "m \<le> n" "tk_inv (pi_taken p) m" using assms(1) by (auto simp: pool_inv_def)
  obtain t where t: "tk_check_in (pi_taken p) (srv_id s) = (Inr (), t)"
    using tk_check_in_effect(1) [OF m(2) True] by (cases "tk_check_in (pi_taken p) (srv_id s)") auto
  have closed: "pool_inv p' n" if "pi_taken p' = t" "pi_idle p' = pi_idle p" for p'
    using assms(1) t that by (rule pool_inv_closed)
  have "srv_id s \<notin> set (idle_ids p)"
    using assms(1) True by (auto simp: pool_inv_def)
  then have new: "srv_id s \<notin> pool_ids p'" if "pi_taken p' = t" "pi_idle p' = pi_idle p" for p'
    using tk_check_in_effect(3) [OF m(2) True, of "srv_id s"] t that by (simp add: pool_ids_def)
  have put: "pool_inv (snd (pi_put tx p' s' now)) (Suc n)"
    if "pi_taken p' = t" "pi_idle p' = pi_idle p" "srv_id s' = srv_id s" for p' s'
    using that assms(2) by (intro pool_inv_put closed) (auto simp: new)
  show ?thesis
    unfolding check_in_here_def t
    by (simp add: Let_def case_prod_beta pool_inv_Suc closed put)
qed

end
