(* ===== verification/LoadBalancer.thy ===== *)
theory LoadBalancer
  imports PoolInner "HOL-Library.Multiset"
begin

text \<open>
  The load balancer of a shard: \<^verbatim>\<open>pgdog/src/backend/pool/lb/\<close> (\<^verbatim>\<open>mod.rs\<close>, \<^verbatim>\<open>ban.rs\<close>, \<^verbatim>\<open>monitor.rs\<close>, \<^verbatim>\<open>target_health.rs\<close>), the
  shared part of a pool (\<^verbatim>\<open>pool_impl.rs\<close>, \<^verbatim>\<open>lsn_monitor.rs\<close>, \<^verbatim>\<open>pgdog-stats/src/replication.rs\<close>), and the tasks of
  \<^verbatim>\<open>shard/\<close> that keep roles and replica lag up to date. Targets are shared objects, so a list of candidates is a list of
  indices into the targets. What the asynchronous checkout of a pool does is a parameter (\<open>attempt\<close>), as is the random
  permutation of the \<^verbatim>\<open>rand\<close> crate (\<open>shuffle\<close>). Times are milliseconds.
\<close>

section \<open>Replication statistics\<close>

record lsn =
  lsn_high :: int
  lsn_low :: int
  lsn_lsn :: int

record lsn_stats =
  ls_replica :: bool
  ls_lsn :: lsn
  ls_timestamp :: int
  ls_fetched :: nat
  ls_aurora :: bool

record replica_lag =
  rl_duration :: nat
  rl_bytes :: int

definition lsn_default :: lsn where
  "lsn_default = \<lparr>lsn_high = 0, lsn_low = 0, lsn_lsn = 0\<rparr>"

definition lag_default :: replica_lag where
  "lag_default = \<lparr>rl_duration = 0, rl_bytes = 0\<rparr>"

definition lsn_stats_default :: "nat \<Rightarrow> lsn_stats" where
  "lsn_stats_default now =
     \<lparr>ls_replica = True, ls_lsn = lsn_default, ls_timestamp = 0, ls_fetched = now, ls_aurora = False\<rparr>"

definition lsn_valid :: "lsn_stats \<Rightarrow> bool" where
  "lsn_valid s \<longleftrightarrow> ls_aurora s \<or> lsn_lsn (ls_lsn s) > 0"

definition lsn_age :: "lsn_stats \<Rightarrow> nat \<Rightarrow> nat" where
  "lsn_age s now = now - ls_fetched s"

text \<open>The first argument is the receiver; the parameter is named \<open>primary\<close> as in the source.\<close>

definition stats_replica_lag :: "lsn_stats \<Rightarrow> lsn_stats \<Rightarrow> replica_lag" where
  "stats_replica_lag self primary =
     (let bytes = lsn_lsn (ls_lsn primary) - lsn_lsn (ls_lsn self);
          lag_ms = max 0 (ls_timestamp primary - ls_timestamp self)
      in \<lparr>rl_duration = nat lag_ms, rl_bytes = bytes\<rparr>)"

definition greater_or_eq :: "replica_lag \<Rightarrow> replica_lag \<Rightarrow> bool" where
  "greater_or_eq self other \<longleftrightarrow> (if rl_bytes self \<ge> rl_bytes other then True else rl_duration self \<ge> rl_duration other)"

section \<open>Pools as targets\<close>

datatype role = Primary | Replica | Auto

fun role_into :: "role \<Rightarrow> nat" where
  "role_into Auto = 0"
| "role_into Primary = 1"
| "role_into Replica = 2"

text \<open>The fields of a pool outside its lock that the load balancer reads; addresses are only compared.\<close>

record pool =
  pl_inner :: inner
  pl_addr :: string
  pl_configured_role :: role
  pl_checkout_timeout :: nat
  pl_ban_timeout :: nat
  pl_lb_weight :: nat
  pl_resharding_only :: bool
  pl_role_detection :: bool
  pl_healthy :: bool
  pl_lsn_stats :: lsn_stats
  pl_replica_lag :: replica_lag

definition health_toggle :: "pool \<Rightarrow> bool \<Rightarrow> pool" where
  "health_toggle p h = p\<lparr>pl_healthy := h\<rparr>"

definition pool_can_move_conns_to :: "pool \<Rightarrow> pool \<Rightarrow> bool" where
  "pool_can_move_conns_to p dest \<longleftrightarrow> pl_addr p = pl_addr dest"

text \<open>\<^verbatim>\<open>Pool::get\<close> around the checkout, which ends with a connection, an error or not in time (\<open>None\<close>).\<close>

type_synonym attempt = "inner \<Rightarrow> (pool_error + server) option \<times> inner"

definition pool_get :: "attempt \<Rightarrow> pool \<Rightarrow> (pool_error + server) \<times> pool" where
  "pool_get attempt p =
     (case attempt (pl_inner p) of
        (Some (Inr conn), i) \<Rightarrow> (Inr conn, p\<lparr>pl_inner := i\<rparr>)
      | (None, i) \<Rightarrow> (Inl CheckoutTimeout, health_toggle (p\<lparr>pl_inner := i\<rparr>) False)
      | (Some (Inl err), i) \<Rightarrow> (Inl err, health_toggle (p\<lparr>pl_inner := i\<rparr>) False))"

record ban_entry =
  be_created_at :: nat
  be_error :: pool_error
  be_ban_timeout :: nat

record target =
  t_pool :: pool
  t_ban :: "ban_entry option"
  t_role :: role
  t_current_weight :: int

definition target_new :: "pool \<Rightarrow> role \<Rightarrow> target" where
  "target_new p r = \<lparr>t_pool = p, t_ban = None, t_role = r, t_current_weight = 0\<rparr>"

definition set_role :: "target \<Rightarrow> role \<Rightarrow> bool \<times> target" where
  "set_role t r = (role_into r \<noteq> role_into (t_role t), t\<lparr>t_role := r\<rparr>)"

section \<open>Bans\<close>

definition banned :: "target \<Rightarrow> bool" where
  "banned t \<longleftrightarrow> t_ban t \<noteq> None"

definition ban_error :: "target \<Rightarrow> pool_error option" where
  "ban_error t = map_option be_error (t_ban t)"

definition unban :: "target \<Rightarrow> bool \<Rightarrow> target" where
  "unban t manual_check =
     (case t_ban t of
        Some b \<Rightarrow> if be_error b \<noteq> ManualBan \<or> \<not> manual_check then t\<lparr>t_ban := None\<rparr> else t
      | None \<Rightarrow> t)"

definition ban_expired :: "ban_entry \<Rightarrow> nat \<Rightarrow> bool" where
  "ban_expired b now \<longleftrightarrow> now - be_created_at b \<ge> be_ban_timeout b"

definition ban :: "target \<Rightarrow> pool_error \<Rightarrow> nat \<Rightarrow> nat \<Rightarrow> bool \<times> target" where
  "ban t err timeout now =
     (if t_ban t = None
      then (True,
            t\<lparr>t_ban := Some \<lparr>be_created_at = now, be_error = err, be_ban_timeout = timeout\<rparr>,
              t_pool := (t_pool t)\<lparr>pl_inner := snd (dump_idle (pl_inner (t_pool t)))\<rparr>\<rparr>)
      else (False, t))"

definition unban_if_expired :: "target \<Rightarrow> nat \<Rightarrow> bool \<times> target" where
  "unban_if_expired t now =
     (if (case t_ban t of Some b \<Rightarrow> ban_expired b now \<and> be_error b \<noteq> ManualBan | None \<Rightarrow> False)
      then (if \<not> pl_healthy (t_pool t) then (False, t) else (True, t\<lparr>t_ban := None\<rparr>))
      else (False, t))"

section \<open>The load balancer\<close>

datatype lb_strategy = Random | RoundRobin | LeastActiveConnections | WeightedRoundRobin

datatype rw_split = IncludePrimary | ExcludePrimary | IncludePrimaryIfReplicaBanned

text \<open>\<open>lb_role_permit\<close> is the permit stored by \<^verbatim>\<open>role_detection.notify_one()\<close>.\<close>

record load_balancer =
  lb_targets :: "target list"
  lb_checkout_timeout :: nat
  lb_round_robin :: u64
  lb_strategy :: lb_strategy
  lb_rw_split :: rw_split
  lb_role_permit :: bool

definition lb_new :: "pool option \<Rightarrow> pool list \<Rightarrow> lb_strategy \<Rightarrow> rw_split \<Rightarrow> load_balancer" where
  "lb_new primary addrs strategy split =
     \<lparr>lb_targets = map (\<lambda>p. target_new p (pl_configured_role p)) addrs
        @ (case primary of Some p \<Rightarrow> [target_new p Primary] | None \<Rightarrow> []),
      lb_checkout_timeout = (case primary of Some p \<Rightarrow> pl_checkout_timeout p | None \<Rightarrow> 0)
        + sum_list (map pl_checkout_timeout addrs),
      lb_round_robin = 0, lb_strategy = strategy, lb_rw_split = split, lb_role_permit = False\<rparr>"

definition on_target :: "nat \<Rightarrow> (target \<Rightarrow> target) \<Rightarrow> load_balancer \<Rightarrow> load_balancer" where
  "on_target i f lb = lb\<lparr>lb_targets := (lb_targets lb)[i := f (lb_targets lb ! i)]\<rparr>"

definition primary_target :: "load_balancer \<Rightarrow> target option" where
  "primary_target lb = find (\<lambda>t. t_role t = Primary) (rev (lb_targets lb))"

definition is_replica :: "target \<Rightarrow> bool" where
  "is_replica t \<longleftrightarrow> t_role t = Replica \<or> t_role t = Auto"

definition roles_detected :: "load_balancer \<Rightarrow> bool" where
  "roles_detected lb \<longleftrightarrow> \<not> list_ex (\<lambda>t. t_role t = Auto) (lb_targets lb)"

definition on_inner :: "(inner \<Rightarrow> inner) \<Rightarrow> target \<Rightarrow> target" where
  "on_inner f t = t\<lparr>t_pool := (t_pool t)\<lparr>pl_inner := f (pl_inner (t_pool t))\<rparr>\<rparr>"

definition lb_launch :: "load_balancer \<Rightarrow> load_balancer" where
  "lb_launch lb = lb\<lparr>lb_targets := map (on_inner launch) (lb_targets lb)\<rparr>"

definition lb_shutdown :: "load_balancer \<Rightarrow> load_balancer" where
  "lb_shutdown lb = lb\<lparr>lb_targets := map (on_inner (\<lambda>p. snd (snd (shutdown p)))) (lb_targets lb)\<rparr>"

definition lb_can_move_conns_to :: "load_balancer \<Rightarrow> load_balancer \<Rightarrow> bool" where
  "lb_can_move_conns_to lb dest \<longleftrightarrow>
     length (lb_targets lb) = length (lb_targets dest)
     \<and> list_all2 (\<lambda>a b. pool_can_move_conns_to (t_pool a) (t_pool b)) (lb_targets lb) (lb_targets dest)"

text \<open>The connections, the detected role and the statistics of each target.\<close>

definition target_move_conns :: "(waiter \<Rightarrow> bool) \<Rightarrow> nat \<Rightarrow> target \<Rightarrow> target \<Rightarrow> target \<times> target" where
  "target_move_conns tx_open now from to =
     (case move_conns_to tx_open (pl_inner (t_pool from)) (pl_inner (t_pool to)) now of
        (old, new) \<Rightarrow>
          (on_inner (\<lambda>_. old) from,
           (snd (set_role (on_inner (\<lambda>_. new) to) (t_role from)))
             \<lparr>t_pool := (t_pool to)\<lparr>pl_inner := new, pl_lsn_stats := pl_lsn_stats (t_pool from)\<rparr>\<rparr>))"

text \<open>The lengths are asserted to be equal.\<close>

definition lb_move_conns_to ::
    "(waiter \<Rightarrow> bool) \<Rightarrow> nat \<Rightarrow> load_balancer \<Rightarrow> load_balancer \<Rightarrow> (load_balancer \<times> load_balancer) option" where
  "lb_move_conns_to tx_open now lb dest =
     (if length (lb_targets lb) \<noteq> length (lb_targets dest) then None
      else let moved = map2 (target_move_conns tx_open now) (lb_targets lb) (lb_targets dest) in
        Some (lb\<lparr>lb_targets := map fst moved\<rparr>, dest\<lparr>lb_targets := map snd moved\<rparr>))"

section \<open>Choosing a target for a read\<close>

definition lb_candidates :: "load_balancer \<Rightarrow> nat list" where
  "lb_candidates lb =
     (let target = (\<lambda>i. lb_targets lb ! i);
          candidates = filter (\<lambda>i. \<not> pl_resharding_only (t_pool (target i))) [0..<length (lb_targets lb)];
          primary_reads =
            (case lb_rw_split lb of
               IncludePrimary \<Rightarrow> True
             | IncludePrimaryIfReplicaBanned \<Rightarrow> list_ex (\<lambda>i. banned (target i)) candidates
             | ExcludePrimary \<Rightarrow> \<not> list_ex (\<lambda>i. is_replica (target i)) candidates)
      in if \<not> primary_reads then filter (\<lambda>i. is_replica (target i)) candidates else candidates)"

text \<open>Atomic addition on \<^verbatim>\<open>i64\<close> wraps around.\<close>

definition wrap_i64 :: "int \<Rightarrow> int" where
  "wrap_i64 x = (x + 2 ^ 63) mod 2 ^ 64 - 2 ^ 63"

definition lb_weight :: "load_balancer \<Rightarrow> nat \<Rightarrow> int" where
  "lb_weight lb i = int (pl_lb_weight (t_pool (lb_targets lb ! i)))"

definition current_weight :: "load_balancer \<Rightarrow> nat \<Rightarrow> int" where
  "current_weight lb i = t_current_weight (lb_targets lb ! i)"

definition add_weight :: "int \<Rightarrow> nat \<Rightarrow> load_balancer \<Rightarrow> load_balancer" where
  "add_weight w i lb = on_target i (\<lambda>t. t\<lparr>t_current_weight := wrap_i64 (t_current_weight t + w)\<rparr>) lb"

text \<open>\<^verbatim>\<open>max_by_key\<close> returns the last of several maximal elements.\<close>

fun last_max :: "('a \<Rightarrow> int) \<Rightarrow> 'a list \<Rightarrow> 'a option" where
  "last_max key [] = None"
| "last_max key (x # xs) =
     (case last_max key xs of None \<Rightarrow> Some x | Some y \<Rightarrow> if key x > key y then Some x else Some y)"

definition swap_first :: "nat \<Rightarrow> 'a list \<Rightarrow> 'a list" where
  "swap_first k xs = xs[0 := xs ! k, k := xs ! 0]"

definition weighted_round_robin :: "load_balancer \<Rightarrow> nat list \<Rightarrow> nat list \<times> load_balancer" where
  "weighted_round_robin lb candidates =
     (let total_weight = sum_list (map (lb_weight lb) candidates) in
      if total_weight > 0 then
        let lb = foldl (\<lambda>lb i. add_weight (lb_weight lb i) i lb) lb candidates;
            max_idx = (case last_max (\<lambda>k. current_weight lb (candidates ! k)) [0..<length candidates] of
                         Some k \<Rightarrow> k | None \<Rightarrow> 0);
            lb = add_weight (- total_weight) (candidates ! max_idx) lb
        in (swap_first max_idx candidates, lb)
      else (candidates, lb))"

definition lb_arrange :: "(nat list \<Rightarrow> nat list) \<Rightarrow> load_balancer \<Rightarrow> nat list \<Rightarrow> nat list \<times> load_balancer" where
  "lb_arrange shuffle lb candidates =
     (case lb_strategy lb of
        Random \<Rightarrow> (shuffle candidates, lb)
      | RoundRobin \<Rightarrow>
          (let first = unat (lb_round_robin lb) mod length candidates in
           (drop first candidates @ take first candidates, lb\<lparr>lb_round_robin := lb_round_robin lb + 1\<rparr>))
      | LeastActiveConnections \<Rightarrow>
          (sort_key (\<lambda>i. pi_checked_out (pl_inner (t_pool (lb_targets lb ! i)))) candidates, lb)
      | WeightedRoundRobin \<Rightarrow> weighted_round_robin lb candidates)"

text \<open>The loop over the candidates, up to the first connection.\<close>

fun lb_try :: "(nat \<Rightarrow> attempt) \<Rightarrow> nat \<Rightarrow> bool \<Rightarrow> load_balancer \<Rightarrow> nat list \<Rightarrow> (nat \<times> server) option \<times> load_balancer" where
  "lb_try attempt now bannable lb [] = (None, lb)"
| "lb_try attempt now bannable lb (i # is) =
     (let t = lb_targets lb ! i in
      if banned t then lb_try attempt now bannable lb is
      else
        case pool_get (attempt i) (t_pool t) of
          (Inr conn, p) \<Rightarrow> (Some (i, conn), on_target i (\<lambda>t. t\<lparr>t_pool := p\<rparr>) lb)
        | (Inl err, p) \<Rightarrow>
            let lb = on_target i (\<lambda>t. t\<lparr>t_pool := p\<rparr>) lb in
            if err = Offline then lb_try attempt now bannable lb is
            else if bannable
            then lb_try attempt now bannable (on_target i (\<lambda>t. snd (ban t err (pl_ban_timeout p) now)) lb) is
            else lb_try attempt now bannable lb is)"

definition unban_all :: "bool \<Rightarrow> load_balancer \<Rightarrow> nat list \<Rightarrow> load_balancer" where
  "unban_all manual_check lb is = foldl (\<lambda>lb i. on_target i (\<lambda>t. unban t manual_check) lb) lb is"

definition lb_get_internal ::
    "(nat list \<Rightarrow> nat list) \<Rightarrow> (nat \<Rightarrow> attempt) \<Rightarrow> nat \<Rightarrow> load_balancer \<Rightarrow> (pool_error + nat \<times> server) \<times> load_balancer" where
  "lb_get_internal shuffle attempt now lb =
     (let candidates = lb_candidates lb in
      if candidates = [] then (Inl AllReplicasDown, lb)
      else
        let (candidates, lb) = lb_arrange shuffle lb candidates;
            bannable = length candidates > 1
        in case lb_try attempt now bannable lb candidates of
             (Some r, lb) \<Rightarrow> (Inr r, lb)
           | (None, lb) \<Rightarrow> (Inl AllReplicasDown, unban_all True lb candidates))"

section \<open>The primary\<close>

text \<open>Waiting for the roles ends at once with a permit, which stays; without one it lasts until the timeout.\<close>

definition lb_get_primary :: "(nat \<Rightarrow> attempt) \<Rightarrow> load_balancer \<Rightarrow> (pool_error + server) \<times> load_balancer" where
  "lb_get_primary attempt lb =
     (if \<not> roles_detected lb \<and> \<not> lb_role_permit lb then (Inl CheckoutTimeout, lb)
      else case find (\<lambda>i. t_role (lb_targets lb ! i) = Primary) (rev [0..<length (lb_targets lb)]) of
        None \<Rightarrow> (Inl NoPrimary, lb)
      | Some i \<Rightarrow>
          (case pool_get (attempt i) (t_pool (lb_targets lb ! i)) of
             (r, p) \<Rightarrow> (r, on_target i (\<lambda>t. t\<lparr>t_pool := p\<rparr>) lb)))"

definition redetect_roles :: "nat \<Rightarrow> load_balancer \<Rightarrow> bool \<times> load_balancer" where
  "redetect_roles now lb =
     (let stats = (\<lambda>i. pl_lsn_stats (t_pool (lb_targets lb ! i)));
          targets = sort_key (\<lambda>i. lsn_age (stats i) now) [0..<length (lb_targets lb)]
      in case find (\<lambda>i. \<not> ls_replica (stats i) \<and> lsn_valid (stats i)) targets of
           None \<Rightarrow> (False, lb)
         | Some primary \<Rightarrow>
             let promoted = fst (set_role (lb_targets lb ! primary) Primary);
                 lb = on_target primary (\<lambda>t. snd (set_role t Primary)) lb;
                 lb = (if promoted
                       then foldl (\<lambda>lb i. on_target i (\<lambda>t. snd (set_role t Replica)) lb) lb
                              (filter (\<lambda>i. i \<noteq> primary) targets)
                       else lb)
             in (promoted, if promoted then lb\<lparr>lb_role_permit := True\<rparr> else lb))"

text \<open>\<^verbatim>\<open>RoleDetector\<close>: enabled when every pool has its role detected.\<close>

definition detector_enabled :: "load_balancer \<Rightarrow> bool" where
  "detector_enabled lb \<longleftrightarrow> list_all (\<lambda>t. pl_role_detection (t_pool t)) (lb_targets lb)"

definition detector_changed :: "bool \<Rightarrow> nat \<Rightarrow> load_balancer \<Rightarrow> bool \<times> load_balancer" where
  "detector_changed enabled now lb = (if enabled then redetect_roles now lb else (False, lb))"

text \<open>The rest of a round of \<^verbatim>\<open>ShardMonitor\<close>: the lag of every replica behind the first pool that is not one.\<close>

definition set_lag :: "replica_lag \<Rightarrow> target \<Rightarrow> target" where
  "set_lag lag t = t\<lparr>t_pool := (t_pool t)\<lparr>pl_replica_lag := lag\<rparr>\<rparr>"

definition measure_lag :: "lsn_stats \<Rightarrow> lsn_stats \<Rightarrow> replica_lag" where
  "measure_lag primary replica =
     (if lsn_lsn (ls_lsn primary) > lsn_lsn (ls_lsn replica) then stats_replica_lag primary replica else lag_default)"

definition update_replica_lag :: "load_balancer \<Rightarrow> load_balancer" where
  "update_replica_lag lb =
     (let stats = (\<lambda>i. pl_lsn_stats (t_pool (lb_targets lb ! i)));
          is = [0..<length (lb_targets lb)]
      in case find (\<lambda>i. \<not> ls_replica (stats i)) is of
           None \<Rightarrow> lb
         | Some primary \<Rightarrow>
             on_target primary (set_lag lag_default)
               (foldl (\<lambda>lb i. on_target i (set_lag (measure_lag (stats primary) (stats i))) lb) lb
                  (filter (\<lambda>i. ls_replica (stats i)) is)))"

section \<open>The ban check\<close>

text \<open>Each pass of the loop: the targets, the number banned and the targets to ban with their reasons.\<close>

fun ban_check_loop ::
    "replica_lag \<Rightarrow> nat \<Rightarrow> nat \<Rightarrow> nat list \<Rightarrow> load_balancer \<Rightarrow> load_balancer \<times> nat \<times> (nat \<times> pool_error) list" where
  "ban_check_loop threshold now len [] lb = (lb, 0, [])"
| "ban_check_loop threshold now len (i # is) lb =
     (let healthy = pl_healthy (t_pool (lb_targets lb ! i));
          replica_lag_bad = greater_or_eq (pl_replica_lag (t_pool (lb_targets lb ! i))) threshold;
          lb = (if healthy \<and> \<not> replica_lag_bad then on_target i (\<lambda>t. snd (unban_if_expired t now)) lb else lb);
          t = lb_targets lb ! i;
          bannable = len > 1 \<and> pl_ban_timeout (t_pool t) > 0;
          should_ban = \<not> healthy \<or> replica_lag_bad;
          rest = ban_check_loop threshold now len is lb
      in if should_ban \<and> bannable
         then (fst rest, (if banned t \<or> should_ban then Suc else id) (fst (snd rest)),
               (i, if replica_lag_bad then ReplicaLagError else PoolUnhealthy) # snd (snd rest))
         else rest)"

definition ban_check :: "replica_lag \<Rightarrow> nat \<Rightarrow> load_balancer \<Rightarrow> load_balancer" where
  "ban_check threshold now lb =
     (let is = [0..<length (lb_targets lb)] in
      case ban_check_loop threshold now (length (lb_targets lb)) is lb of
        (lb, n_banned, ban_targets) \<Rightarrow>
          if length (lb_targets lb) = n_banned then unban_all False lb is
          else foldl (\<lambda>lb (i, reason). on_target i (\<lambda>t. snd (ban t reason (pl_ban_timeout (t_pool t)) now)) lb) lb ban_targets)"

section \<open>Frame lemmas\<close>

lemma on_target_simps [simp]:
  "length (lb_targets (on_target i f lb)) = length (lb_targets lb)"
  "lb_strategy (on_target i f lb) = lb_strategy lb" "lb_rw_split (on_target i f lb) = lb_rw_split lb"
  "lb_round_robin (on_target i f lb) = lb_round_robin lb" "lb_role_permit (on_target i f lb) = lb_role_permit lb"
  by (simp_all add: on_target_def)

lemma on_target_nth [simp]:
  "i < length (lb_targets lb) \<Longrightarrow>
   lb_targets (on_target i f lb) ! j = (if j = i then f (lb_targets lb ! i) else lb_targets lb ! j)"
  by (simp add: on_target_def)

lemma fold_on_target:
  assumes "distinct is" "set is \<subseteq> {..<length (lb_targets lb)}"
  shows "length (lb_targets (foldl (\<lambda>lb i. on_target i (f i) lb) lb is)) = length (lb_targets lb)"
    and "lb_targets (foldl (\<lambda>lb i. on_target i (f i) lb) lb is) ! j =
      (if j \<in> set is then f j (lb_targets lb ! j) else lb_targets lb ! j)"
  using assms by (induction "is" arbitrary: lb) auto

lemma unban_simps [simp]:
  "t_pool (unban t m) = t_pool t" "t_role (unban t m) = t_role t"
  "t_ban (unban t True) = (if ban_error t = Some ManualBan then t_ban t else None)" "t_ban (unban t False) = None"
  by (auto simp: unban_def ban_error_def split: option.split)

section \<open>Reads\<close>

lemma lb_candidates_set:
  "distinct (lb_candidates lb)" "set (lb_candidates lb) \<subseteq> {..<length (lb_targets lb)}"
  by (auto simp: lb_candidates_def Let_def)

lemma last_max_None: "last_max key xs = None \<longleftrightarrow> xs = []"
  by (cases xs) (auto split: option.splits)

lemma last_max_Some: "last_max key xs = Some x \<Longrightarrow> x \<in> set xs \<and> (\<forall>y\<in>set xs. key y \<le> key x)"
proof (induction xs arbitrary: x)
  case (Cons a xs)
  then show ?case by (cases "last_max key xs") (force simp: last_max_None split: if_splits)+
qed simp

lemma swap_first_simps:
  assumes "k < length xs"
  shows "hd (swap_first k xs) = xs ! k" "mset (swap_first k xs) = mset xs"
proof -
  have "xs \<noteq> []" using assms by auto
  with assms show "hd (swap_first k xs) = xs ! k" by (simp add: swap_first_def hd_conv_nth nth_list_update)
  show "mset (swap_first k xs) = mset xs"
    using assms \<open>xs \<noteq> []\<close> mset_swap [of k xs 0] by (simp add: swap_first_def)
qed

end
