(* ===== verification/PoolReach.thy ===== *)
theory PoolReach
  imports PoolInner "HOL-Library.Sublist"
begin

text \<open>
  The states a connection pool can reach through the operations of \<open>PoolInner\<close>, with the monitor as the one task that
  opens connections, and what holds in all of them.
\<close>

section \<open>Reachable pools\<close>

text \<open>\<open>pool_reach p connecting n\<close>: the pool can be in state \<open>p\<close> after \<open>n\<close> operations; \<open>connecting\<close> holds while the monitor,
  which is one task, awaits a connection. A new connection has an id no connection of the pool has; any connection
  may be offered for check-in. A pool is launched when no earlier monitor of it is connecting.\<close>

inductive pool_reach :: "inner \<Rightarrow> bool \<Rightarrow> nat \<Rightarrow> bool" where
  start: "pool_reach (pi_new cfg k) False 0"
| launch: "pool_reach p False n \<Longrightarrow> pool_reach (launch p) False (Suc n)"
| take: "pool_reach p c n \<Longrightarrow> pool_reach (snd (get_fast p req)) c (Suc n)"
| wait: "pool_reach p c n \<Longrightarrow> pool_reach (snd (waiting_new p req channel)) c (Suc n)"
| cancel: "pool_reach p c n \<Longrightarrow> pool_reach (remove_waiter p client) c (Suc n)"
| request: "pool_reach p False n \<Longrightarrow>
    pool_reach (snd (monitor_request p)) (fst (monitor_request p) \<notin> {None, Some No}) (Suc n)"
| connect: "pool_reach p True n \<Longrightarrow> (\<And>s. conn = Some s \<Longrightarrow> srv_id s \<notin> pool_ids p) \<Longrightarrow>
    pool_reach (snd (replenish tx p conn now)) False (Suc n)"
| check_in: "pool_reach p c n \<Longrightarrow> pool_reach (snd (check_in_here tx p s now stats moving repl)) c (Suc n)"
| maintain: "pool_reach p c n \<Longrightarrow> pool_reach (snd (maintenance p now)) c (Suc n)"
| pause: "pool_reach p c n \<Longrightarrow> pool_reach (snd (pause p)) c (Suc n)"
| resume: "pool_reach p c n \<Longrightarrow> pool_reach (resume p) c (Suc n)"
| shutdown: "pool_reach p c n \<Longrightarrow> pool_reach (snd (snd (shutdown p))) c (Suc n)"

lemma pool_inv_get:
  assumes "pool_inv p n" "n < 2 ^ 64"
  shows "pool_inv (snd (get_fast p req)) (Suc n)"
proof -
  obtain r q where rq: "pi_take p req = (r, q)" by fastforce
  have "pool_inv (q\<lparr>pi_counts := c\<rparr>) k \<longleftrightarrow> pool_inv q k" for q c k
    by (simp add: pool_inv_def)
  with pool_inv_take [OF assms, of req] pool_inv_Suc [OF assms(1)] show ?thesis
    by (simp add: get_fast_def rq split: option.split)
qed

lemma retain_idle_kept:
  "retain_idle timeout now r cs = (kept, closed) \<Longrightarrow>
   subseq kept cs \<and> length kept + length closed = length cs \<and> length closed \<le> r
   \<and> (\<forall>c\<in>set closed. \<exists>c'\<in>set cs. c = srv_disconnect c' DIdle \<and> timeout \<le> srv_idle_for c' now)"
proof (induction cs arbitrary: r kept closed)
  case (Cons c cs)
  show ?case
  proof (cases "r > 0 \<and> srv_idle_for c now \<ge> timeout")
    case True
    obtain k cl where kc: "retain_idle timeout now (r - 1) cs = (k, cl)" by fastforce
    with True Cons.prems have "kept = k" "closed = srv_disconnect c DIdle # cl" by auto
    with Cons.IH [OF kc] True show ?thesis by auto
  next
    case False
    obtain k cl where kc: "retain_idle timeout now r cs = (k, cl)" by fastforce
    with False Cons.prems have "kept = c # k" "closed = cl" by auto
    with Cons.IH [OF kc] show ?thesis by auto
  qed
qed simp

lemma distinct_map_subseq: "subseq ys xs \<Longrightarrow> distinct (map f xs) \<Longrightarrow> distinct (map f ys)"
  by (induction rule: list_emb.induct) (auto dest: list_emb_set)

lemma subseq_subset: "subseq ys xs \<Longrightarrow> set ys \<subseteq> set xs"
  by (auto dest: list_emb_set)

lemma pool_inv_subseq:
  "pool_inv p n \<Longrightarrow> pi_taken p' = pi_taken p \<Longrightarrow> subseq (pi_idle p') (pi_idle p) \<Longrightarrow> pool_inv p' (Suc n)"
  by (rule pool_inv_frame [of p n]) (auto dest: subseq_subset distinct_map_subseq simp: pool_inv_def)

lemma maintenance_frame:
  "subseq (pi_idle (snd (snd (close_old p now)))) (pi_idle p)" "pi_taken (snd (snd (close_old p now))) = pi_taken p"
  "subseq (pi_idle (snd (snd (close_idle p now)))) (pi_idle p)" "pi_taken (snd (snd (close_idle p now))) = pi_taken p"
  "pi_config (snd (snd (close_old p now))) = pi_config p" "pi_config (snd (snd (close_idle p now))) = pi_config p"
  using retain_idle_kept [of "cfg_idle_timeout (pi_config p)" now "pi_can_remove p" "pi_idle p"]
  by (auto simp: close_old_def close_idle_def Let_def split: prod.splits)

lemma maintenance_subseq:
  "subseq (pi_idle (snd (snd (close_old (snd (snd (close_idle p now))) now)))) (pi_idle p)"
  by (rule subseq_order.trans [OF maintenance_frame(1) maintenance_frame(3)])

lemma close_frames:
  "subseq (pi_idle (snd (maintenance p now))) (pi_idle p)" "pi_taken (snd (maintenance p now)) = pi_taken p"
  "subseq (pi_idle (snd (pause p))) (pi_idle p)" "pi_taken (snd (pause p)) = pi_taken p"
  "subseq (pi_idle (snd (snd (shutdown p)))) (pi_idle p)" "pi_taken (snd (snd (shutdown p))) = pi_taken p"
  "pi_idle (remove_waiter p cl) = pi_idle p" "pi_taken (remove_waiter p cl) = pi_taken p"
  "pi_idle (snd (waiting_new p req ch)) = pi_idle p" "pi_taken (snd (waiting_new p req ch)) = pi_taken p"
  "pi_idle (launch p) = pi_idle p" "pi_taken (launch p) = pi_taken p"
  "pi_idle (resume p) = pi_idle p" "pi_taken (resume p) = pi_taken p"
  "pi_idle (snd (monitor_request p)) = pi_idle p" "pi_taken (snd (monitor_request p)) = pi_taken p"
  by (auto simp: maintenance_def maintenance_frame maintenance_subseq Let_def pause_def dump_idle_def shutdown_def close_waiters_def
      monitor_request_def remove_waiter_def waiting_new_def launch_def resume_def split: prod.splits list.splits option.splits)

lemma pool_inv_replenish:
  assumes "pool_inv p n" "n < 2 ^ 64" "\<And>s. conn = Some s \<Longrightarrow> srv_id s \<notin> pool_ids p"
  shows "pool_inv (snd (replenish tx p conn now)) (Suc n)"
  using assms by (cases conn) (simp_all add: replenish_def pool_inv_Suc pool_inv_put)

lemma pool_reach_inv: "pool_reach p c n \<Longrightarrow> n \<le> 2 ^ 64 \<Longrightarrow> pool_inv p n"
proof (induction rule: pool_reach.induct)
  case start
  show ?case by (rule pool_inv_new)
next
  case take
  then show ?case by (simp add: pool_inv_get)
next
  case connect
  then show ?case by (simp add: pool_inv_replenish)
next
  case check_in
  then show ?case by (simp add: pool_inv_check_in)
qed (auto intro!: pool_inv_subseq simp: close_frames)

section \<open>The size of the pool\<close>

lemma finite_pool_ids: "finite (pool_ids p)"
  by (simp add: pool_ids_def finite_taken)

lemma pool_total_mono: "pool_inv p n \<Longrightarrow> pool_inv q m \<Longrightarrow> pool_ids q \<subseteq> pool_ids p \<Longrightarrow> pi_total q \<le> pi_total p"
  by (simp add: pool_total_ids card_mono finite_pool_ids)

lemma pool_ids_subseq: "pi_taken q = pi_taken p \<Longrightarrow> subseq (pi_idle q) (pi_idle p) \<Longrightarrow> pool_ids q \<subseteq> pool_ids p"
  by (auto simp: pool_ids_def dest: subseq_subset)

lemma pool_ids_get: "pool_ids (snd (get_fast p req)) = pool_ids p"
proof (cases "pi_idle p" rule: rev_exhaust)
  case Nil
  then show ?thesis by (simp add: get_fast_def pi_take_def)
next
  case (snoc cs c)
  then show ?thesis by (auto simp: get_fast_def pi_take_def pool_ids_def Let_def)
qed

text \<open>When a connection is reused.\<close>

definition reusable :: "inner \<Rightarrow> server \<Rightarrow> nat \<Rightarrow> bool \<Rightarrow> bool" where
  "reusable p s now moving \<longleftrightarrow>
     srv_state s = StIdle \<and> \<not> srv_io_in_progress s \<and> \<not> srv_replication_mode s
     \<and> srv_age s now < effective_max_age s (cfg_max_age (pi_config p))
     \<and> (pi_online p \<or> moving) \<and> \<not> pi_paused p"

lemma check_in_unknown:
  "\<not> is_taken (pi_taken p) (srv_id s) \<Longrightarrow>
   check_in_here tx p s now stats moving repl = (Inl (UntrackedConnCheckin (srv_id s)), p)"
  by (simp add: check_in_here_def tk_check_in_def is_taken_def)

text \<open>A check-in either closes the connection, or is \<open>pi_put\<close> on a pool that has forgotten it.\<close>

lemma check_in_closed:
  assumes "tk_check_in (pi_taken p) (srv_id s) = (Inr u, t)" "\<not> reusable p s now moving"
    and "check_in_here tx p s now stats moving repl = (r, q)"
  shows "(\<exists>res s'. r = Inr (res, Closed s') \<and> (ci_replenish res \<longrightarrow> repl) \<and> (ci_server_error res \<longleftrightarrow> srv_state s = StError))
    \<and> pi_taken q = t \<and> pi_idle q = pi_idle p \<and> pi_waiting q = pi_waiting p
    \<and> pi_errors q = pi_errors p + of_bool (srv_state s = StError) \<and> pi_config q = pi_config p"
  using assms
  by (auto simp: check_in_here_def Let_def reusable_def srv_error_def srv_force_close_def srv_can_check_in_def split: if_splits)

lemma check_in_reused:
  assumes "tk_check_in (pi_taken p) (srv_id s) = (Inr u, t)" "reusable p s now moving"
    and "check_in_here tx p s now stats moving repl = (r, q)"
  shows "\<exists>p1 w. pi_taken p1 = t \<and> pi_idle p1 = pi_idle p \<and> pi_waiting p1 = pi_waiting p \<and> pi_errors p1 = pi_errors p
    \<and> pi_config p1 = pi_config p
    \<and> (w, q) = pi_put tx p1 (s\<lparr>srv_re_synced := False\<rparr>) now
    \<and> r = Inr (\<lparr>ci_server_error = False, ci_replenish = False\<rparr>, case w of Some w \<Rightarrow> GivenTo w | None \<Rightarrow> BackToIdle)"
proof -
  define p1 where "p1 = p\<lparr>pi_taken := t, pi_counts := counts_add (pi_counts p) stats,
    pi_re_synced := pi_re_synced p + of_bool (srv_re_synced s)\<rparr>"
  have unsync: "s\<lparr>srv_re_synced := False\<rparr> = s" if "\<not> srv_re_synced s"
    using that by (cases s) simp
  have "check_in_here tx p s now stats moving repl =
    (case pi_put tx p1 (s\<lparr>srv_re_synced := False\<rparr>) now of
       (w, q) \<Rightarrow> (Inr (\<lparr>ci_server_error = False, ci_replenish = False\<rparr>,
                   case w of Some w \<Rightarrow> GivenTo w | None \<Rightarrow> BackToIdle), q))"
    using assms(1,2)
    by (auto simp: check_in_here_def Let_def reusable_def srv_error_def srv_force_close_def srv_can_check_in_def
        p1_def unsync)
  with assms(3) show ?thesis
    by (intro exI [of _ p1] exI [of _ "fst (pi_put tx p1 (s\<lparr>srv_re_synced := False\<rparr>) now)"])
      (auto simp: p1_def case_prod_beta)
qed

lemma pool_ids_check_in:
  assumes "pool_inv p n" "is_taken (pi_taken p) (srv_id s)"
  shows "pool_ids (snd (check_in_here tx p s now stats moving repl)) =
    (if reusable p s now moving then pool_ids p else pool_ids p - {srv_id s})"
proof -
  obtain m where m: "tk_inv (pi_taken p) m" using assms(1) by (auto simp: pool_inv_def)
  obtain t where t: "tk_check_in (pi_taken p) (srv_id s) = (Inr (), t)"
    using tk_check_in_effect(1) [OF m assms(2)] by (cases "tk_check_in (pi_taken p) (srv_id s)") auto
  have taken: "is_taken t i \<longleftrightarrow> is_taken (pi_taken p) i \<and> i \<noteq> srv_id s" for i
    using tk_check_in_effect(3) [OF m assms(2), of i] t by simp
  have not_idle: "srv_id s \<notin> set (idle_ids p)" using assms by (auto simp: pool_inv_def)
  have rest: "pool_ids q = pool_ids p - {srv_id s}" if "pi_taken q = t" "pi_idle q = pi_idle p" for q
    using that not_idle by (auto simp: pool_ids_def taken)
  have mem: "srv_id s \<in> pool_ids p" using assms(2) by (simp add: pool_ids_def)
  obtain r q where rq: "check_in_here tx p s now stats moving repl = (r, q)" by fastforce
  show ?thesis
  proof (cases "reusable p s now moving")
    case True
    from check_in_reused [OF t True rq] obtain p1 w where p1: "pi_taken p1 = t" "pi_idle p1 = pi_idle p"
      and put: "(w, q) = pi_put tx p1 (s\<lparr>srv_re_synced := False\<rparr>) now" by blast
    have "pool_ids q = insert (srv_id s) (pool_ids p1)"
      using pool_inv_put_ids [of tx p1 "s\<lparr>srv_re_synced := False\<rparr>" now] put by (cases "pi_put tx p1 (s\<lparr>srv_re_synced := False\<rparr>) now") simp
    with True rest [OF p1] mem rq show ?thesis by auto
  next
    case False
    with check_in_closed [OF t False rq] rest rq show ?thesis by simp
  qed
qed

lemma config_frames:
  "pi_config (snd (get_fast p req)) = pi_config p" "pi_config (snd (waiting_new p req ch)) = pi_config p"
  "pi_config (remove_waiter p cl) = pi_config p" "pi_config (snd (monitor_request p)) = pi_config p"
  "pi_config (snd (replenish tx p conn now)) = pi_config p" "pi_config (snd (maintenance p now)) = pi_config p"
  "pi_config (snd (pause p)) = pi_config p" "pi_config (resume p) = pi_config p" "pi_config (launch p) = pi_config p"
  "pi_config (snd (snd (shutdown p))) = pi_config p"
  by (auto simp: get_fast_def pi_take_def Let_def waiting_new_def remove_waiter_def monitor_request_def close_waiters_def
      replenish_def pi_put_def maintenance_def maintenance_frame pause_def dump_idle_def resume_def launch_def
      shutdown_def split: option.splits list.splits prod.splits)

lemma config_put [simp]: "pi_config (snd (pi_put tx p s now)) = pi_config p"
  by (auto simp: pi_put_def split: option.split prod.split)

lemma config_check_in: "pi_config (snd (check_in_here tx p s now stats moving repl)) = pi_config p"
  by (auto simp: check_in_here_def Let_def pi_put_def case_prod_beta split: option.splits sum.splits prod.splits)

lemma pi_total_check_in:
  assumes "pool_inv p n" "n < 2 ^ 64"
  shows "pi_total (snd (check_in_here tx p s now stats moving repl)) \<le> pi_total p"
proof (cases "is_taken (pi_taken p) (srv_id s)")
  case True
  then show ?thesis
    using pool_ids_check_in [OF assms(1) True, of tx now stats moving repl]
    by (intro pool_total_mono [OF assms(1) pool_inv_check_in [OF assms]]) auto
next
  case False
  then show ?thesis by (simp add: check_in_unknown)
qed

lemma pi_total_frames:
  "pi_taken q = pi_taken p \<Longrightarrow> subseq (pi_idle q) (pi_idle p) \<Longrightarrow> pi_total q \<le> pi_total p"
  by (simp add: pi_total_def pi_checked_out_def list_emb_length)

lemma pi_total_get: "pool_inv p n \<Longrightarrow> n < 2 ^ 64 \<Longrightarrow> pi_total (snd (get_fast p req)) = pi_total p"
  by (metis pool_ids_get pool_inv_get pool_total_ids)

lemma pi_total_put:
  assumes "pool_inv p n" "n < 2 ^ 64" "srv_id s \<notin> pool_ids p"
  shows "pi_total (snd (pi_put tx p s now)) = Suc (pi_total p)"
  using pool_inv_put [OF assms, of tx now] assms
  by (simp add: pool_total_ids [of _ "Suc n"] pool_total_ids [OF assms(1)] pool_inv_put_ids finite_pool_ids)

lemma should_create_below_max: "pi_should_create p \<noteq> No \<Longrightarrow> pi_total p < cfg_max (pi_config p)"
  by (auto simp: pi_should_create_def Let_def split: if_splits)

lemma pi_total_same:
  "pi_total (launch p) = pi_total p" "pi_total (resume p) = pi_total p" "pi_total (remove_waiter p cl) = pi_total p"
  "pi_total (snd (waiting_new p req ch)) = pi_total p" "pi_total (snd (monitor_request p)) = pi_total p"
  by (simp_all add: pi_total_def pi_checked_out_def close_frames)

lemma pi_total_less:
  "pi_total (snd (maintenance p now)) \<le> pi_total p" "pi_total (snd (pause p)) \<le> pi_total p"
  "pi_total (snd (snd (shutdown p))) \<le> pi_total p"
  by (simp_all add: pi_total_frames close_frames)

lemma pool_size: "pool_reach p c n \<Longrightarrow> n \<le> 2 ^ 64 \<Longrightarrow> pi_total p + of_bool c \<le> cfg_max (pi_config p)"
proof (induction rule: pool_reach.induct)
  case start
  show ?case by (simp add: pi_new_def pi_total_def pi_checked_out_def tk_default_def tk_len_def)
next
  case (take p c n req)
  then show ?case using pi_total_get [OF pool_reach_inv [of p c n], of req] by (simp add: config_frames)
next
  case (check_in p c n tx s now stats moving repl)
  then show ?case
    using pi_total_check_in [OF pool_reach_inv [of p c n], of tx s now stats moving repl] by (simp add: config_check_in)
next
  case (connect p n conn tx now)
  then show ?case
    using pi_total_put [OF pool_reach_inv [of p True n], of _ tx now]
    by (cases conn) (auto simp: replenish_def)
next
  case (request p n)
  have "pi_total p < cfg_max (pi_config p)" if "fst (monitor_request p) \<notin> {None, Some No}"
    using that should_create_below_max [of p] by (auto simp: monitor_request_def Let_def split: if_splits)
  with request show ?case by (auto simp: pi_total_same config_frames)
next
  case (maintain p c n now)
  then show ?case using pi_total_less(1) [of p now] by (simp add: config_frames)
next
  case (pause p c n)
  then show ?case using pi_total_less(2) [of p] by (simp add: config_frames)
next
  case (shutdown p c n)
  then show ?case using pi_total_less(3) [of p] by (simp add: config_frames)
qed (simp_all add: pi_total_same config_frames)

section \<open>Properties\<close>


definition demo_server :: server where
  "demo_server = \<lparr>srv_id = \<lparr>pid = 7, secret = ''b''\<rparr>, srv_state = StIdle, srv_created_at = 10, srv_last_used = 10,
     srv_max_age = None, srv_io_in_progress = False, srv_replication_mode = False, srv_re_synced = False,
     srv_disconnect_reason = None, srv_pool_id = 0\<rparr>"

definition demo_request :: request where
  "demo_request = \<lparr>req_id = \<lparr>pid = 1, secret = ''a''\<rparr>, req_created_at = 5, req_read = True\<rparr>"

definition demo_empty :: inner where
  "demo_empty = launch (pi_new \<lparr>cfg_min = 0, cfg_max = 1, cfg_max_age = 100, cfg_idle_timeout = 50\<rparr> 0)"

text \<open>A client waits, the monitor opens a connection and hands it over.\<close>

definition demo_pool :: inner where
  "demo_pool =
     snd (replenish (\<lambda>_. True) (snd (monitor_request (snd (waiting_new demo_empty demo_request 3)))) (Some demo_server) 10)"

lemmas demo_defs = demo_pool_def demo_empty_def demo_server_def demo_request_def

lemmas demo_eval = waiting_new_def monitor_request_def pi_should_create_def replenish_def pi_put_def launch_def pi_new_def
  pi_total_def pi_checked_out_def tk_take_def tk_default_def tk_len_def Let_def

lemma demo_empty_reach: "pool_reach demo_empty False (Suc 0)"
  unfolding demo_empty_def by (rule pool_reach.launch [OF pool_reach.start])

lemma demo_waiting:
  "fst (monitor_request (snd (waiting_new demo_empty demo_request 3))) \<notin> {None, Some No}"
  "pool_ids (snd (monitor_request (snd (waiting_new demo_empty demo_request 3)))) = {}"
  by (simp_all add: demo_defs demo_eval pool_ids_def is_taken_def)

lemma demo_pool_reach: "pool_reach demo_pool False (Suc (Suc (Suc (Suc 0))))"
  using pool_reach.request [OF pool_reach.wait [OF demo_empty_reach, of demo_request 3]] demo_waiting
  unfolding demo_pool_def by (intro pool_reach.connect) (simp_all only: simp_thms empty_iff)

lemma demo_pool_total: "pi_total demo_pool = 1" "cfg_max (pi_config demo_pool) = 1"
  by (simp_all add: demo_defs demo_eval hm_insert_def)


lemma first_open_append: "tx w \<Longrightarrow> \<forall>g\<in>set gone. \<not> tx g \<Longrightarrow> first_open tx (gone @ w # ws) = Some (w, ws)"
  by (induction gone) auto

text \<open>C12: A connection checked in to a pool that can be reached is reused exactly when it is idle, with no unfinished
  read or write, not in replication mode and younger than its maximum age, and the pool is online (or takes over the
  connections of another pool) and not paused. It then goes to the first client in the queue that still waits, whose
  peer it becomes, or to the idle list if there is none; otherwise the pool forgets it. No other connection is affected.\<close>

theorem check_in_decides:
  assumes "pool_reach p connecting n" "n \<le> 2 ^ 64" "is_taken (pi_taken p) (srv_id s)"
    and "check_in_here tx p s now stats moving repl = (r, q)"
  shows "\<exists>res fate. r = Inr (res, fate)
    \<and> (reusable p s now moving \<and> (\<forall>w\<in>set (pi_waiting p). \<not> tx w) \<longrightarrow>
         fate = BackToIdle \<and> pi_idle q = pi_idle p @ [s\<lparr>srv_re_synced := False\<rparr>] \<and> \<not> is_taken (pi_taken q) (srv_id s))
    \<and> (\<forall>gone w rest. reusable p s now moving \<and> pi_waiting p = gone @ w # rest \<and> tx w \<and> (\<forall>g\<in>set gone. \<not> tx g) \<longrightarrow>
         fate = GivenTo w \<and> pi_idle q = pi_idle p \<and> pi_waiting q = rest \<and> is_taken (pi_taken q) (srv_id s)
         \<and> pi_peer q (req_id (wt_request w)) = Some (srv_id s))
    \<and> (\<not> reusable p s now moving \<longrightarrow>
         (\<exists>s'. fate = Closed s') \<and> srv_id s \<notin> pool_ids q \<and> pi_idle q = pi_idle p \<and> pi_waiting q = pi_waiting p)
    \<and> pool_ids q - {srv_id s} = pool_ids p - {srv_id s}"
proof -
  have inv: "pool_inv p n" using assms(1,2) by (rule pool_reach_inv)
  then obtain m where m: "tk_inv (pi_taken p) m" by (auto simp: pool_inv_def)
  obtain t where t: "tk_check_in (pi_taken p) (srv_id s) = (Inr (), t)"
    using tk_check_in_effect(1) [OF m assms(3)] by (cases "tk_check_in (pi_taken p) (srv_id s)") auto
  have taken: "\<not> is_taken t (srv_id s)"
    using tk_check_in_effect(3) [OF m assms(3), of "srv_id s"] t by simp
  have ids: "pool_ids q = (if reusable p s now moving then pool_ids p else pool_ids p - {srv_id s})"
    using pool_ids_check_in [OF inv assms(3), of tx now stats moving repl] assms(4) by simp
  show ?thesis
  proof (cases "reusable p s now moving")
    case False
    from check_in_closed [OF t False assms(4)] obtain res s' where "r = Inr (res, Closed s')"
      "pi_idle q = pi_idle p" "pi_waiting q = pi_waiting p" by blast
    with False ids show ?thesis by simp
  next
    case True
    from check_in_reused [OF t True assms(4)] obtain p1 w where
      p1: "pi_taken p1 = t" "pi_idle p1 = pi_idle p" "pi_waiting p1 = pi_waiting p"
      and put: "(w, q) = pi_put tx p1 (s\<lparr>srv_re_synced := False\<rparr>) now"
      and r: "r = Inr (\<lparr>ci_server_error = False, ci_replenish = False\<rparr>, case w of Some w \<Rightarrow> GivenTo w | None \<Rightarrow> BackToIdle)"
      by blast
    show ?thesis
    proof (cases "first_open tx (pi_waiting p)")
      case None
      then have shut: "\<forall>w\<in>set (pi_waiting p). \<not> tx w" by (simp add: first_open_None)
      then have queue: "\<not> tx w" if "pi_waiting p = gone @ w # rest" for gone w rest using that by simp
      have "w = None" "pi_idle q = pi_idle p @ [s\<lparr>srv_re_synced := False\<rparr>]" "pi_taken q = t"
        using put None p1 by (simp_all add: pi_put_def)
      with True r ids taken queue show ?thesis
        by (intro exI [of _ "\<lparr>ci_server_error = False, ci_replenish = False\<rparr>"] exI [of _ BackToIdle]) auto
    next
      case (Some a)
      then obtain v rest where vr: "first_open tx (pi_waiting p) = Some (v, rest)" by (cases a) auto
      have q: "w = Some v" "pi_idle q = pi_idle p" "pi_waiting q = rest" "is_taken (pi_taken q) (srv_id s)"
        "pi_peer q (req_id (wt_request v)) = Some (srv_id s)"
        using put vr p1 by (simp_all add: pi_put_def pi_peer_def tk_server_def tk_take_def is_taken_def)
      have front: "a = v \<and> ws = rest" if "pi_waiting p = gone @ a # ws \<and> tx a \<and> (\<forall>g\<in>set gone. \<not> tx g)" for gone a ws
        using that vr first_open_append [of tx a gone ws] by simp
      show ?thesis
      proof (intro exI conjI)
        show "r = Inr (\<lparr>ci_server_error = False, ci_replenish = False\<rparr>, GivenTo v)" by (simp add: r q(1))
        show "reusable p s now moving \<and> (\<forall>w\<in>set (pi_waiting p). \<not> tx w) \<longrightarrow> GivenTo v = BackToIdle
          \<and> pi_idle q = pi_idle p @ [s\<lparr>srv_re_synced := False\<rparr>] \<and> \<not> is_taken (pi_taken q) (srv_id s)"
          using first_open_Some [OF vr] by auto
        show "\<forall>gone w ws. reusable p s now moving \<and> pi_waiting p = gone @ w # ws \<and> tx w \<and> (\<forall>g\<in>set gone. \<not> tx g) \<longrightarrow>
          GivenTo v = GivenTo w \<and> pi_idle q = pi_idle p \<and> pi_waiting q = ws \<and> is_taken (pi_taken q) (srv_id s)
          \<and> pi_peer q (req_id (wt_request w)) = Some (srv_id s)"
          using front q by blast
      qed (use True ids in simp_all)
    qed
  qed
qed

lemma demo_pool_facts:
  "is_taken (pi_taken demo_pool) (srv_id demo_server)" "reusable demo_pool demo_server 20 False" "pi_waiting demo_pool = []"
  "pi_idle demo_pool = []" "srv_re_synced demo_server = False"
  by (simp_all add: demo_defs demo_eval is_taken_def hm_insert_def reusable_def srv_age_def effective_max_age_def)

theorem check_in_decides_witness:
  "pi_idle (snd (check_in_here (\<lambda>_. True) demo_pool demo_server 20 (\<lambda>_. 0) False True)) = [demo_server]"
proof -
  have "demo_server\<lparr>srv_re_synced := False\<rparr> = demo_server" by (simp add: demo_server_def)
  then show ?thesis
    using check_in_decides [OF demo_pool_reach _ demo_pool_facts(1) prod.collapse [symmetric],
        of "\<lambda>_. True" 20 "\<lambda>_. 0" False True]
    by (auto simp: demo_pool_facts)
qed

section \<open>Idle connections\<close>

lemma retain_idle_count:
  "retain_idle timeout now r cs = (kept, closed) \<Longrightarrow>
   length closed = min r (length (filter (\<lambda>c. timeout \<le> srv_idle_for c now) cs))"
  by (induction cs arbitrary: r kept closed) (auto split: if_splits prod.splits)

text \<open>Closing idle connections closes as many as have been idle for the timeout, but no more than the pool has above
  its minimum size: the size never falls below the minimum because of it, every closed connection was idle for at
  least the timeout and is told so, the kept ones stay in their order, and connections in use are not touched.\<close>

theorem close_idle_respects_minimum:
  assumes "close_idle p now = (removed, closed, q)"
  shows "removed = min (pi_total p - cfg_min (pi_config p))
        (length (filter (\<lambda>c. cfg_idle_timeout (pi_config p) \<le> srv_idle_for c now) (pi_idle p)))
    \<and> min (pi_total p) (cfg_min (pi_config p)) \<le> pi_total q \<and> pi_total q + removed = pi_total p
    \<and> length closed = removed
    \<and> (\<forall>c\<in>set closed. \<exists>c'\<in>set (pi_idle p).
         c = srv_disconnect c' DIdle \<and> cfg_idle_timeout (pi_config p) \<le> srv_idle_for c' now)
    \<and> subseq (pi_idle q) (pi_idle p) \<and> pi_taken q = pi_taken p"
proof -
  obtain kept where r: "retain_idle (cfg_idle_timeout (pi_config p)) now (pi_can_remove p) (pi_idle p) = (kept, closed)"
    and q: "removed = length closed" "q = p\<lparr>pi_idle := kept\<rparr>"
    using assms by (auto simp: close_idle_def split: prod.splits)
  have remove: "pi_can_remove p = pi_total p - cfg_min (pi_config p)" by (simp add: pi_can_remove_def)
  show ?thesis
    using retain_idle_kept [OF r] retain_idle_count [OF r] q remove
    by (auto simp: pi_total_def pi_checked_out_def)
qed

definition demo_idle :: inner where
  "demo_idle = (pi_new \<lparr>cfg_min = 1, cfg_max = 5, cfg_max_age = 1000, cfg_idle_timeout = 50\<rparr> 0)
     \<lparr>pi_idle := [demo_server, demo_server\<lparr>srv_id := \<lparr>pid = 8, secret = ''c''\<rparr>\<rparr>]\<rparr>"

theorem close_idle_respects_minimum_witness:
  "fst (close_idle demo_idle 100) = 1 \<and> pi_total (snd (snd (close_idle demo_idle 100))) = 1"
proof -
  have size: "pi_total demo_idle = 2" "cfg_min (pi_config demo_idle) = 1"
    "length (filter (\<lambda>c. cfg_idle_timeout (pi_config demo_idle) \<le> srv_idle_for c 100) (pi_idle demo_idle)) = 2"
    by (simp_all add: demo_idle_def demo_server_def demo_eval srv_idle_for_def)
  obtain removed closed q where "close_idle demo_idle 100 = (removed, closed, q)" by (metis prod_cases3)
  with close_idle_respects_minimum [OF this] size show ?thesis by simp
qed

section \<open>Waiting clients\<close>

lemma remove_first:
  "(case position P xs of Some i \<Rightarrow> remove_at i xs | None \<Rightarrow> xs) =
   takeWhile (\<lambda>x. \<not> P x) xs @ tl (dropWhile (\<lambda>x. \<not> P x) xs)"
  by (induction xs) (auto simp: remove_at_def split: option.splits)

text \<open>A client that gives up leaves the queue: removing its waiter, with the pop and push of the front and the slow
  search behind it, takes out exactly the first waiter with that client id and keeps the order of the others; the rest
  of the pool is unchanged.\<close>

theorem remove_waiter_removes_first:
  "remove_waiter p client = p\<lparr>pi_waiting :=
     takeWhile (\<lambda>w. req_id (wt_request w) \<noteq> client) (pi_waiting p)
     @ tl (dropWhile (\<lambda>w. req_id (wt_request w) \<noteq> client) (pi_waiting p))\<rparr>"
  using remove_first [where P = "\<lambda>w. req_id (wt_request w) = client" and xs = "pi_waiting p"]
  by (cases p) (auto simp: remove_waiter_def split: list.split option.split)

section \<open>Moved pools\<close>

definition moved_away :: "(nat \<Rightarrow> inner) \<Rightarrow> nat \<Rightarrow> bool" where
  "moved_away pools n \<longleftrightarrow> pi_moved (pools n) \<noteq> None \<and> the (pi_moved (pools n)) \<noteq> pi_id (pools n)"

lemma maybe_check_in_here:
  "\<not> moved_away pools n \<Longrightarrow> check_in_here tx (pools n) s now stats moving (pi_moved (pools n) = None) = (r, p) \<Longrightarrow>
   maybe_check_in tx pools n s now stats moving = Some (r, pools(n := p))"
  by (subst maybe_check_in.simps) (auto simp: moved_away_def)

lemma maybe_check_in_moved:
  "moved_away pools n \<Longrightarrow> pi_moved (pools n) = Some m \<Longrightarrow>
   maybe_check_in tx pools m (s\<lparr>srv_pool_id := m\<rparr>) now stats True = Some (r, pools') \<Longrightarrow>
   maybe_check_in tx pools n s now stats moving =
     Some (map_sum id (\<lambda>(_, f). (\<lparr>ci_server_error = False, ci_replenish = False\<rparr>, f)) r, pools')"
  by (subst maybe_check_in.simps) (simp add: moved_away_def)

text \<open>C13: When the connections of a pool were moved to a pool made later, which may itself have been moved, a check-in to
  the old pool returns: it is a check-in to the last pool of the chain, with the same fate for the connection, and
  changes only that pool. A pool whose connections were moved asks for no replacement and is not blamed for errors.\<close>

theorem check_in_follows_moves:
  assumes "\<forall>a. moved_away pools a \<longrightarrow> a < the (pi_moved (pools a)) \<and> the (pi_moved (pools a)) \<le> last_id"
  shows "\<exists>f r p r'. (n, f) \<in> {(a, b). moved_away pools a \<and> pi_moved (pools a) = Some b}\<^sup>*
    \<and> \<not> moved_away pools f
    \<and> check_in_here tx (pools f) (if f = n then s else s\<lparr>srv_pool_id := f\<rparr>) now stats (moving \<or> f \<noteq> n)
        (pi_moved (pools f) = None) = (r, p)
    \<and> maybe_check_in tx pools n s now stats moving = Some (r', pools(f := p))
    \<and> (if f = n then r' = r
       else r' = map_sum id (\<lambda>(_, fate). (\<lparr>ci_server_error = False, ci_replenish = False\<rparr>, fate)) r)"
proof (induction "last_id - n" arbitrary: n s moving rule: less_induct)
  case less
  show ?case
  proof (cases "moved_away pools n")
    case False
    obtain r p where here: "check_in_here tx (pools n) s now stats moving (pi_moved (pools n) = None) = (r, p)" by fastforce
    show ?thesis
      using False here maybe_check_in_here [OF False here] by (intro exI [of _ n] exI [of _ r] exI [of _ p]) auto
  next
    case True
    then obtain m where m: "pi_moved (pools n) = Some m" "n < m" "m \<le> last_id"
      using assms by (auto simp: moved_away_def)
    let ?move = "\<lambda>r. map_sum id (\<lambda>(_, fate). (\<lparr>ci_server_error = False, ci_replenish = False\<rparr>, fate)) r"
    have idem: "?move (?move r) = ?move r" for r :: "pool_error + check_in_result \<times> fate"
      by (cases r) (auto split: prod.split)
    have up: "(a, b) \<in> {(a, b). moved_away pools a \<and> pi_moved (pools a) = Some b}\<^sup>* \<Longrightarrow> a \<le> b" for a b
      by (induction rule: rtrancl_induct) (use assms in force)+
    from less [of m "s\<lparr>srv_pool_id := m\<rparr>" True] m obtain f r p r' where
      f: "(m, f) \<in> {(a, b). moved_away pools a \<and> pi_moved (pools a) = Some b}\<^sup>*" "\<not> moved_away pools f"
      and here: "check_in_here tx (pools f) (if f = m then s\<lparr>srv_pool_id := m\<rparr> else s\<lparr>srv_pool_id := m\<rparr>\<lparr>srv_pool_id := f\<rparr>)
        now stats (True \<or> f \<noteq> m) (pi_moved (pools f) = None) = (r, p)"
      and there: "maybe_check_in tx pools m (s\<lparr>srv_pool_id := m\<rparr>) now stats True = Some (r', pools(f := p))"
      and r': "if f = m then r' = r else r' = ?move r"
      by (auto simp: diff_less_mono2)
    have "f \<noteq> n" using up [OF f(1)] m(2) by simp
    moreover have "(n, f) \<in> {(a, b). moved_away pools a \<and> pi_moved (pools a) = Some b}\<^sup>*"
      using f(1) True m(1) by (auto intro: converse_rtrancl_into_rtrancl)
    moreover have "maybe_check_in tx pools n s now stats moving = Some (?move r, pools(f := p))"
      using maybe_check_in_moved [OF True m(1) there] r' idem [of r] by (auto split: if_splits)
    moreover have "check_in_here tx (pools f) (s\<lparr>srv_pool_id := f\<rparr>) now stats True (pi_moved (pools f) = None) = (r, p)"
      using here by (auto split: if_splits)
    ultimately show ?thesis using f(2) by (intro exI [of _ f] exI [of _ r] exI [of _ p] exI [of _ "?move r"]) auto
  qed
qed

definition demo_pools :: "nat \<Rightarrow> inner" where
  "demo_pools n = (if n = 0 then demo_empty\<lparr>pi_moved := Some 1\<rparr> else demo_pool\<lparr>pi_id := n\<rparr>)"

theorem check_in_follows_moves_witness:
  "\<exists>r p. maybe_check_in (\<lambda>_. True) demo_pools 0 demo_server 20 (\<lambda>_. 0) False = Some (r, demo_pools(1 := p))"
proof -
  have moved: "moved_away demo_pools a \<longleftrightarrow> a = 0" for a
    by (simp add: moved_away_def demo_pools_def demo_defs demo_eval)
  have next1: "pi_moved (demo_pools 0) = Some 1" by (simp add: demo_pools_def)
  have "(0, f) \<in> {(a, b). moved_away demo_pools a \<and> pi_moved (demo_pools a) = Some b}\<^sup>* \<Longrightarrow> f \<noteq> 0 \<Longrightarrow> f = 1" for f
    by (erule rtranclE) (auto simp: moved next1)
  then show ?thesis
    using check_in_follows_moves [of demo_pools 1 0 "\<lambda>_. True" demo_server 20 "\<lambda>_. 0" False] moved next1
    by fastforce
qed

lemma put_without_waiters:
  "pi_waiting q = [] \<Longrightarrow> foldl (\<lambda>q s. snd (pi_put tx q s now)) q cs = q\<lparr>pi_idle := pi_idle q @ cs\<rparr>"
  by (induction cs arbitrary: q) (simp_all add: pi_put_def)

text \<open>Moving the connections of a pool to a new one, as a configuration reload does, loses and duplicates none: the
  new pool has exactly the connections the old one had, idle and in use, consistently and in the same order, so that
  those in use can be checked in to it; the old pool is offline and empty, and points to the new one.\<close>

theorem moving_keeps_connections:
  assumes "pool_reach p connecting n" "n \<le> 2 ^ 64" "move_conns_to tx p (pi_new cfg k) now = (old, new)"
  shows "pool_ids new = pool_ids p \<and> map srv_id (pi_idle new) = map srv_id (pi_idle p)
    \<and> (\<forall>i. is_taken (pi_taken new) i \<longleftrightarrow> is_taken (pi_taken p) i)
    \<and> distinct (map srv_id (pi_idle new)) \<and> (\<forall>s\<in>set (pi_idle new). \<not> is_taken (pi_taken new) (srv_id s) \<and> srv_pool_id s = k)
    \<and> pool_ids old = {} \<and> pi_waiting old = [] \<and> \<not> pi_online old \<and> pi_moved old = Some k"
proof -
  have "pool_inv p n" using assms(1,2) by (rule pool_reach_inv)
  moreover have "pi_waiting (pi_new cfg k) = []" "pi_idle (pi_new cfg k) = []" "pi_id (pi_new cfg k) = k"
    by (simp_all add: pi_new_def)
  ultimately show ?thesis
    using assms(3)
    by (auto simp: move_conns_to_def pi_move_conns_to_def put_without_waiters set_taken_def shutdown_def dump_idle_def
        close_waiters_def pool_inv_def pool_ids_def comp_def tk_default_def is_taken_def image_image)
qed

theorem moving_keeps_connections_witness:
  "pool_ids (snd (move_conns_to (\<lambda>_. True) demo_pool (pi_new (pi_config demo_pool) 1) 30)) = pool_ids demo_pool
   \<and> is_taken (pi_taken demo_pool) (srv_id demo_server)"
  using moving_keeps_connections [OF demo_pool_reach _ prod.collapse [symmetric]] demo_pool_facts by simp

end
