(* ===== verification/LoadBalancing.thy ===== *)
theory LoadBalancing
  imports LoadBalancer PoolReach
begin

text \<open>
  What the load balancer promises: the fairness of its strategies, what a read gets and what it does to the bans, the
  ban check, and the detection of roles and of replica lag.
\<close>

section \<open>Fairness\<close>

text \<open>The first choices of \<open>n\<close> reads in a row over the same candidates.\<close>

fun picks :: "(nat list \<Rightarrow> nat list) \<Rightarrow> nat list \<Rightarrow> nat \<Rightarrow> load_balancer \<Rightarrow> nat list" where
  "picks shuffle candidates 0 lb = []"
| "picks shuffle candidates (Suc n) lb =
     (case lb_arrange shuffle lb candidates of (order, lb) \<Rightarrow> hd order # picks shuffle candidates n lb)"

lemma hd_rotated: "xs \<noteq> [] \<Longrightarrow> k < length xs \<Longrightarrow> hd (drop k xs @ take k xs) = xs ! k"
  by (simp add: hd_drop_conv_nth)

lemma round_robin_picks:
  assumes "lb_strategy lb = RoundRobin" "cs \<noteq> []" "unat (lb_round_robin lb) + n \<le> 2 ^ 64"
  shows "picks shuffle cs n lb = map (\<lambda>k. cs ! ((unat (lb_round_robin lb) + k) mod length cs)) [0..<n]"
  using assms
proof (induction n arbitrary: lb)
  case (Suc n)
  let ?lb = "lb\<lparr>lb_round_robin := lb_round_robin lb + 1\<rparr>"
  let ?r = "unat (lb_round_robin lb)"
  have head: "hd (drop (?r mod length cs) cs @ take (?r mod length cs) cs) = cs ! (?r mod length cs)"
    using Suc.prems(2) by (intro hd_rotated) auto
  show ?case
  proof (cases "n = 0")
    case True
    with head Suc.prems show ?thesis by (simp add: lb_arrange_def Let_def)
  next
    case False
    then have next_r: "unat (lb_round_robin lb + 1) = Suc ?r"
      using Suc.prems(3) by (simp add: unat_plus_simple [THEN iffD1] unat_word_ariths)
    have "picks shuffle cs n ?lb = map (\<lambda>k. cs ! ((Suc ?r + k) mod length cs)) [0..<n]"
      using Suc.prems Suc.IH [of ?lb] by (simp add: next_r)
    also have "\<dots> = map (\<lambda>k. cs ! ((?r + k) mod length cs)) [Suc 0..<Suc n]"
      by (simp only: map_Suc_upt [symmetric] map_map comp_def) simp
    finally show ?thesis
      using head Suc.prems by (simp add: lb_arrange_def Let_def upt_conv_Cons del: upt_Suc)
  qed
qed simp

lemma rotated_all: "cs \<noteq> [] \<Longrightarrow> map (\<lambda>k. cs ! ((r + k) mod length cs)) [0..<length cs] = rotate r cs"
  by (rule nth_equalityI) (simp_all add: nth_rotate add.commute)

lemma mset_rotate_self: "mset (rotate r cs) = mset cs"
  by (metis append_take_drop_id mset_append rotate_drop_take union_commute)

text \<open>With the round-robin strategy, of as many reads in a row as there are candidates, each candidate is the first
  choice of exactly one, and every read still has all the others to fall back on.\<close>

theorem round_robin_fair:
  assumes "lb_strategy lb = RoundRobin" "candidates \<noteq> []"
    and "unat (lb_round_robin lb) + length candidates \<le> 2 ^ 64"
  shows "mset (picks shuffle candidates (length candidates) lb) = mset candidates
    \<and> mset (fst (lb_arrange shuffle lb candidates)) = mset candidates"
proof -
  have "mset (drop k candidates @ take k candidates) = mset candidates" for k
    by (metis append_take_drop_id mset_append union_commute)
  then show ?thesis
    using assms round_robin_picks [OF assms(1,2), of "length candidates" shuffle]
    by (simp add: rotated_all mset_rotate_self lb_arrange_def Let_def)
qed

theorem round_robin_fair_witness:
  "mset (picks id [2, 0, 1] (length [2, 0, 1 :: nat]) (lb_new None [] RoundRobin IncludePrimary)) = mset [2, 0, 1]"
  by (rule conjunct1 [OF round_robin_fair]) (simp_all add: lb_new_def)

subsection \<open>Smooth weighted round-robin\<close>

lemma wrap_i64_id: "- (2 ^ 63) \<le> x \<Longrightarrow> x < 2 ^ 63 \<Longrightarrow> wrap_i64 x = x"
  by (simp add: wrap_i64_def)

definition valid_candidates :: "load_balancer \<Rightarrow> nat list \<Rightarrow> bool" where
  "valid_candidates lb cs \<longleftrightarrow> cs \<noteq> [] \<and> distinct cs \<and> set cs \<subseteq> {..<length (lb_targets lb)}"

abbreviation total_weight :: "load_balancer \<Rightarrow> nat list \<Rightarrow> int" where
  "total_weight lb cs \<equiv> sum_list (map (lb_weight lb) cs)"

lemma total_weight_sum: "distinct cs \<Longrightarrow> total_weight lb cs = (\<Sum>i\<in>set cs. lb_weight lb i)"
  by (simp add: sum.distinct_set_conv_list)

lemma add_weights:
  assumes "distinct cs" "set cs \<subseteq> {..<length (lb_targets lb)}"
  shows "length (lb_targets (foldl (\<lambda>lb i. add_weight (lb_weight lb i) i lb) lb cs)) = length (lb_targets lb)"
    and "lb_strategy (foldl (\<lambda>lb i. add_weight (lb_weight lb i) i lb) lb cs) = lb_strategy lb"
    and "lb_weight (foldl (\<lambda>lb i. add_weight (lb_weight lb i) i lb) lb cs) j = lb_weight lb j"
    and "current_weight (foldl (\<lambda>lb i. add_weight (lb_weight lb i) i lb) lb cs) j =
      (if j \<in> set cs then wrap_i64 (current_weight lb j + lb_weight lb j) else current_weight lb j)"
  using assms
  by (induction cs arbitrary: lb) (auto simp: add_weight_def lb_weight_def current_weight_def)

lemma weighted_step:
  assumes "valid_candidates lb cs" "total_weight lb cs > 0" "weighted_round_robin lb cs = (order, lb')"
    and small: "\<And>i. i \<in> set cs \<Longrightarrow> - (2 ^ 63) \<le> current_weight lb i + lb_weight lb i - total_weight lb cs"
      "\<And>i. i \<in> set cs \<Longrightarrow> current_weight lb i + lb_weight lb i < 2 ^ 63"
  obtains m where "m \<in> set cs" "hd order = m" "mset order = mset cs"
    "\<And>j. j \<in> set cs \<Longrightarrow> current_weight lb j + lb_weight lb j \<le> current_weight lb m + lb_weight lb m"
    "\<And>i. i \<in> set cs \<Longrightarrow>
       current_weight lb' i = current_weight lb i + lb_weight lb i - (if i = m then total_weight lb cs else 0)"
    "lb_weight lb' = lb_weight lb" "lb_strategy lb' = lb_strategy lb" "valid_candidates lb' cs"
proof -
  let ?W = "total_weight lb cs"
  define lb1 where "lb1 = foldl (\<lambda>lb i. add_weight (lb_weight lb i) i lb) lb cs"
  have cs: "cs \<noteq> []" "distinct cs" "set cs \<subseteq> {..<length (lb_targets lb)}"
    using assms(1) by (auto simp: valid_candidates_def)
  note lb1 = add_weights [OF cs(2,3), folded lb1_def]
  have cw1: "current_weight lb1 i = current_weight lb i + lb_weight lb i" if "i \<in> set cs" for i
    using that small(1) [OF that] small(2) [OF that] assms(2) by (simp add: lb1(4) wrap_i64_id)
  obtain k where k: "last_max (\<lambda>k. current_weight lb1 (cs ! k)) [0..<length cs] = Some k"
    using cs(1) by (cases "last_max (\<lambda>k. current_weight lb1 (cs ! k)) [0..<length cs]") (auto simp: last_max_None)
  have klt: "k < length cs" and kmax: "\<And>j. j < length cs \<Longrightarrow> current_weight lb1 (cs ! j) \<le> current_weight lb1 (cs ! k)"
    using last_max_Some [OF k] by auto
  let ?m = "cs ! k"
  have m: "?m \<in> set cs" "?m < length (lb_targets lb1)" using nth_mem [OF klt] cs(3) by (auto simp: lb1(1))
  have res: "order = swap_first k cs" "lb' = add_weight (- ?W) ?m lb1"
    using assms(2,3) by (simp_all add: weighted_round_robin_def Let_def lb1_def [symmetric] k)
  show thesis
  proof (rule that [of ?m])
    show "hd order = ?m" "mset order = mset cs" using res(1) swap_first_simps [OF klt] by simp_all
    show "current_weight lb j + lb_weight lb j \<le> current_weight lb ?m + lb_weight lb ?m" if "j \<in> set cs" for j
      using that kmax cw1 [OF that] cw1 [OF m(1)] by (metis in_set_conv_nth)
    show "current_weight lb' i = current_weight lb i + lb_weight lb i - (if i = ?m then ?W else 0)" if i: "i \<in> set cs" for i
    proof (cases "i = ?m")
      case True
      have "current_weight lb' ?m = wrap_i64 (current_weight lb1 ?m - ?W)"
        using m(2) by (simp add: res(2) add_weight_def current_weight_def)
      with True show ?thesis using small [OF i] assms(2) cw1 [OF m(1)] by (simp add: wrap_i64_id)
    next
      case False
      then show ?thesis
        using m(2) cw1 [OF i] by (simp add: res(2) add_weight_def current_weight_def)
    qed
    have "lb_weight lb' = lb_weight lb1"
      using m(2) by (intro ext) (simp add: res(2) add_weight_def lb_weight_def)
    then show "lb_weight lb' = lb_weight lb" using lb1(3) by auto
    show "lb_strategy lb' = lb_strategy lb" "valid_candidates lb' cs"
      using lb1(1,2) assms(1) by (simp_all add: res(2) add_weight_def valid_candidates_def)
  qed (rule m(1))
qed

text \<open>The weights a run keeps: they sum to zero and none falls to the negated total.\<close>

definition weights_balanced :: "load_balancer \<Rightarrow> nat list \<Rightarrow> bool" where
  "weights_balanced lb cs \<longleftrightarrow>
     (\<Sum>i\<in>set cs. current_weight lb i) = 0 \<and> (\<forall>i\<in>set cs. current_weight lb i > - total_weight lb cs)"

lemma weights_bounded:
  assumes "weights_balanced lb cs" "i \<in> set cs" "total_weight lb cs > 0"
  shows "current_weight lb i \<le> total_weight lb cs * int (length cs)"
proof -
  let ?W = "total_weight lb cs"
  have "of_nat (card (set cs - {i})) * (- ?W) \<le> (\<Sum>j\<in>set cs - {i}. current_weight lb j)"
    using assms(1) by (intro sum_bounded_below) (auto simp: weights_balanced_def less_imp_le)
  moreover have "(\<Sum>j\<in>set cs - {i}. current_weight lb j) = - current_weight lb i"
    using assms(1,2) by (simp add: weights_balanced_def sum_diff1)
  moreover have "int (card (set cs - {i})) * ?W \<le> int (length cs) * ?W"
    using assms(3) card_length [of cs] by (intro mult_right_mono) (auto simp: card_Diff_singleton_if intro: order_trans)
  ultimately show ?thesis by (simp add: mult.commute)
qed

lemma weighted_keeps_balance:
  assumes "valid_candidates lb cs" "total_weight lb cs > 0" "weights_balanced lb cs"
    and "total_weight lb cs * (int (length cs) + 2) < 2 ^ 63" "lb_strategy lb = WeightedRoundRobin"
    and arr: "lb_arrange shuffle lb cs = (order, lb')"
  obtains m where "m \<in> set cs" "hd order = m" "mset order = mset cs" "weights_balanced lb' cs" "valid_candidates lb' cs"
    "lb_weight lb' = lb_weight lb" "lb_strategy lb' = WeightedRoundRobin"
    "\<And>i. i \<in> set cs \<Longrightarrow>
       current_weight lb' i = current_weight lb i + lb_weight lb i - (if i = m then total_weight lb cs else 0)"
proof -
  let ?W = "total_weight lb cs"
  have dist: "distinct cs" and nonempty: "cs \<noteq> []" using assms(1) by (simp_all add: valid_candidates_def)
  have w: "0 \<le> lb_weight lb i" "lb_weight lb i \<le> ?W" if "i \<in> set cs" for i
    using that by (auto simp: lb_weight_def total_weight_sum [OF dist] intro: member_le_sum)
  have lower: "- (2 ^ 63) \<le> current_weight lb i + lb_weight lb i - ?W" if "i \<in> set cs" for i
  proof -
    have "?W * 2 \<le> ?W * (int (length cs) + 2)" using assms(2) by (intro mult_left_mono) auto
    moreover have "current_weight lb i > - ?W" using assms(3) that by (simp add: weights_balanced_def)
    ultimately show ?thesis using w(1) [OF that] assms(4) by linarith
  qed
  have upper: "current_weight lb i + lb_weight lb i < 2 ^ 63" if "i \<in> set cs" for i
    using weights_bounded [OF assms(3) that assms(2)] w(2) [OF that] assms(2,4) by (simp add: algebra_simps)
  from weighted_step [OF assms(1,2) _ lower upper, of order lb'] arr assms(5)
  obtain m where m: "m \<in> set cs" "hd order = m" "mset order = mset cs"
    "\<And>j. j \<in> set cs \<Longrightarrow> current_weight lb j + lb_weight lb j \<le> current_weight lb m + lb_weight lb m"
    "\<And>i. i \<in> set cs \<Longrightarrow> current_weight lb' i = current_weight lb i + lb_weight lb i - (if i = m then ?W else 0)"
    "lb_weight lb' = lb_weight lb" "lb_strategy lb' = lb_strategy lb" "valid_candidates lb' cs"
    by (auto simp: lb_arrange_def)
  have all: "(\<Sum>i\<in>set cs. current_weight lb i + lb_weight lb i) = ?W"
    using assms(3) by (simp add: weights_balanced_def sum.distrib total_weight_sum [OF dist])
  have "0 < current_weight lb m + lb_weight lb m"
  proof (rule ccontr)
    assume "\<not> ?thesis"
    then have "(\<Sum>i\<in>set cs. current_weight lb i + lb_weight lb i) \<le> 0"
      using m(4) by (intro sum_nonpos) (meson not_less order_trans)
    with all assms(2) show False by simp
  qed
  then have "weights_balanced lb' cs"
    using assms(3) m(1,5) w(1) all
    by (auto simp: weights_balanced_def m(6) sum_subtractf sum.delta intro: less_le_trans)
  with m assms(5) show thesis by (intro that) auto
qed

lemma weighted_picks:
  assumes "valid_candidates lb cs" "total_weight lb cs > 0" "weights_balanced lb cs"
    and "total_weight lb cs * (int (length cs) + 2) < 2 ^ 63" "lb_strategy lb = WeightedRoundRobin"
  shows "length (picks shuffle cs n lb) = n" "set (picks shuffle cs n lb) \<subseteq> set cs"
    and "i \<in> set cs \<Longrightarrow>
      current_weight lb i + int n * lb_weight lb i - total_weight lb cs * int (count_list (picks shuffle cs n lb) i)
        > - total_weight lb cs"
  using assms
proof (induction n arbitrary: lb)
  case 0
  { case 1 then show ?case by simp
  next case 2 then show ?case by simp
  next case 3 then show ?case by (simp add: weights_balanced_def) }
next
  case (Suc n)
  have step: "\<exists>m lb'. m \<in> set cs \<and> picks shuffle cs (Suc n) lb = m # picks shuffle cs n lb'
      \<and> weights_balanced lb' cs \<and> valid_candidates lb' cs \<and> lb_weight lb' = lb_weight lb
      \<and> lb_strategy lb' = WeightedRoundRobin
      \<and> (\<forall>i\<in>set cs. current_weight lb' i = current_weight lb i + lb_weight lb i - (if i = m then total_weight lb cs else 0))"
    if pre: "valid_candidates lb cs" "total_weight lb cs > 0" "weights_balanced lb cs"
      "total_weight lb cs * (int (length cs) + 2) < 2 ^ 63" "lb_strategy lb = WeightedRoundRobin" for lb
  proof -
    obtain order lb' where arr: "lb_arrange shuffle lb cs = (order, lb')" by fastforce
    from weighted_keeps_balance [OF pre arr] show ?thesis using arr by (metis (no_types, lifting) case_prod_conv picks.simps(2))
  qed
  { case 1
    from step [OF this] obtain m lb' where "picks shuffle cs (Suc n) lb = m # picks shuffle cs n lb'"
      "weights_balanced lb' cs" "valid_candidates lb' cs" "lb_weight lb' = lb_weight lb" "lb_strategy lb' = WeightedRoundRobin"
      by blast
    with Suc.IH(1) [of lb'] 1 show ?case by simp
  next
    case 2
    from step [OF this] obtain m lb' where "picks shuffle cs (Suc n) lb = m # picks shuffle cs n lb'" "m \<in> set cs"
      "weights_balanced lb' cs" "valid_candidates lb' cs" "lb_weight lb' = lb_weight lb" "lb_strategy lb' = WeightedRoundRobin"
      by blast
    with Suc.IH(2) [of lb'] 2 show ?case by simp
  next
    case 3
    from step [OF 3(2-6)] obtain m lb' where "picks shuffle cs (Suc n) lb = m # picks shuffle cs n lb'"
      "weights_balanced lb' cs" "valid_candidates lb' cs" "lb_weight lb' = lb_weight lb" "lb_strategy lb' = WeightedRoundRobin"
      and cw: "\<forall>i\<in>set cs. current_weight lb' i =
        current_weight lb i + lb_weight lb i - (if i = m then total_weight lb cs else 0)"
      by blast
    with Suc.IH(3) [OF 3(1), of lb'] 3 show ?case by (auto simp: algebra_simps) }
qed


definition demo_backend :: "nat \<Rightarrow> role \<Rightarrow> nat \<Rightarrow> pool" where
  "demo_backend k r weight =
     \<lparr>pl_inner = launch (pi_new \<lparr>cfg_min = 0, cfg_max = 1, cfg_max_age = 100, cfg_idle_timeout = 50\<rparr> k), pl_addr = ''db'',
      pl_configured_role = r, pl_checkout_timeout = 10, pl_ban_timeout = 60, pl_lb_weight = weight,
      pl_resharding_only = False, pl_role_detection = (r = Auto), pl_healthy = True,
      pl_lsn_stats = lsn_stats_default 0, pl_replica_lag = lag_default\<rparr>"

definition demo_lb :: "lb_strategy \<Rightarrow> load_balancer" where
  "demo_lb s = lb_new None [demo_backend 0 Replica 3, demo_backend 1 Replica 1] s IncludePrimary"

lemma demo_lb_facts:
  "lb_weight (demo_lb s) 0 = 3" "lb_weight (demo_lb s) (Suc 0) = 1" "lb_strategy (demo_lb s) = s"
  "length (lb_targets (demo_lb s)) = 2" "current_weight (demo_lb s) 0 = 0" "current_weight (demo_lb s) (Suc 0) = 0"
  by (simp_all add: demo_lb_def lb_weight_def current_weight_def lb_new_def target_new_def demo_backend_def)


section \<open>What a read gets\<close>

abbreviation target_at :: "load_balancer \<Rightarrow> nat \<Rightarrow> target" where
  "target_at lb i \<equiv> lb_targets lb ! i"

abbreviation serve_at :: "(nat \<Rightarrow> attempt) \<Rightarrow> load_balancer \<Rightarrow> nat \<Rightarrow> pool_error + server" where
  "serve_at attempt lb i \<equiv> fst (pool_get (attempt i) (t_pool (target_at lb i)))"

text \<open>Arranging the candidates permutes them and changes no more of the targets than their counters.\<close>

definition same_but_weights :: "load_balancer \<Rightarrow> load_balancer \<Rightarrow> bool" where
  "same_but_weights lb lb' \<longleftrightarrow>
     length (lb_targets lb') = length (lb_targets lb)
     \<and> (\<forall>i<length (lb_targets lb). (target_at lb' i)\<lparr>t_current_weight := 0\<rparr> = (target_at lb i)\<lparr>t_current_weight := 0\<rparr>)"

lemma same_but_weights_refl: "same_but_weights lb lb"
  by (simp add: same_but_weights_def)

lemma same_add_weight: "same_but_weights lb lb' \<Longrightarrow> same_but_weights lb (add_weight w i lb')"
  by (cases "i < length (lb_targets lb')")
    (auto simp: same_but_weights_def add_weight_def on_target_def nth_list_update list_update_beyond)

lemma same_but_weightsD:
  assumes "same_but_weights lb lb'" "i < length (lb_targets lb)"
  shows "t_pool (target_at lb' i) = t_pool (target_at lb i)" "t_ban (target_at lb' i) = t_ban (target_at lb i)"
    "t_role (target_at lb' i) = t_role (target_at lb i)"
proof -
  have eq: "(target_at lb' i)\<lparr>t_current_weight := 0\<rparr> = (target_at lb i)\<lparr>t_current_weight := 0\<rparr>"
    using assms by (simp add: same_but_weights_def)
  show "t_pool (target_at lb' i) = t_pool (target_at lb i)" using arg_cong [OF eq, of t_pool] by simp
  show "t_ban (target_at lb' i) = t_ban (target_at lb i)" using arg_cong [OF eq, of t_ban] by simp
  show "t_role (target_at lb' i) = t_role (target_at lb i)" using arg_cong [OF eq, of t_role] by simp
qed

lemma same_add_weights:
  "same_but_weights lb lb' \<Longrightarrow> same_but_weights lb (foldl (\<lambda>lb i. add_weight (lb_weight lb i) i lb) lb' cs)"
  by (induction cs arbitrary: lb') (simp_all add: same_add_weight)

lemma lb_arrange_permutes:
  assumes "\<And>xs. mset (shuffle xs) = mset xs" "cs \<noteq> []"
  shows "mset (fst (lb_arrange shuffle lb cs)) = mset cs \<and> same_but_weights lb (snd (lb_arrange shuffle lb cs))"
proof -
  have rot: "mset (drop k cs) + mset (take k cs) = mset cs" for k
    by (metis append_take_drop_id mset_append union_commute)
  have idx: "(case last_max key [0..<length cs] of Some k \<Rightarrow> k | None \<Rightarrow> 0) < length cs" for key
    using assms(2) last_max_Some [of key "[0..<length cs]"] by (auto split: option.split)
  have "same_but_weights lb (lb\<lparr>lb_round_robin := r\<rparr>)" for r
    using same_but_weights_refl [of lb] by (simp add: same_but_weights_def)
  then show ?thesis
    using assms(1) rot swap_first_simps(2) [OF idx] same_but_weights_refl
    by (cases "lb_strategy lb")
      (auto simp: lb_arrange_def weighted_round_robin_def Let_def same_add_weight same_add_weights)
qed

lemma pool_get_settings:
  "pl_ban_timeout (snd (pool_get a p)) = pl_ban_timeout p" "pl_role_detection (snd (pool_get a p)) = pl_role_detection p"
  by (auto simp: pool_get_def health_toggle_def split: prod.splits option.splits sum.splits)

text \<open>The loop over the candidates: what it did to those before the one that served, and to the others.\<close>

definition tried :: "(nat \<Rightarrow> attempt) \<Rightarrow> bool \<Rightarrow> load_balancer \<Rightarrow> load_balancer \<Rightarrow> nat \<Rightarrow> bool" where
  "tried attempt bannable lb lb' i \<longleftrightarrow>
     (if banned (target_at lb i) then target_at lb' i = target_at lb i
      else \<exists>e. serve_at attempt lb i = Inl e
        \<and> ban_error (target_at lb' i) = (if bannable \<and> e \<noteq> Offline then Some e else None))"

lemma ban_error_ban: "\<not> banned t \<Longrightarrow> ban_error (snd (ban t e timeout now)) = Some e"
  by (simp add: ban_def banned_def ban_error_def)

lemma lb_try_spec:
  assumes "distinct is" "set is \<subseteq> {..<length (lb_targets lb)}" "lb_try attempt now b lb is = (r, lb')"
  shows "length (lb_targets lb') = length (lb_targets lb)
    \<and> (\<forall>j. j \<notin> set is \<longrightarrow> target_at lb' j = target_at lb j)
    \<and> (case r of
         None \<Rightarrow> \<forall>i\<in>set is. tried attempt b lb lb' i
       | Some (i, conn) \<Rightarrow> \<exists>pre post. is = pre @ i # post \<and> (\<forall>j\<in>set pre. tried attempt b lb lb' j)
           \<and> \<not> banned (target_at lb i) \<and> serve_at attempt lb i = Inr conn \<and> ban_error (target_at lb' i) = None
           \<and> (\<forall>j\<in>set post. target_at lb' j = target_at lb j))"
  using assms
proof (induction "is" arbitrary: lb)
  case (Cons i "is")
  let ?t = "target_at lb i"
  have i: "i < length (lb_targets lb)" "i \<notin> set is" "distinct is" "set is \<subseteq> {..<length (lb_targets lb)}"
    using Cons.prems by auto
  have go: ?case if rest: "lb_try attempt now b lb1 is = (r, lb')"
    and lb1: "length (lb_targets lb1) = length (lb_targets lb)" "\<And>j. j \<noteq> i \<Longrightarrow> target_at lb1 j = target_at lb j"
    and here: "\<And>lb'. target_at lb' i = target_at lb1 i \<Longrightarrow> tried attempt b lb lb' i" for lb1
  proof -
    note IH = Cons.IH [of lb1, OF i(3) _ rest]
    have tried: "tried attempt b lb1 lb' j \<longleftrightarrow> tried attempt b lb lb' j" if "j \<in> set is" for j
    proof -
      have "target_at lb1 j = target_at lb j" using that i(2) by (intro lb1(2)) auto
      then show ?thesis by (simp add: tried_def)
    qed
    have "target_at lb' i = target_at lb1 i" using IH i lb1 by auto
    then have first: "tried attempt b lb lb' i" by (rule here)
    show ?thesis
    proof (cases r)
      case None
      with IH i lb1 first tried show ?thesis by auto
    next
      case (Some ic)
      then obtain k conn where r: "r = Some (k, conn)" by (cases ic) auto
      with IH i lb1(1) obtain pre post where split: "is = pre @ k # post"
        and pre: "\<forall>j\<in>set pre. tried attempt b lb1 lb' j" "\<not> banned (target_at lb1 k)" "serve_at attempt lb1 k = Inr conn"
          "ban_error (target_at lb' k) = None"
        and post: "\<forall>j\<in>set post. target_at lb' j = target_at lb1 j" by auto
      have same: "target_at lb1 j = target_at lb j" if "j \<in> set is" for j
        using that i(2) by (intro lb1(2)) auto
      have "\<exists>pre post. i # is = pre @ k # post \<and> (\<forall>j\<in>set pre. tried attempt b lb lb' j)
          \<and> \<not> banned (target_at lb k) \<and> serve_at attempt lb k = Inr conn \<and> ban_error (target_at lb' k) = None
          \<and> (\<forall>j\<in>set post. target_at lb' j = target_at lb j)"
        by (rule exI [of _ "i # pre"], rule exI [of _ post]) (use split pre post first tried same in auto)
      moreover have "length (lb_targets lb') = length (lb_targets lb)" using IH i lb1(1) by simp
      moreover have "\<forall>j. j \<notin> set (i # is) \<longrightarrow> target_at lb' j = target_at lb j" using IH i lb1 by auto
      ultimately show ?thesis using r by simp
    qed
  qed
  show ?case
  proof (cases "banned ?t")
    case True
    with Cons.prems(3) show ?thesis by (intro go [of lb]) (auto simp: tried_def)
  next
    case False
    obtain res p where get: "pool_get (attempt i) (t_pool ?t) = (res, p)" by fastforce
    let ?lb1 = "on_target i (\<lambda>t. t\<lparr>t_pool := p\<rparr>) lb"
    have clear: "t_ban ?t = None" using False by (simp add: banned_def)
    show ?thesis
    proof (cases res)
      case (Inr conn)
      with Cons.prems(3) False get have "r = Some (i, conn)" "lb' = ?lb1" by (simp_all add: Let_def)
      with i False Inr get clear show ?thesis
        by (simp add: ban_error_def) (rule exI [of _ "[]"], rule exI [of _ "is"], auto)
    next
      case (Inl e)
      let ?lb2 = "if e \<noteq> Offline \<and> b then on_target i (\<lambda>t. snd (ban t e (pl_ban_timeout p) now)) ?lb1 else ?lb1"
      have rest: "lb_try attempt now b ?lb2 is = (r, lb')"
        using Cons.prems(3) False get Inl by (cases b) (simp_all add: Let_def split: if_splits)
      have "ban_error (target_at ?lb2 i) = (if b \<and> e \<noteq> Offline then Some e else None)"
        using i(1) clear by (auto simp: ban_error_def ban_def)
      then show ?thesis
        using False get Inl i(1) by (intro go [OF rest]) (auto simp: tried_def)
    qed
  qed
qed simp

lemma unban_all_spec:
  assumes "distinct is" "set is \<subseteq> {..<length (lb_targets lb)}"
  shows "target_at (unban_all m lb is) j = (if j \<in> set is then unban (target_at lb j) m else target_at lb j)"
    "length (lb_targets (unban_all m lb is)) = length (lb_targets lb)"
  using fold_on_target [OF assms, of "\<lambda>i t. unban t m"] by (simp_all add: unban_all_def)


definition demo_attempt :: "nat \<Rightarrow> attempt" where
  "demo_attempt i p = (Some (if i = 0 then Inl ServerError else Inr demo_server), p)"


section \<open>The ban check\<close>

definition should_ban :: "replica_lag \<Rightarrow> target \<Rightarrow> bool" where
  "should_ban threshold t \<longleftrightarrow> \<not> pl_healthy (t_pool t) \<or> greater_or_eq (pl_replica_lag (t_pool t)) threshold"

definition ban_reason :: "replica_lag \<Rightarrow> target \<Rightarrow> pool_error" where
  "ban_reason threshold t =
     (if greater_or_eq (pl_replica_lag (t_pool t)) threshold then ReplicaLagError else PoolUnhealthy)"

definition bannable :: "load_balancer \<Rightarrow> nat \<Rightarrow> bool" where
  "bannable lb i \<longleftrightarrow> length (lb_targets lb) > 1 \<and> pl_ban_timeout (t_pool (target_at lb i)) > 0"

lemma unban_if_expired_simps [simp]: "t_pool (snd (unban_if_expired t now)) = t_pool t"
  by (simp add: unban_if_expired_def)

lemma should_ban_alt:
  "should_ban thr t \<longleftrightarrow> \<not> (pl_healthy (t_pool t) \<and> \<not> greater_or_eq (pl_replica_lag (t_pool t)) thr)"
  by (simp add: should_ban_def)

lemma should_ban_pool: "t_pool t = t_pool t' \<Longrightarrow> should_ban thr t = should_ban thr t' \<and> ban_reason thr t = ban_reason thr t'"
  by (simp add: should_ban_def ban_reason_def)

lemma ban_check_loop_spec:
  assumes "distinct is" "set is \<subseteq> {..<length (lb_targets lb)}"
  shows "length (lb_targets (fst (ban_check_loop thr now len is lb))) = length (lb_targets lb)"
    and "target_at (fst (ban_check_loop thr now len is lb)) j =
      (if j \<in> set is \<and> \<not> should_ban thr (target_at lb j) then snd (unban_if_expired (target_at lb j) now) else target_at lb j)"
    and "snd (snd (ban_check_loop thr now len is lb)) = map (\<lambda>i. (i, ban_reason thr (target_at lb i)))
      (filter (\<lambda>i. should_ban thr (target_at lb i) \<and> len > 1 \<and> pl_ban_timeout (t_pool (target_at lb i)) > 0) is)"
    and "fst (snd (ban_check_loop thr now len is lb)) = length (snd (snd (ban_check_loop thr now len is lb)))"
proof -
  have "length (lb_targets (fst (ban_check_loop thr now len is lb))) = length (lb_targets lb)
    \<and> (\<forall>j. target_at (fst (ban_check_loop thr now len is lb)) j =
      (if j \<in> set is \<and> \<not> should_ban thr (target_at lb j) then snd (unban_if_expired (target_at lb j) now) else target_at lb j))
    \<and> snd (snd (ban_check_loop thr now len is lb)) = map (\<lambda>i. (i, ban_reason thr (target_at lb i)))
      (filter (\<lambda>i. should_ban thr (target_at lb i) \<and> len > 1 \<and> pl_ban_timeout (t_pool (target_at lb i)) > 0) is)
    \<and> fst (snd (ban_check_loop thr now len is lb)) = length (snd (snd (ban_check_loop thr now len is lb)))"
    using assms
  proof (induction "is" arbitrary: lb)
    case (Cons i "is")
    let ?lb1 = "if \<not> should_ban thr (target_at lb i) then on_target i (\<lambda>t. snd (unban_if_expired t now)) lb else lb"
    have i: "i < length (lb_targets lb)" "i \<notin> set is" "distinct is" "set is \<subseteq> {..<length (lb_targets lb)}"
      using Cons.prems by auto
    have pools: "t_pool (target_at ?lb1 j) = t_pool (target_at lb j)" for j using i(1) by simp
    have sb: "should_ban thr (target_at ?lb1 j) = should_ban thr (target_at lb j)"
      "ban_reason thr (target_at ?lb1 j) = ban_reason thr (target_at lb j)" for j
      using should_ban_pool [OF pools] by simp_all
    have step: "ban_check_loop thr now len (i # is) lb =
      (let rest = ban_check_loop thr now len is ?lb1 in
       if should_ban thr (target_at lb i) \<and> len > 1 \<and> pl_ban_timeout (t_pool (target_at lb i)) > 0
       then (fst rest, Suc (fst (snd rest)), (i, ban_reason thr (target_at lb i)) # snd (snd rest)) else rest)"
    proof (cases "should_ban thr (target_at lb i)")
      case True
      then have cond: "(pl_healthy (t_pool (target_at lb i)) \<and> \<not> greater_or_eq (pl_replica_lag (t_pool (target_at lb i))) thr) = False"
        "(\<not> pl_healthy (t_pool (target_at lb i)) \<or> greater_or_eq (pl_replica_lag (t_pool (target_at lb i))) thr) = True"
        by (auto simp: should_ban_def)
      show ?thesis using True unfolding ban_check_loop.simps Let_def cond by (simp add: ban_reason_def)
    next
      case False
      then have cond: "(pl_healthy (t_pool (target_at lb i)) \<and> \<not> greater_or_eq (pl_replica_lag (t_pool (target_at lb i))) thr) = True"
        "(\<not> pl_healthy (t_pool (target_at lb i)) \<or> greater_or_eq (pl_replica_lag (t_pool (target_at lb i))) thr) = False"
        by (auto simp: should_ban_def)
      show ?thesis using False unfolding ban_check_loop.simps Let_def cond by simp
    qed
    have IH: "length (lb_targets (fst (ban_check_loop thr now len is ?lb1))) = length (lb_targets lb)
      \<and> (\<forall>j. target_at (fst (ban_check_loop thr now len is ?lb1)) j =
        (if j \<in> set is \<and> \<not> should_ban thr (target_at lb j) then snd (unban_if_expired (target_at ?lb1 j) now) else target_at ?lb1 j))
      \<and> snd (snd (ban_check_loop thr now len is ?lb1)) = map (\<lambda>i. (i, ban_reason thr (target_at lb i)))
        (filter (\<lambda>i. should_ban thr (target_at lb i) \<and> len > 1 \<and> pl_ban_timeout (t_pool (target_at lb i)) > 0) is)
      \<and> fst (snd (ban_check_loop thr now len is ?lb1)) = length (snd (snd (ban_check_loop thr now len is ?lb1)))"
      using Cons.IH [of ?lb1] i(3,4) unfolding sb pools by simp
    then show ?case
      unfolding step using i(1,2) by (cases "should_ban thr (target_at lb i)") (auto simp: Let_def)
  qed simp
  then show "length (lb_targets (fst (ban_check_loop thr now len is lb))) = length (lb_targets lb)"
    "target_at (fst (ban_check_loop thr now len is lb)) j =
      (if j \<in> set is \<and> \<not> should_ban thr (target_at lb j) then snd (unban_if_expired (target_at lb j) now) else target_at lb j)"
    "snd (snd (ban_check_loop thr now len is lb)) = map (\<lambda>i. (i, ban_reason thr (target_at lb i)))
      (filter (\<lambda>i. should_ban thr (target_at lb i) \<and> len > 1 \<and> pl_ban_timeout (t_pool (target_at lb i)) > 0) is)"
    "fst (snd (ban_check_loop thr now len is lb)) = length (snd (snd (ban_check_loop thr now len is lb)))"
    by blast+
qed

lemma length_filter_all: "length (filter P xs) = length xs \<longleftrightarrow> (\<forall>x\<in>set xs. P x)"
proof (induction xs)
  case (Cons x xs)
  show ?case
  proof (cases "P x")
    case False
    have "length (filter P xs) < length (x # xs)" by (simp add: less_Suc_eq_le)
    with False show ?thesis by auto
  qed (use Cons in simp)
qed simp

lemma ban_check_target:
  fixes t :: target
  assumes "t1 = (if \<not> should_ban threshold t then snd (unban_if_expired t now) else t)"
  shows "t_ban (if should_ban threshold t \<and> ok then snd (ban t1 reason (pl_ban_timeout (t_pool t1)) now) else t1) =
    (if should_ban threshold t \<and> ok \<and> \<not> banned t
     then Some \<lparr>be_created_at = now, be_error = reason, be_ban_timeout = pl_ban_timeout (t_pool t)\<rparr>
     else if \<not> should_ban threshold t \<and> (\<exists>b. t_ban t = Some b \<and> ban_expired b now \<and> be_error b \<noteq> ManualBan) then None
     else t_ban t)"
proof (cases "should_ban threshold t")
  case True
  then show ?thesis by (simp add: assms ban_def banned_def)
next
  case False
  then have "pl_healthy (t_pool t)" by (simp add: should_ban_def)
  with False show ?thesis by (cases "t_ban t") (simp_all add: assms unban_if_expired_def)
qed

text \<open>The ban check bans every target that is unhealthy or lags too far behind, unless that is all of them: then it
  lifts all bans. It lifts the ban of a target that is fine exactly when the ban has expired and is not the
  administrator's; all other bans stay as they are.\<close>

theorem ban_check_result:
  assumes "i < length (lb_targets lb)"
  shows "t_ban (target_at (ban_check threshold now lb) i) =
    (let t = target_at lb i in
     if \<forall>j<length (lb_targets lb). should_ban threshold (target_at lb j) \<and> bannable lb j then None
     else if should_ban threshold t \<and> bannable lb i \<and> \<not> banned t
     then Some \<lparr>be_created_at = now, be_error = ban_reason threshold t, be_ban_timeout = pl_ban_timeout (t_pool t)\<rparr>
     else if \<not> should_ban threshold t \<and> (\<exists>b. t_ban t = Some b \<and> ban_expired b now \<and> be_error b \<noteq> ManualBan) then None
     else t_ban t)"
proof -
  let ?n = "length (lb_targets lb)"
  let ?bad = "\<lambda>j. should_ban threshold (target_at lb j) \<and> ?n > 1 \<and> pl_ban_timeout (t_pool (target_at lb j)) > 0"
  let ?bts = "map (\<lambda>j. (j, ban_reason threshold (target_at lb j))) (filter ?bad [0..<?n])"
  have up: "distinct [0..<?n]" "set [0..<?n] \<subseteq> {..<?n}" by auto
  obtain lb1 k bts where loop: "ban_check_loop threshold now ?n [0..<?n] lb = (lb1, k, bts)" by (metis prod_cases3)
  note spec = ban_check_loop_spec [OF up, of threshold now ?n, unfolded loop fst_conv snd_conv]
  have check: "ban_check threshold now lb = (if ?n = length ?bts then unban_all False lb1 [0..<?n]
      else foldl (\<lambda>lb (i, reason). on_target i (\<lambda>t. snd (ban t reason (pl_ban_timeout (t_pool t)) now)) lb) lb1 ?bts)"
    by (simp add: ban_check_def loop spec)
  have all: "?n = length ?bts \<longleftrightarrow> (\<forall>j<?n. should_ban threshold (target_at lb j) \<and> bannable lb j)"
    using length_filter_all [of ?bad "[0..<?n]"] by (auto simp: bannable_def eq_commute [of ?n])
  have fold: "foldl (\<lambda>lb (i, reason). on_target i (\<lambda>t. snd (ban t reason (pl_ban_timeout (t_pool t)) now)) lb) lb1
      (map (\<lambda>j. (j, r j)) is) =
    foldl (\<lambda>lb i. on_target i (\<lambda>t. snd (ban t (r i) (pl_ban_timeout (t_pool t)) now)) lb) lb1 is" for r "is"
    by (induction "is" arbitrary: lb1) simp_all
  have lb1: "target_at lb1 i = (if \<not> should_ban threshold (target_at lb i) then snd (unban_if_expired (target_at lb i) now)
      else target_at lb i)" using assms by (simp add: spec(2))
  show ?thesis
  proof (cases "?n = length ?bts")
    case True
    have "target_at (unban_all False lb1 [0..<?n]) i = unban (target_at lb1 i) False"
      using assms spec(1) by (subst unban_all_spec(1)) auto
    with True all show ?thesis by (simp add: check)
  next
    case False
    have "target_at (ban_check threshold now lb) i = (if ?bad i
      then snd (ban (target_at lb1 i) (ban_reason threshold (target_at lb i)) (pl_ban_timeout (t_pool (target_at lb1 i))) now)
      else target_at lb1 i)"
      unfolding check if_not_P [OF False] fold using assms spec(1) by (subst fold_on_target) auto
    then have "t_ban (target_at (ban_check threshold now lb) i) = t_ban (if should_ban threshold (target_at lb i) \<and> bannable lb i
      then snd (ban (target_at lb1 i) (ban_reason threshold (target_at lb i)) (pl_ban_timeout (t_pool (target_at lb1 i))) now)
      else target_at lb1 i)" by (simp only: bannable_def)
    also note ban_check_target [OF lb1]
    finally show ?thesis using False unfolding all Let_def by (simp only: if_False simp_thms)
  qed
qed

definition demo_unhealthy :: load_balancer where
  "demo_unhealthy = on_target 0 (\<lambda>t. t\<lparr>t_pool := health_toggle (t_pool t) False\<rparr>) (demo_lb Random)"

definition demo_threshold :: replica_lag where
  "demo_threshold = \<lparr>rl_duration = 1000, rl_bytes = 1000\<rparr>"

lemma demo_unhealthy_facts:
  "length (lb_targets demo_unhealthy) = 2" "should_ban demo_threshold (target_at demo_unhealthy 0)"
  "\<not> should_ban demo_threshold (target_at demo_unhealthy 1)" "\<not> banned (target_at demo_unhealthy 0)"
  "bannable demo_unhealthy 0" "ban_reason demo_threshold (target_at demo_unhealthy 0) = PoolUnhealthy"
  by (simp_all add: demo_unhealthy_def demo_lb_def lb_new_def target_new_def demo_backend_def health_toggle_def on_target_def
      should_ban_def greater_or_eq_def lag_default_def demo_threshold_def banned_def bannable_def ban_reason_def)

theorem ban_check_result_witness:
  "ban_error (target_at (ban_check demo_threshold 7 demo_unhealthy) 0) = Some PoolUnhealthy"
proof -
  have "\<not> (\<forall>j<length (lb_targets demo_unhealthy). should_ban demo_threshold (target_at demo_unhealthy j) \<and> bannable demo_unhealthy j)"
    using demo_unhealthy_facts(1,3) by (auto intro!: exI [of _ "1"])
  then show ?thesis
    using ban_check_result [of 0 demo_unhealthy demo_threshold 7] demo_unhealthy_facts by (simp add: ban_error_def Let_def)
qed

section \<open>Roles and lag\<close>

lemma find_sorted_min:
  assumes "find P (sort_key key xs) = Some x"
  shows "x \<in> set xs" "P x" "y \<in> set xs \<Longrightarrow> P y \<Longrightarrow> key x \<le> key y"
proof -
  let ?ys = "sort_key key xs"
  obtain i where i: "i < length ?ys" "P (?ys ! i)" "x = ?ys ! i" "\<forall>j<i. \<not> P (?ys ! j)"
    using assms by (auto simp: find_Some_iff)
  then show "x \<in> set xs" "P x" by (metis nth_mem set_sort, simp)
  assume "y \<in> set xs" "P y"
  then obtain k where k: "k < length ?ys" "y = ?ys ! k" by (metis in_set_conv_nth set_sort)
  with i(4) \<open>P y\<close> have "i \<le> k" by (metis not_le)
  then show "key x \<le> key y"
    using sorted_nth_mono [OF sorted_sort_key [of key xs], of i k] i k by simp
qed

abbreviation stats_at :: "load_balancer \<Rightarrow> nat \<Rightarrow> lsn_stats" where
  "stats_at lb i \<equiv> pl_lsn_stats (t_pool (target_at lb i))"

abbreviation electable :: "load_balancer \<Rightarrow> nat \<Rightarrow> bool" where
  "electable lb i \<equiv> \<not> ls_replica (stats_at lb i) \<and> lsn_valid (stats_at lb i)"

text \<open>C16: When role detection promotes a target, that target is not in recovery and has valid statistics, none of the
  others that qualify has fresher ones, and afterwards it is the one primary, all others are replicas, the roles
  count as detected and those who wait for them are woken; otherwise no role changes.\<close>

theorem promotion_elects_one_primary:
  assumes "redetect_roles now lb = (promoted, lb')"
  shows "if promoted
    then (\<exists>p<length (lb_targets lb). electable lb p
        \<and> (\<forall>j<length (lb_targets lb). electable lb j \<longrightarrow> lsn_age (stats_at lb p) now \<le> lsn_age (stats_at lb j) now)
        \<and> t_role (target_at lb p) \<noteq> Primary
        \<and> (\<forall>j<length (lb_targets lb). t_role (target_at lb' j) = (if j = p then Primary else Replica)))
      \<and> roles_detected lb' \<and> lb_role_permit lb'
    else \<forall>j<length (lb_targets lb). t_role (target_at lb' j) = t_role (target_at lb j)"
proof -
  let ?n = "length (lb_targets lb)"
  let ?order = "sort_key (\<lambda>i. lsn_age (stats_at lb i) now) [0..<?n]"
  show ?thesis
  proof (cases "find (electable lb) ?order")
    case None
    with assms show ?thesis by (auto simp: redetect_roles_def Let_def)
  next
    case (Some p)
    note p = find_sorted_min [OF Some]
    let ?lb1 = "on_target p (\<lambda>t. snd (set_role t Primary)) lb"
    let ?others = "filter (\<lambda>i. i \<noteq> p) ?order"
    let ?lb2 = "foldl (\<lambda>lb i. on_target i (\<lambda>t. snd (set_role t Replica)) lb) ?lb1 ?others"
    have lt: "p < ?n" using p(1) by simp
    have promoted: "promoted \<longleftrightarrow> t_role (target_at lb p) \<noteq> Primary"
      and lb': "lb' = (if promoted then ?lb2\<lparr>lb_role_permit := True\<rparr> else ?lb1)"
      using assms Some by (cases "t_role (target_at lb p)"; simp add: redetect_roles_def Let_def set_role_def)+
    have others: "distinct ?others" "set ?others \<subseteq> {..<length (lb_targets ?lb1)}" by auto
    have roles: "t_role (target_at ?lb2 j) = (if j = p then Primary else Replica)" if "j < ?n" for j
    proof -
      have "target_at ?lb2 j = (if j \<in> set ?others then snd (set_role (target_at ?lb1 j) Replica) else target_at ?lb1 j)"
        by (rule fold_on_target(2) [OF others])
      with that lt show ?thesis by (simp add: set_role_def)
    qed
    have len: "length (lb_targets ?lb2) = ?n" by (simp add: fold_on_target(1) [OF others])
    show ?thesis
    proof (cases promoted)
      case True
      have "roles_detected lb'"
        using True lb' roles len by (auto simp: roles_detected_def list_ex_iff in_set_conv_nth split: if_splits)
      moreover have "\<forall>j<?n. t_role (target_at lb' j) = (if j = p then Primary else Replica)"
        using True lb' roles by simp
      ultimately show ?thesis using True lb' lt p promoted by auto
    next
      case False
      then show ?thesis using lb' lt promoted by (simp add: set_role_def)
    qed
  qed
qed

definition demo_auto :: load_balancer where
  "demo_auto = lb_new None
     [demo_backend 0 Auto 1,
      (demo_backend 1 Auto 1)\<lparr>pl_lsn_stats := (lsn_stats_default 5)
         \<lparr>ls_replica := False, ls_lsn := \<lparr>lsn_high = 0, lsn_low = 9, lsn_lsn = 9\<rparr>\<rparr>\<rparr>] Random IncludePrimary"

theorem promotion_elects_one_primary_witness:
  "fst (redetect_roles 10 demo_auto) \<and> roles_detected (snd (redetect_roles 10 demo_auto))"
proof -
  have "fst (redetect_roles 10 demo_auto)"
    by (simp add: redetect_roles_def demo_auto_def lb_new_def target_new_def demo_backend_def lsn_stats_default_def
        lsn_valid_def lsn_age_def lsn_default_def set_role_def Let_def upt_conv_Cons)
  then show ?thesis
    using promotion_elects_one_primary [of 10 demo_auto, OF prod.collapse [symmetric]] by simp
qed

text \<open>C17: A round of the shard monitor never reports a replica as lagging: it measures how far the primary is behind the
  replica instead of the other way round, so the lag of a replica that is behind is a negative number of bytes and no
  time at all, and a threshold on either is never reached. The ban check then bans no target for its lag.\<close>

theorem replica_lag_never_reported:
  assumes "p < length (lb_targets lb)" "\<not> ls_replica (stats_at lb p)" "\<forall>j<p. ls_replica (stats_at lb j)"
    and "i < length (lb_targets lb)" "ls_replica (stats_at lb i)"
    and "lsn_lsn (ls_lsn (stats_at lb i)) < lsn_lsn (ls_lsn (stats_at lb p))"
    and "ls_timestamp (stats_at lb i) \<le> ls_timestamp (stats_at lb p)"
    and "0 \<le> rl_bytes threshold" "0 < rl_duration threshold"
  shows "pl_replica_lag (t_pool (target_at (update_replica_lag lb) i)) =
      \<lparr>rl_duration = 0, rl_bytes = - (lsn_lsn (ls_lsn (stats_at lb p)) - lsn_lsn (ls_lsn (stats_at lb i)))\<rparr>
    \<and> \<not> greater_or_eq (pl_replica_lag (t_pool (target_at (update_replica_lag lb) i))) threshold"
proof -
  let ?n = "length (lb_targets lb)"
  let ?rs = "filter (\<lambda>i. ls_replica (stats_at lb i)) [0..<?n]"
  let ?f = "\<lambda>i. set_lag (measure_lag (stats_at lb p) (stats_at lb i))"
  have find: "find (\<lambda>i. \<not> ls_replica (stats_at lb i)) [0..<?n] = Some p"
    using assms(1-3) by (auto simp: find_Some_iff intro!: exI [of _ p])
  have rs: "distinct ?rs" "set ?rs \<subseteq> {..<?n}" by auto
  have "i \<noteq> p" using assms(2,5) by auto
  moreover have "target_at (foldl (\<lambda>lb i. on_target i (?f i) lb) lb ?rs) i = ?f i (target_at lb i)"
    using fold_on_target(2) [OF rs, of ?f i] assms(4,5) by simp
  moreover have "p < length (lb_targets (foldl (\<lambda>lb i. on_target i (?f i) lb) lb ?rs))"
    using fold_on_target(1) [OF rs, of ?f] assms(1) by simp
  ultimately have "target_at (update_replica_lag lb) i = ?f i (target_at lb i)"
    by (simp add: update_replica_lag_def Let_def find)
  then show ?thesis
    using assms(6-9) by (simp add: set_lag_def measure_lag_def stats_replica_lag_def greater_or_eq_def Let_def)
qed

definition demo_lagging :: load_balancer where
  "demo_lagging = lb_new
     (Some ((demo_backend 0 Primary 1)\<lparr>pl_lsn_stats := (lsn_stats_default 5)
         \<lparr>ls_replica := False, ls_lsn := \<lparr>lsn_high = 0, lsn_low = 999999, lsn_lsn = 999999\<rparr>, ls_timestamp := 60000\<rparr>\<rparr>))
     [demo_backend 1 Replica 1] Random IncludePrimary"

lemma demo_lagging_facts:
  "length (lb_targets demo_lagging) = 2" "\<not> ls_replica (stats_at demo_lagging 1)" "ls_replica (stats_at demo_lagging 0)"
  "lsn_lsn (ls_lsn (stats_at demo_lagging 0)) = 0" "lsn_lsn (ls_lsn (stats_at demo_lagging 1)) = 999999"
  "ls_timestamp (stats_at demo_lagging 0) = 0" "ls_timestamp (stats_at demo_lagging 1) = 60000"
  by (simp_all add: demo_lagging_def lb_new_def target_new_def demo_backend_def lsn_stats_default_def lsn_default_def)

theorem replica_lag_never_reported_witness:
  "\<not> greater_or_eq (pl_replica_lag (t_pool (target_at (update_replica_lag demo_lagging) 0))) demo_threshold"
  by (rule conjunct2 [OF replica_lag_never_reported [of 1]])
    (simp_all add: demo_lagging_facts [unfolded One_nat_def] demo_threshold_def)

subsection \<open>Mixed roles\<close>

definition roles :: "load_balancer \<Rightarrow> role list \<times> bool" where
  "roles lb = (map t_role (lb_targets lb), lb_role_permit lb)"

lemma roles_on_target: "(\<And>t. t_role (f t) = t_role t) \<Longrightarrow> roles (on_target i f lb) = roles lb"
  by (cases "i < length (lb_targets lb)")
    (simp_all add: roles_def on_target_def map_update list_update_same_conv list_update_beyond)

lemma roles_fold:
  "(\<And>x lb. x \<in> set xs \<Longrightarrow> roles (g lb x) = roles lb) \<Longrightarrow> roles (foldl g lb xs) = roles lb"
  by (induction xs arbitrary: lb) simp_all

lemma roles_ban [simp]: "t_role (snd (ban t e timeout now)) = t_role t" "t_role (snd (unban_if_expired t now)) = t_role t"
  by (simp_all add: ban_def unban_if_expired_def)

lemma roles_arrange: "roles (snd (lb_arrange shuffle lb cs)) = roles lb"
proof -
  have w: "roles (add_weight w i lb) = roles lb" for w i lb
    unfolding add_weight_def by (rule roles_on_target) simp
  have "roles (lb\<lparr>lb_round_robin := r\<rparr>) = roles lb" for r by (simp add: roles_def)
  then show ?thesis
    by (auto simp: lb_arrange_def weighted_round_robin_def Let_def w roles_fold split: lb_strategy.split)
qed

lemma roles_try: "roles (snd (lb_try attempt now b lb is)) = roles lb"
  by (induction attempt now b lb "is" rule: lb_try.induct)
    (auto simp: Let_def roles_on_target split: prod.split sum.split)

lemma roles_read: "roles (snd (lb_get_internal shuffle attempt now lb)) = roles lb"
proof -
  have "roles (unban_all m lb is) = roles lb" for m lb "is"
    unfolding unban_all_def by (rule roles_fold) (simp add: roles_on_target)
  then show ?thesis
    using roles_arrange [of shuffle lb "lb_candidates lb"]
      roles_try [of attempt now "length (fst (lb_arrange shuffle lb (lb_candidates lb))) > 1"
        "snd (lb_arrange shuffle lb (lb_candidates lb))" "fst (lb_arrange shuffle lb (lb_candidates lb))"]
    by (auto simp: lb_get_internal_def Let_def case_prod_beta split: option.split)
qed

lemma roles_ban_check_loop: "roles (fst (ban_check_loop thr now len is lb)) = roles lb"
  by (induction "is" arbitrary: lb) (simp_all add: Let_def roles_on_target)

lemma roles_ban_check: "roles (ban_check thr now lb) = roles lb"
proof -
  have "roles (foldl (\<lambda>lb (i, reason). on_target i (\<lambda>t. snd (ban t reason (pl_ban_timeout (t_pool t)) now)) lb) lb1 bts) = roles lb1"
    "roles (unban_all m lb1 is) = roles lb1" for lb1 bts m "is"
    unfolding unban_all_def by (rule roles_fold; simp add: roles_on_target split: prod.split)+
  then show ?thesis
    using roles_ban_check_loop [of thr now "length (lb_targets lb)" "[0..<length (lb_targets lb)]" lb]
    by (simp add: ban_check_def Let_def case_prod_beta)
qed

lemma roles_lag: "roles (update_replica_lag lb) = roles lb"
proof -
  have l: "t_role (set_lag l t) = t_role t" for l t by (simp add: set_lag_def)
  have "roles (foldl (\<lambda>lb i. on_target i (set_lag (f i)) lb) lb is) = roles lb" for f lb "is"
    by (rule roles_fold) (simp add: roles_on_target l)
  then show ?thesis by (auto simp: update_replica_lag_def Let_def roles_on_target l split: option.split)
qed

text \<open>The life of a load balancer whose role detector is enabled or not.\<close>

inductive lb_run :: "bool \<Rightarrow> load_balancer \<Rightarrow> load_balancer \<Rightarrow> bool" for enabled lb0 where
  start: "lb_run enabled lb0 lb0"
| read: "lb_run enabled lb0 lb \<Longrightarrow> lb_run enabled lb0 (snd (lb_get_internal shuffle attempt now lb))"
| "write": "lb_run enabled lb0 lb \<Longrightarrow> lb_run enabled lb0 (snd (lb_get_primary attempt lb))"
| check: "lb_run enabled lb0 lb \<Longrightarrow> lb_run enabled lb0 (ban_check threshold now lb)"
| monitor: "lb_run enabled lb0 lb \<Longrightarrow> lb_run enabled lb0 (update_replica_lag (snd (detector_changed enabled now lb)))"

lemma roles_primary: "roles (snd (lb_get_primary attempt lb)) = roles lb"
  by (auto simp: lb_get_primary_def roles_on_target split: option.split prod.split)

lemma lb_run_roles: "lb_run enabled lb0 lb \<Longrightarrow> \<not> enabled \<Longrightarrow> roles lb = roles lb0"
  by (induction rule: lb_run.induct)
    (simp_all add: roles_read roles_primary roles_ban_check roles_lag detector_changed_def)

text \<open>A shard with a configured primary and a database whose role is to be detected accepts no writes: the role
  detector is off because not every role is automatic, so the roles never count as detected, and every request for
  the primary waits until it times out, whatever else happens.\<close>

theorem mixed_roles_block_writes:
  assumes "\<not> pl_role_detection primary" "replica \<in> set replicas" "pl_configured_role replica = Auto"
    and "lb0 = lb_new (Some primary) replicas strategy split" "lb_run (detector_enabled lb0) lb0 lb"
  shows "primary_target lb0 = Some (target_new primary Primary) \<and> fst (lb_get_primary attempt lb) = Inl CheckoutTimeout"
proof -
  have "\<not> detector_enabled lb0"
    using assms(1,4) by (simp add: detector_enabled_def lb_new_def target_new_def)
  then have "roles lb = roles lb0" using lb_run_roles [OF assms(5)] by simp
  moreover have "Auto \<in> set (fst (roles lb0))" "\<not> snd (roles lb0)"
    using assms(2-4) by (force simp: roles_def lb_new_def target_new_def)+
  ultimately have "Auto \<in> set (map t_role (lb_targets lb))" "\<not> lb_role_permit lb"
    by (simp_all add: roles_def)
  then have "\<not> roles_detected lb" by (force simp: roles_detected_def list_ex_iff)
  with \<open>\<not> lb_role_permit lb\<close> show ?thesis
    using assms(4) by (simp add: lb_get_primary_def primary_target_def lb_new_def target_new_def)
qed

theorem mixed_roles_block_writes_witness:
  "fst (lb_get_primary (\<lambda>_ p. (Some (Inr demo_server), p))
      (lb_new (Some (demo_backend 0 Primary 1)) [demo_backend 1 Auto 1] Random IncludePrimary)) = Inl CheckoutTimeout"
  by (rule conjunct2 [OF mixed_roles_block_writes [of "demo_backend 0 Primary 1" "demo_backend 1 Auto 1", OF _ _ _ refl lb_run.start]])
    (simp_all add: demo_backend_def)

end
