(* ===== verification/UniqueId.thy ===== *)
theory UniqueId
  imports Prelude
begin

unbundle bit_operations_syntax

text \<open>
  \<^verbatim>\<open>pgdog/src/unique_id.rs\<close>: the generator of unique 64-bit ids from the time, the number of the node and a sequence
  number. The readings of the clock are a function \<open>clock\<close> from the number of the reading, which may go backwards; the
  loop that waits for the clock may not end. A failed assertion ends the program and is the value \<open>Inl\<close>.
\<close>

section \<open>Layout\<close>

abbreviation TIMESTAMP_BITS :: nat where "TIMESTAMP_BITS \<equiv> 41"
abbreviation NODE_BITS :: nat where "NODE_BITS \<equiv> 10"
abbreviation SEQUENCE_BITS :: nat where "SEQUENCE_BITS \<equiv> 12"
abbreviation COMPACT_NODE_BITS :: nat where "COMPACT_NODE_BITS \<equiv> 6"
abbreviation COMPACT_SEQUENCE_BITS :: nat where "COMPACT_SEQUENCE_BITS \<equiv> 6"

definition PGDOG_EPOCH :: u64 where "PGDOG_EPOCH = 1764184395000"

definition MAX_TIMESTAMP :: u64 where "MAX_TIMESTAMP = push_bit TIMESTAMP_BITS 1 - 1"
definition MAX_NODE_ID :: u64 where "MAX_NODE_ID = push_bit NODE_BITS 1 - 1"
definition MAX_SEQUENCE :: u64 where "MAX_SEQUENCE = push_bit SEQUENCE_BITS 1 - 1"
definition COMPACT_MAX_NODE_ID :: u64 where "COMPACT_MAX_NODE_ID = push_bit COMPACT_NODE_BITS 1 - 1"
definition COMPACT_MAX_SEQUENCE :: u64 where "COMPACT_MAX_SEQUENCE = push_bit COMPACT_SEQUENCE_BITS 1 - 1"

definition MAX_OFFSET :: u64 where
  "MAX_OFFSET = (push_bit 63 1 - 1)
     - (push_bit (SEQUENCE_BITS + NODE_BITS) MAX_TIMESTAMP OR push_bit SEQUENCE_BITS MAX_NODE_ID OR MAX_SEQUENCE)"

definition COMPACT_MAX_OFFSET :: u64 where
  "COMPACT_MAX_OFFSET = (push_bit 53 1 - 1)
     - (push_bit (COMPACT_SEQUENCE_BITS + COMPACT_NODE_BITS) MAX_TIMESTAMP
        OR push_bit COMPACT_SEQUENCE_BITS COMPACT_MAX_NODE_ID OR COMPACT_MAX_SEQUENCE)"

section \<open>Generators\<close>

record id_state =
  last_timestamp_ms :: u64
  id_sequence :: u64

datatype id_panic = TimestampOverflow u64

partial_function (option) wait_until_with :: "(nat \<Rightarrow> u64) \<Rightarrow> u64 \<Rightarrow> nat \<Rightarrow> (u64 \<times> nat) option" where
  "wait_until_with clock target_ms k =
     (if clock k \<ge> target_ms then Some (clock k, Suc k) else wait_until_with clock target_ms (Suc k))"

text \<open>\<^verbatim>\<open>State::next_id_with\<close> and \<^verbatim>\<open>CompactState::next_id\<close> have the same text up to the constants.\<close>

definition next_id_layout ::
    "nat \<Rightarrow> nat \<Rightarrow> u64 \<Rightarrow> u64 \<Rightarrow> u64 \<Rightarrow> (nat \<Rightarrow> u64) \<Rightarrow> nat \<Rightarrow> id_state \<Rightarrow> ((id_panic + u64) \<times> id_state \<times> nat) option" where
  "next_id_layout node_bits sequence_bits max_sequence node_id id_offset clock k s =
     Option.bind (wait_until_with clock (last_timestamp_ms s) k) (\<lambda>(now, k).
     Option.bind
       (if now = last_timestamp_ms s then
          let sequence = (id_sequence s + 1) AND max_sequence in
          if sequence = 0
          then map_option (\<lambda>(now, k). (now, sequence, k)) (wait_until_with clock (now + 1) k)
          else Some (now, sequence, k)
        else Some (now, 0, k)) (\<lambda>(now, sequence, k).
     let s = \<lparr>last_timestamp_ms = now, id_sequence = sequence\<rparr>;
         elapsed = now - PGDOG_EPOCH
     in if \<not> elapsed \<le> MAX_TIMESTAMP then Some (Inl (TimestampOverflow elapsed), s, k)
        else
          let timestamp_part = push_bit (sequence_bits + node_bits) (elapsed AND MAX_TIMESTAMP);
              node_part = push_bit sequence_bits node_id;
              base_id = timestamp_part OR node_part OR sequence
          in Some (Inr (base_id + id_offset), s, k)))"

definition state_next_id where
  "state_next_id = next_id_layout NODE_BITS SEQUENCE_BITS MAX_SEQUENCE"

definition compact_next_id where
  "compact_next_id = next_id_layout COMPACT_NODE_BITS COMPACT_SEQUENCE_BITS COMPACT_MAX_SEQUENCE"

datatype unique_id_function = Standard | Compact

datatype unique_id_error =
  InvalidNodeId string | NodeIdTooLarge u64 | CompactNodeIdTooLarge u64 | OffsetTooLarge u64

record unique_id =
  uid_node_id :: u64
  uid_id_offset :: u64
  uid_standard :: id_state
  uid_compact :: id_state
  uid_function :: unique_id_function

definition id_state_default :: id_state where
  "id_state_default = \<lparr>last_timestamp_ms = 0, id_sequence = 0\<rparr>"

text \<open>The number of the node is parsed from the name of the instance; \<open>None\<close> is a failure to parse it.\<close>

definition uid_new :: "unique_id_function \<Rightarrow> string \<Rightarrow> u64 option \<Rightarrow> u64 \<Rightarrow> unique_id_error + unique_id" where
  "uid_new function instance_id node_id min_id =
     (case node_id of
        None \<Rightarrow> Inl (InvalidNodeId instance_id)
      | Some node_id \<Rightarrow>
          let ok = Inr \<lparr>uid_node_id = node_id, uid_id_offset = min_id, uid_standard = id_state_default,
                        uid_compact = id_state_default, uid_function = function\<rparr> in
          (case function of
             Standard \<Rightarrow>
               if node_id > MAX_NODE_ID then Inl (NodeIdTooLarge node_id)
               else if min_id > MAX_OFFSET then Inl (OffsetTooLarge min_id) else ok
           | Compact \<Rightarrow>
               if node_id > COMPACT_MAX_NODE_ID then Inl (CompactNodeIdTooLarge node_id)
               else if min_id > COMPACT_MAX_OFFSET then Inl (OffsetTooLarge min_id) else ok))"

definition uid_next_id :: "(nat \<Rightarrow> u64) \<Rightarrow> nat \<Rightarrow> unique_id \<Rightarrow> ((id_panic + int) \<times> unique_id \<times> nat) option" where
  "uid_next_id clock k g =
     (case uid_function g of
        Compact \<Rightarrow>
          map_option (\<lambda>(r, s, k). (map_sum id sint r, g\<lparr>uid_compact := s\<rparr>, k))
            (compact_next_id (uid_node_id g) (uid_id_offset g) clock k (uid_compact g))
      | Standard \<Rightarrow>
          map_option (\<lambda>(r, s, k). (map_sum id sint r, g\<lparr>uid_standard := s\<rparr>, k))
            (state_next_id (uid_node_id g) (uid_id_offset g) clock k (uid_standard g)))"

text \<open>The ids of \<open>n\<close> calls, if all of them return one.\<close>

fun uid_run :: "(nat \<Rightarrow> u64) \<Rightarrow> nat \<Rightarrow> nat \<Rightarrow> unique_id \<Rightarrow> int list option" where
  "uid_run clock 0 k g = Some []"
| "uid_run clock (Suc n) k g =
     (case uid_next_id clock k g of
        Some (Inr i, g, k) \<Rightarrow> map_option (Cons i) (uid_run clock n k g)
      | _ \<Rightarrow> None)"

section \<open>The waiting loop\<close>

lemma wait_until_fst: "wait_until_with clock t k = Some y \<Longrightarrow> t \<le> fst y"
  by (rule wait_until_with.raw_induct [where P = "\<lambda>clock t k y. t \<le> fst y"]) (auto split: if_splits)

lemma wait_until_Some: "wait_until_with clock t k = Some (now, k') \<Longrightarrow> t \<le> now"
  using wait_until_fst by fastforce

lemma wait_until_returns: "k \<le> j \<Longrightarrow> t \<le> clock j \<Longrightarrow> \<exists>now k'. wait_until_with clock t k = Some (now, k')"
proof (induction "j - k" arbitrary: k)
  case 0
  then show ?case by (subst wait_until_with.simps) (simp add: le_antisym)
next
  case (Suc d)
  then show ?case
    by (subst wait_until_with.simps) (auto intro: Suc.hyps(1) [of "Suc k"])
qed

section \<open>The parts of an id\<close>

lemma push_or_add_nat: "y < 2 ^ n \<Longrightarrow> push_bit n x OR y = x * 2 ^ n + (y :: nat)"
proof -
  assume "y < 2 ^ n"
  then have y: "y = take_bit n y" by (simp add: take_bit_nat_eq_self)
  have "push_bit n x AND y = 0"
    by (subst y, rule bit_eqI) (auto simp: bit_simps)
  then show ?thesis by (simp add: disjunctive_add_eq_or [symmetric] push_bit_eq_mult)
qed

lemma push_or_add:
  assumes "unat a < 2 ^ m" "unat b < 2 ^ n" "m + n \<le> 64"
  shows "unat (push_bit n (a :: u64) OR b) = unat a * 2 ^ n + unat b" "unat a * 2 ^ n + unat b < 2 ^ (m + n)"
proof -
  have "unat a * 2 ^ n + unat b < unat a * 2 ^ n + 2 ^ n" using assms(2) by simp
  also have "\<dots> = (unat a + 1) * 2 ^ n" by simp
  also have "\<dots> \<le> 2 ^ m * 2 ^ n" using assms(1) by (intro mult_right_mono) auto
  finally show less: "unat a * 2 ^ n + unat b < 2 ^ (m + n)" by (simp add: power_add)
  then have "unat a * 2 ^ n < 2 ^ 64"
    using assms(3) power_increasing [of "m + n" 64 "2 :: nat"] by linarith
  then have "unat (push_bit n a) = push_bit n (unat a)"
    unfolding unsigned_push_bit_eq by (simp add: push_bit_eq_mult take_bit_nat_eq_self)
  then show "unat (push_bit n a OR b) = unat a * 2 ^ n + unat b"
    using push_or_add_nat [OF assms(2)] by (simp add: unsigned_or_eq)
qed

text \<open>An id is its three parts in a row.\<close>

lemma id_parts:
  fixes elapsed node sequence :: u64
  assumes "unat elapsed < 2 ^ 41" "unat node < 2 ^ nb" "unat sequence < 2 ^ sb" "41 + nb + sb \<le> 63"
  shows "unat (push_bit (sb + nb) elapsed OR push_bit sb node OR sequence) =
      (unat elapsed * 2 ^ nb + unat node) * 2 ^ sb + unat sequence"
    and "(unat elapsed * 2 ^ nb + unat node) * 2 ^ sb + unat sequence < 2 ^ (41 + nb + sb)"
proof -
  have split: "push_bit (sb + nb) elapsed OR push_bit sb node OR sequence = push_bit sb (push_bit nb elapsed OR node) OR sequence"
    by (simp only: push_bit_or push_bit_push_bit or.assoc)
  have "41 + nb \<le> 64" "41 + nb + sb \<le> 64" using assms(4) by simp_all
  note hi = push_or_add [OF assms(1,2) this(1)] and bound = this(2)
  have "unat (push_bit nb elapsed OR node) < 2 ^ (41 + nb)" unfolding hi(1) by (rule hi(2))
  note lo = push_or_add [OF this assms(3) bound]
  show "unat (push_bit (sb + nb) elapsed OR push_bit sb node OR sequence) =
      (unat elapsed * 2 ^ nb + unat node) * 2 ^ sb + unat sequence"
    unfolding split lo(1) hi(1) ..
  show "(unat elapsed * 2 ^ nb + unat node) * 2 ^ sb + unat sequence < 2 ^ (41 + nb + sb)"
    using lo(2) unfolding hi(1) .
qed

lemma max_values:
  "MAX_TIMESTAMP = 2199023255551" "MAX_NODE_ID = 1023" "MAX_SEQUENCE = 4095" "COMPACT_MAX_NODE_ID = 63"
  "COMPACT_MAX_SEQUENCE = 63"
  by (simp_all add: MAX_TIMESTAMP_def MAX_NODE_ID_def MAX_SEQUENCE_def COMPACT_MAX_NODE_ID_def COMPACT_MAX_SEQUENCE_def
      push_bit_eq_mult)

lemma max_offsets: "MAX_OFFSET = 0" "COMPACT_MAX_OFFSET = 0"
  by (simp_all add: MAX_OFFSET_def COMPACT_MAX_OFFSET_def max_values push_bit_eq_mult)

section \<open>One generator\<close>

text \<open>A layout of ids: what both generators share.\<close>

locale id_layout =
  fixes node_bits sequence_bits :: nat and max_sequence :: u64
  assumes fits: "41 + node_bits + sequence_bits \<le> 63"
    and max_sequence: "max_sequence = mask sequence_bits"
begin

definition state_ok :: "id_state \<Rightarrow> bool" where
  "state_ok s \<longleftrightarrow> unat (id_sequence s) < 2 ^ sequence_bits \<and> unat (last_timestamp_ms s) \<le> unat PGDOG_EPOCH + 2 ^ 41"

definition key :: "u64 \<Rightarrow> id_state \<Rightarrow> int" where
  "key node s = ((uint (last_timestamp_ms s) - uint PGDOG_EPOCH) * 2 ^ node_bits + uint node) * 2 ^ sequence_bits
     + uint (id_sequence s)"

lemma state_ok_default: "state_ok id_state_default"
  by (simp add: state_ok_def id_state_default_def)

lemma next_sequence:
  assumes "unat q < 2 ^ sequence_bits" "(q + 1) AND max_sequence \<noteq> 0"
  shows "unat ((q + 1) AND max_sequence) = unat q + 1"
proof -
  have "unat q + 1 < 2 ^ 64"
    using assms(1) fits power_increasing [of sequence_bits 63 "2 :: nat"] by simp
  then have "unat (q + 1) = unat q + 1" by (simp add: unat_word_ariths)
  then have *: "unat ((q + 1) AND max_sequence) = (unat q + 1) mod 2 ^ sequence_bits"
    by (simp add: max_sequence unsigned_take_bit_eq flip: take_bit_eq_mask take_bit_eq_mod)
  moreover have "unat ((q + 1) AND max_sequence) \<noteq> 0" using assms(2) by (simp add: unat_eq_zero)
  ultimately have "unat q + 1 \<noteq> 2 ^ sequence_bits" by (metis mod_self)
  with assms(1) * show ?thesis by simp
qed

lemma sequence_small: "unat (x AND max_sequence) < 2 ^ sequence_bits"
  by (simp add: max_sequence unsigned_take_bit_eq flip: take_bit_eq_mask)

lemma key_mono:
  assumes "unat (id_sequence s) < 2 ^ sequence_bits"
    and "last_timestamp_ms s < last_timestamp_ms s'
      \<or> last_timestamp_ms s = last_timestamp_ms s' \<and> unat (id_sequence s) < unat (id_sequence s')"
  shows "key node s < key node s'"
proof -
  let ?t = "\<lambda>s. uint (last_timestamp_ms s)" and ?q = "\<lambda>s. uint (id_sequence s)"
  have diff: "key node s' - key node s = (?t s' - ?t s) * 2 ^ node_bits * 2 ^ sequence_bits + ?q s' - ?q s"
    by (simp add: key_def algebra_simps)
  show ?thesis
  proof (cases "last_timestamp_ms s < last_timestamp_ms s'")
    case True
    then have "1 \<le> ?t s' - ?t s" by (simp add: word_less_def)
    then have "1 * (2 :: int) ^ node_bits * 2 ^ sequence_bits \<le> (?t s' - ?t s) * 2 ^ node_bits * 2 ^ sequence_bits"
      by (intro mult_right_mono) simp_all
    moreover have "(2 :: int) ^ sequence_bits \<le> 2 ^ node_bits * 2 ^ sequence_bits" by simp
    moreover have "0 \<le> ?q s'" by simp
    moreover have "int (unat (id_sequence s)) < int (2 ^ sequence_bits)" using assms(1) by (simp only: of_nat_less_iff)
    then have "?q s < 2 ^ sequence_bits" by simp
    ultimately show ?thesis using diff by linarith
  next
    case False
    then have "?t s' = ?t s" "?q s < ?q s'" using assms(2) by (simp_all add: word_less_nat_alt [symmetric] word_less_def)
    then show ?thesis using diff by simp
  qed
qed

lemma next_id_step:
  assumes "next_id_layout node_bits sequence_bits max_sequence node 0 clock k s = Some (Inr i, s', k')"
    and "state_ok s" "unat node < 2 ^ node_bits"
  shows "state_ok s' \<and> uint i = key node s' \<and> key node s < key node s' \<and> unat i < 2 ^ (41 + node_bits + sequence_bits)"
proof -
  obtain now k1 where wait: "wait_until_with clock (last_timestamp_ms s) k = Some (now, k1)"
    using assms(1) by (auto simp: next_id_layout_def bind_eq_Some_conv)
  have seq: "unat (id_sequence s) < 2 ^ sequence_bits" and last: "unat (last_timestamp_ms s) \<le> unat PGDOG_EPOCH + 2 ^ 41"
    using assms(2) by (simp_all add: state_ok_def)
  have "unat (last_timestamp_ms s + 1) = unat (last_timestamp_ms s) + 1"
    using last by (simp add: unat_word_ariths PGDOG_EPOCH_def)
  then have later: "last_timestamp_ms s < last_timestamp_ms s + 1" by (simp add: word_less_nat_alt)
  have order: "(last_timestamp_ms s < last_timestamp_ms s'
      \<or> last_timestamp_ms s = last_timestamp_ms s' \<and> unat (id_sequence s) < unat (id_sequence s'))
      \<and> unat (id_sequence s') < 2 ^ sequence_bits"
  proof (cases "now = last_timestamp_ms s")
    case True
    show ?thesis
    proof (cases "(id_sequence s + 1) AND max_sequence = 0")
      case wrap: True
      then obtain now' where "wait_until_with clock (now + 1) k1 = Some (now', k')" "last_timestamp_ms s' = now'"
          "id_sequence s' = 0"
        using assms(1) wait True by (auto simp: next_id_layout_def bind_eq_Some_conv Let_def split: if_splits)
      with True later show ?thesis by (auto dest: wait_until_Some)
    next
      case False
      then have "last_timestamp_ms s' = now" "id_sequence s' = (id_sequence s + 1) AND max_sequence"
        using assms(1) wait True by (auto simp: next_id_layout_def Let_def split: if_splits)
      with True next_sequence [OF seq False] sequence_small [of "id_sequence s + 1"] show ?thesis by simp
    qed
  next
    case False
    then have "last_timestamp_ms s' = now" "id_sequence s' = 0"
      using assms(1) wait by (auto simp: next_id_layout_def Let_def split: if_splits)
    with False wait_until_Some [OF wait] show ?thesis by auto
  qed
  let ?e = "last_timestamp_ms s' - PGDOG_EPOCH"
  have e: "?e \<le> MAX_TIMESTAMP" and i: "i = push_bit (sequence_bits + node_bits) (?e AND MAX_TIMESTAMP)
      OR push_bit sequence_bits node OR id_sequence s'"
    using assms(1) by (auto simp: next_id_layout_def bind_eq_Some_conv Let_def split: if_splits)
  have mask: "?e AND MAX_TIMESTAMP = ?e"
  proof -
    have "unat ?e < 2 ^ 41" using e by (simp add: word_le_nat_alt max_values)
    then have "take_bit 41 ?e = ?e" by (simp add: word_unat_eq_iff unsigned_take_bit_eq take_bit_nat_eq_self)
    moreover have "MAX_TIMESTAMP = mask 41" by (simp add: max_values mask_eq_exp_minus_1)
    ultimately show ?thesis by (simp add: take_bit_eq_mask)
  qed
  have small: "unat ?e < 2 ^ 41" using e by (simp add: word_le_nat_alt max_values)
  have "unat PGDOG_EPOCH + unat ?e < 2 ^ LENGTH(64)" using small by (simp add: PGDOG_EPOCH_def)
  then have "unat (PGDOG_EPOCH + ?e) = unat PGDOG_EPOCH + unat ?e" by (rule iffD1 [OF unat_add_lem])
  then have lt: "unat (last_timestamp_ms s') = unat PGDOG_EPOCH + unat ?e" by simp
  note parts = id_parts [OF small assms(3) conjunct2 [OF order] fits]
  have elapsed: "uint (last_timestamp_ms s') - uint PGDOG_EPOCH = int (unat ?e)"
    using arg_cong [OF lt, of int] by simp
  have "uint i = int (unat i)" by simp
  also have "\<dots> = int ((unat ?e * 2 ^ node_bits + unat node) * 2 ^ sequence_bits + unat (id_sequence s'))"
    by (simp only: i mask parts(1))
  also have "\<dots> = key node s'" by (simp add: key_def elapsed)
  finally have "uint i = key node s'" .
  moreover have "unat i < 2 ^ (41 + node_bits + sequence_bits)" using parts(2) by (simp only: i mask parts(1))
  moreover have "state_ok s'" using order lt small by (simp add: state_ok_def)
  ultimately show ?thesis using key_mono [OF seq conjunct1 [OF order]] by simp
qed

lemma next_id_returns:
  assumes "\<And>k. \<exists>j\<ge>k. last_timestamp_ms s < clock j"
  shows "\<exists>r s' k'. next_id_layout node_bits sequence_bits max_sequence node offset clock k s = Some (r, s', k')"
proof -
  have returns: "\<exists>now k'. wait_until_with clock t k = Some (now, k')" if "t \<le> last_timestamp_ms s + 1" for t k
  proof -
    obtain j where j: "k \<le> j" "last_timestamp_ms s < clock j" using assms by blast
    then have "t \<le> clock j" using that inc_le by (meson order_trans)
    with j(1) show ?thesis by (rule wait_until_returns)
  qed
  obtain j where "last_timestamp_ms s < clock j" using assms by blast
  then have "unat (last_timestamp_ms s) + unat (1 :: u64) < 2 ^ LENGTH(64)"
    using unsigned_less [where w = "clock j" and 'a = nat] by (simp add: word_less_nat_alt)
  then have "unat (last_timestamp_ms s + 1) = unat (last_timestamp_ms s) + unat (1 :: u64)"
    by (rule iffD1 [OF unat_add_lem])
  then have "last_timestamp_ms s \<le> last_timestamp_ms s + 1" by (simp add: word_le_nat_alt)
  then obtain now k1 where "wait_until_with clock (last_timestamp_ms s) k = Some (now, k1)" using returns by blast
  moreover obtain now2 k2 where "wait_until_with clock (last_timestamp_ms s + 1) k1 = Some (now2, k2)" using returns by blast
  ultimately show ?thesis by (auto simp: next_id_layout_def Let_def)
qed

end

interpretation standard_ids: id_layout NODE_BITS SEQUENCE_BITS MAX_SEQUENCE
  by unfold_locales (simp_all add: max_values mask_eq_exp_minus_1)

interpretation compact_ids: id_layout COMPACT_NODE_BITS COMPACT_SEQUENCE_BITS COMPACT_MAX_SEQUENCE
  by unfold_locales (simp_all add: max_values mask_eq_exp_minus_1)

section \<open>Unique ids\<close>

text \<open>What the configured generator keeps between calls, and the number the last id was made from.\<close>

definition uid_ok :: "unique_id \<Rightarrow> bool" where
  "uid_ok g \<longleftrightarrow> uid_id_offset g = 0 \<and>
     (case uid_function g of
        Standard \<Rightarrow> standard_ids.state_ok (uid_standard g) \<and> unat (uid_node_id g) < 2 ^ NODE_BITS
      | Compact \<Rightarrow> compact_ids.state_ok (uid_compact g) \<and> unat (uid_node_id g) < 2 ^ COMPACT_NODE_BITS)"

definition uid_key :: "unique_id \<Rightarrow> int" where
  "uid_key g = (case uid_function g of
     Standard \<Rightarrow> standard_ids.key (uid_node_id g) (uid_standard g) | Compact \<Rightarrow> compact_ids.key (uid_node_id g) (uid_compact g))"

definition id_limit :: "unique_id_function \<Rightarrow> int" where
  "id_limit f = (case f of Standard \<Rightarrow> 2 ^ 63 | Compact \<Rightarrow> 2 ^ 53)"

lemma uid_new_ok: "uid_new f name node lo = Inr g \<Longrightarrow> uid_ok g"
  using standard_ids.state_ok_default compact_ids.state_ok_default
  by (auto simp: uid_new_def uid_ok_def Let_def max_offsets max_values word_le_nat_alt not_less unat_eq_zero
      split: option.splits unique_id_function.splits if_splits)

lemma sint_small: "unat (i :: u64) < 2 ^ 63 \<Longrightarrow> sint i = uint i"
proof -
  assume "unat i < 2 ^ 63"
  then have "int (unat i) < int (2 ^ 63)" by (simp only: of_nat_less_iff)
  then have "uint i < 2 ^ 63" by simp
  moreover have "- (2 ^ 63) \<le> uint i" by (rule order_trans [of _ 0]) simp_all
  ultimately show ?thesis using signed_take_bit_int_eq_self [of 63 "uint i"] by (simp add: sint_uint)
qed

lemma uint_below: "unat (w :: u64) < 2 ^ n \<Longrightarrow> uint w < 2 ^ n"
proof -
  assume "unat w < 2 ^ n"
  then have "int (unat w) < int (2 ^ n)" by (simp only: of_nat_less_iff)
  then show ?thesis by simp
qed

lemma map_sum_eq_Inr: "map_sum f g x = Inr y \<longleftrightarrow> (\<exists>z. x = Inr z \<and> y = g z)"
  by (cases x) auto

lemma uid_next_step:
  assumes "uid_next_id clock k g = Some (Inr i, g', k')" "uid_ok g"
  shows "uid_ok g' \<and> uid_function g' = uid_function g \<and> uid_node_id g' = uid_node_id g
    \<and> i = uid_key g' \<and> uid_key g < i \<and> 0 \<le> i \<and> i < id_limit (uid_function g)"
proof (cases "uid_function g")
  case Standard
  with assms obtain w s where nx: "next_id_layout NODE_BITS SEQUENCE_BITS MAX_SEQUENCE (uid_node_id g) 0 clock k (uid_standard g)
      = Some (Inr w, s, k')" and g': "i = sint w" "g' = g\<lparr>uid_standard := s\<rparr>"
    by (auto simp: uid_next_id_def state_next_id_def uid_ok_def map_sum_eq_Inr)
  have ok: "standard_ids.state_ok (uid_standard g)" "unat (uid_node_id g) < 2 ^ NODE_BITS"
    using assms(2) Standard by (simp_all add: uid_ok_def)
  note step = standard_ids.next_id_step [OF nx ok]
  have "unat w < 2 ^ 63" using step by simp
  then have "i = uint w" "uint w < 2 ^ 63" using g'(1) by (simp_all only: sint_small uint_below)
  with step g'(2) Standard assms(2) uint_nonnegative [of w] show ?thesis by (simp add: uid_ok_def uid_key_def id_limit_def)
next
  case Compact
  with assms obtain w s where nx: "next_id_layout COMPACT_NODE_BITS COMPACT_SEQUENCE_BITS COMPACT_MAX_SEQUENCE (uid_node_id g) 0
      clock k (uid_compact g) = Some (Inr w, s, k')" and g': "i = sint w" "g' = g\<lparr>uid_compact := s\<rparr>"
    by (auto simp: uid_next_id_def compact_next_id_def uid_ok_def map_sum_eq_Inr)
  have ok: "compact_ids.state_ok (uid_compact g)" "unat (uid_node_id g) < 2 ^ COMPACT_NODE_BITS"
    using assms(2) Compact by (simp_all add: uid_ok_def)
  note step = compact_ids.next_id_step [OF nx ok]
  have small: "unat w < 2 ^ 53" using step by simp
  then have "unat w < 2 ^ 63" by simp
  then have "i = uint w" using g'(1) by (simp only: sint_small)
  moreover have "uint w < 2 ^ 53" using small by (rule uint_below)
  ultimately show ?thesis using step g'(2) Compact assms(2) uint_nonnegative [of w] by (simp add: uid_ok_def uid_key_def id_limit_def)
qed

lemma uid_run_increasing:
  "uid_run clock n k g = Some ids \<Longrightarrow> uid_ok g \<Longrightarrow>
   sorted_wrt (<) ids \<and> (\<forall>i\<in>set ids. uid_key g < i \<and> 0 \<le> i \<and> i < id_limit (uid_function g))"
proof (induction n arbitrary: k g ids)
  case (Suc n)
  then obtain i g' k' rest where nx: "uid_next_id clock k g = Some (Inr i, g', k')"
    and rest: "uid_run clock n k' g' = Some rest" "ids = i # rest"
    by (auto split: option.splits sum.splits prod.splits)
  note step = uid_next_step [OF nx Suc.prems(2)]
  with Suc.IH [OF rest(1)] rest(2) show ?case by auto
qed simp

text \<open>C18: The ids a generator returns are strictly increasing, so all different, whatever the clock does in between, and
  they are numbers the result type can hold: below two to the 63rd, and below two to the 53rd in the compact layout.\<close>

theorem unique_ids_increase:
  assumes "uid_new function name node_id min_id = Inr g" "uid_run clock n k g = Some ids"
  shows "sorted_wrt (<) ids \<and> distinct ids \<and> (\<forall>i\<in>set ids. 0 \<le> i \<and> i < id_limit function)"
proof -
  have "uid_function g = function"
    using assms(1) by (auto simp: uid_new_def Let_def split: option.splits unique_id_function.splits if_splits)
  then show ?thesis
    using uid_run_increasing [OF assms(2) uid_new_ok [OF assms(1)]] by (auto simp: strict_sorted_iff)
qed

lemma wait_until_now: "t \<le> clock k \<Longrightarrow> wait_until_with clock t k = Some (clock k, Suc k)"
  by (subst wait_until_with.simps) simp

definition demo_clock :: "nat \<Rightarrow> u64" where
  "demo_clock k = PGDOG_EPOCH + of_nat k"

definition demo_generator :: "u64 \<Rightarrow> unique_id" where
  "demo_generator node =
     \<lparr>uid_node_id = node, uid_id_offset = 0, uid_standard = id_state_default, uid_compact = id_state_default,
      uid_function = Standard\<rparr>"

lemma demo_generator_new: "node \<le> 1023 \<Longrightarrow> uid_new Standard ''pgdog-3'' (Some node) 0 = Inr (demo_generator node)"
  by (simp add: uid_new_def demo_generator_def max_values not_less)

lemma demo_run: "uid_run demo_clock (Suc (Suc 0)) 0 (demo_generator 3) = Some [12288, 4206592]" 
  "uid_run demo_clock (Suc 0) 0 (demo_generator 4) = Some [16384]"
  by (simp_all add: uid_next_id_def demo_generator_def state_next_id_def next_id_layout_def wait_until_now
      demo_clock_def id_state_default_def PGDOG_EPOCH_def max_values Let_def push_bit_eq_mult)

theorem unique_ids_increase_witness:
  "uid_run demo_clock (Suc (Suc 0)) 0 (demo_generator 3) = Some [12288, 4206592]
   \<and> sorted_wrt (<) [12288, 4206592 :: int] \<and> distinct [12288, 4206592 :: int] \<and> 4206592 < id_limit Standard"
  using unique_ids_increase [OF demo_generator_new demo_run(1)] demo_run(1) by simp

text \<open>The node an id was made on.\<close>

definition id_node :: "unique_id_function \<Rightarrow> int \<Rightarrow> int" where
  "id_node f i = (case f of
     Standard \<Rightarrow> i div 2 ^ SEQUENCE_BITS mod 2 ^ NODE_BITS
   | Compact \<Rightarrow> i div 2 ^ COMPACT_SEQUENCE_BITS mod 2 ^ COMPACT_NODE_BITS)"

lemma key_node:
  fixes t v q :: int
  assumes "0 \<le> q" "q < 2 ^ sb" "0 \<le> v" "v < 2 ^ nb"
  shows "((t * 2 ^ nb + v) * 2 ^ sb + q) div 2 ^ sb mod 2 ^ nb = v"
proof -
  have "((t * 2 ^ nb + v) * 2 ^ sb + q) div 2 ^ sb = t * 2 ^ nb + v"
    using assms(1,2) by (simp add: div_pos_pos_trivial)
  with assms(3,4) show ?thesis by simp
qed

lemma uid_key_node:
  assumes "uid_ok g"
  shows "id_node (uid_function g) (uid_key g) = uint (uid_node_id g)"
proof (cases "uid_function g")
  case Standard
  with assms have "unat (id_sequence (uid_standard g)) < 2 ^ SEQUENCE_BITS" "unat (uid_node_id g) < 2 ^ NODE_BITS"
    by (simp_all add: uid_ok_def standard_ids.state_ok_def)
  then show ?thesis
    unfolding id_node_def uid_key_def standard_ids.key_def Standard unique_id_function.case
    by (intro key_node uint_below uint_nonnegative)
next
  case Compact
  with assms have "unat (id_sequence (uid_compact g)) < 2 ^ COMPACT_SEQUENCE_BITS" "unat (uid_node_id g) < 2 ^ COMPACT_NODE_BITS"
    by (simp_all add: uid_ok_def compact_ids.state_ok_def)
  then show ?thesis
    unfolding id_node_def uid_key_def compact_ids.key_def Compact unique_id_function.case
    by (intro key_node uint_below uint_nonnegative)
qed

lemma uid_run_node:
  "uid_run clock n k g = Some ids \<Longrightarrow> uid_ok g \<Longrightarrow> i \<in> set ids \<Longrightarrow> id_node (uid_function g) i = uint (uid_node_id g)"
proof (induction n arbitrary: k g ids)
  case (Suc n)
  then obtain a g' k' rest where nx: "uid_next_id clock k g = Some (Inr a, g', k')"
    and rest: "uid_run clock n k' g' = Some rest" "ids = a # rest"
    by (auto split: option.splits sum.splits prod.splits)
  note step = uid_next_step [OF nx Suc.prems(2)]
  with Suc.IH [OF rest(1)] rest(2) Suc.prems(3) uid_key_node [of g'] show ?case by auto
qed simp

text \<open>C19: Two nodes with different numbers and the same kind of ids never make the same id, whatever their clocks show.\<close>

theorem nodes_never_collide:
  assumes "uid_new function name1 (Some node1) min1 = Inr g1" "uid_run clock1 n1 k1 g1 = Some ids1"
    and "uid_new function name2 (Some node2) min2 = Inr g2" "uid_run clock2 n2 k2 g2 = Some ids2"
    and "node1 \<noteq> node2"
  shows "set ids1 \<inter> set ids2 = {}"
proof -
  have "uid_function g1 = function" "uid_node_id g1 = node1" "uid_function g2 = function" "uid_node_id g2 = node2"
    using assms(1,3) by (auto simp: uid_new_def Let_def split: unique_id_function.splits if_splits)
  note run1 = uid_run_node [OF assms(2) uid_new_ok [OF assms(1)], unfolded this]
    and run2 = uid_run_node [OF assms(4) uid_new_ok [OF assms(3)], unfolded this]
  have "uint node1 \<noteq> uint node2" using assms(5) by (simp add: word_uint_eq_iff)
  then have "i \<notin> set ids2" if "i \<in> set ids1" for i
    using run1 [OF that] run2 [of i] by auto
  then show ?thesis by blast
qed

theorem nodes_never_collide_witness:
  "uid_run demo_clock (Suc 0) 0 (demo_generator 4) = Some [16384] \<and> set [12288, 4206592 :: int] \<inter> set [16384] = {}"
  by (rule conjI, rule demo_run(2), rule nodes_never_collide [OF demo_generator_new demo_run(1) demo_generator_new demo_run(2)]) simp_all

text \<open>C20: A call returns if the clock keeps showing times after the last one used, even when it goes backwards for a while
  or the sequence numbers of a millisecond are used up; it returns an id unless that time is outside the range of
  the timestamps.\<close>

theorem next_id_terminates:
  assumes "\<forall>k. \<exists>j\<ge>k. last_timestamp_ms (if uid_function g = Compact then uid_compact g else uid_standard g) < clock j"
  shows "\<exists>r g' k'. uid_next_id clock k g = Some (r, g', k')"
proof (cases "uid_function g")
  case Standard
  with assms have "\<And>k. \<exists>j\<ge>k. last_timestamp_ms (uid_standard g) < clock j" by simp
  from standard_ids.next_id_returns [OF this, of "uid_node_id g" "uid_id_offset g" k] Standard
  show ?thesis by (auto simp: uid_next_id_def state_next_id_def)
next
  case Compact
  with assms have "\<And>k. \<exists>j\<ge>k. last_timestamp_ms (uid_compact g) < clock j" by simp
  from compact_ids.next_id_returns [OF this, of "uid_node_id g" "uid_id_offset g" k] Compact
  show ?thesis by (auto simp: uid_next_id_def compact_next_id_def)
qed

theorem next_id_terminates_witness:
  "\<exists>r g' k'. uid_next_id (\<lambda>k. if even k then 5 else 7) 0 (demo_generator 3) = Some (r, g', k')"
proof (rule next_id_terminates, rule allI)
  fix k :: nat
  have "last_timestamp_ms id_state_default < (if even k then 5 else 7)" by (simp add: id_state_default_def)
  then show "\<exists>j\<ge>k. last_timestamp_ms (if uid_function (demo_generator 3) = Compact then uid_compact (demo_generator 3)
      else uid_standard (demo_generator 3)) < (if even j then 5 else 7)"
    by (intro exI [of _ k]) (simp add: demo_generator_def id_state_default_def)
qed

text \<open>The largest offset that leaves room for every id is zero in both layouts, so a minimum for the ids
  (\<^verbatim>\<open>unique_id_min\<close>) is refused whatever it is.\<close>

lemma unique_id_min_refused:
  "0 < min_id \<Longrightarrow> \<exists>e. uid_new function name node_id min_id = Inl e"
  by (auto simp: uid_new_def Let_def max_offsets split: option.splits unique_id_function.splits)

end
