(* ===== verification/Comparison.thy ===== *)
theory Comparison
  imports Prelude "HOL-Library.Multiset"
begin

text \<open>
  Comparators of the Rust standard library: \<^verbatim>\<open>std::cmp::Ordering\<close>, the comparison of an ordered type, the stable
  \<^verbatim>\<open>slice::sort_by\<close>, and the contract a comparator has to keep for it, as an interface that the comparators of values and
  rows are shown to implement.
\<close>

datatype ordering = Less | Equal | Greater

fun reverse :: "ordering \<Rightarrow> ordering" where
  "reverse Less = Greater"
| "reverse Equal = Equal"
| "reverse Greater = Less"

definition cmp :: "'a::linorder \<Rightarrow> 'a \<Rightarrow> ordering" where
  "cmp a b = (if a < b then Less else if a = b then Equal else Greater)"

text \<open>The standard library specifies \<^verbatim>\<open>sort_by\<close> as a stable sort for comparators that are total preorders; this is one.\<close>

fun insert_by :: "('a \<Rightarrow> 'a \<Rightarrow> ordering) \<Rightarrow> 'a \<Rightarrow> 'a list \<Rightarrow> 'a list" where
  "insert_by c x [] = [x]"
| "insert_by c x (y # ys) = (if c x y = Greater then y # insert_by c x ys else x # y # ys)"

definition sort_by :: "('a \<Rightarrow> 'a \<Rightarrow> ordering) \<Rightarrow> 'a list \<Rightarrow> 'a list" where
  "sort_by c xs = foldr (insert_by c) xs []"

lemma reverse_reverse [simp]: "reverse (reverse r) = r"
  by (cases r) simp_all

lemma reverse_eq [simp]:
  "reverse r = Less \<longleftrightarrow> r = Greater" "reverse r = Equal \<longleftrightarrow> r = Equal" "reverse r = Greater \<longleftrightarrow> r = Less"
  by (cases r; simp)+

lemma mset_insert_by [simp]: "mset (insert_by c x xs) = add_mset x (mset xs)"
  by (induction xs) auto

lemma mset_sort_by [simp]: "mset (sort_by c xs) = mset xs"
  by (induction xs) (simp_all add: sort_by_def)

lemma set_sort_by [simp]: "set (sort_by c xs) = set xs"
  by (rule mset_eq_setD) simp

lemma length_sort_by [simp]: "length (sort_by c xs) = length xs"
  by (rule mset_eq_length) simp

lemma sort_by_Nil [simp]: "sort_by c [] = []"
  by (simp add: sort_by_def)

lemma sort_by_Cons: "sort_by c (x # xs) = insert_by c x (sort_by c xs)"
  by (simp add: sort_by_def)

lemma length_filter_mono: "(\<And>x. x \<in> set xs \<Longrightarrow> P x \<Longrightarrow> Q x) \<Longrightarrow> length (filter P xs) \<le> length (filter Q xs)"
  by (induction xs) (auto simp: le_SucI)

lemma mset_take_drop: "mset xs = mset (take k xs) + mset (drop k xs)"
  by (metis append_take_drop_id mset_append)

lemma mset_take_each: "mset (concat (map (take k) xss)) \<subseteq># mset (concat xss)"
proof (induction xss)
  case (Cons xs xss)
  have "mset (take k xs) \<subseteq># mset xs" using mset_take_drop [of xs k] by simp
  with Cons show ?case by (simp add: subset_mset.add_mono)
qed simp

lemma mset_in_concat: "xs \<in> set xss \<Longrightarrow> mset xs \<subseteq># mset (concat xss)"
proof -
  assume "xs \<in> set xss"
  then obtain yss zss where "xss = yss @ xs # zss" by (meson split_list)
  then show ?thesis by (simp add: add.left_commute)
qed

lemma length_filter_mset: "mset xs = mset ys \<Longrightarrow> length (filter P xs) = length (filter P ys)"
  by (metis mset_filter size_mset)

lemma left_out_of_take_each:
  "d \<in># mset (concat xss) - mset (concat (map (take k) xss)) \<Longrightarrow> \<exists>xs\<in>set xss. d \<in> set (drop k xs)"
proof (induction xss)
  case (Cons xs xss)
  have "mset (concat (xs # xss)) - mset (concat (map (take k) (xs # xss)))
      = mset (drop k xs) + (mset (concat xss) - mset (concat (map (take k) xss)))"
  proof -
    have "(a + b + C) - (a + D) = b + (C - D)" if "D \<subseteq># C" for a b C D :: "'a multiset"
      using that by (metis add.assoc add_diff_cancel_left subset_mset.add_diff_assoc)
    from this [OF mset_take_each [of k xss], of "mset (take k xs)" "mset (drop k xs)"]
    show ?thesis unfolding mset_take_drop [of xs k, symmetric] by simp
  qed
  with Cons show ?case by auto
qed simp

text \<open>The contract of a comparator, on the values it is used with.\<close>

locale ord_contract =
  fixes A :: "'a set" and c :: "'a \<Rightarrow> 'a \<Rightarrow> ordering"
  assumes flip: "a \<in> A \<Longrightarrow> b \<in> A \<Longrightarrow> c b a = reverse (c a b)"
    and le_trans: "a \<in> A \<Longrightarrow> b \<in> A \<Longrightarrow> d \<in> A \<Longrightarrow> c a b \<noteq> Greater \<Longrightarrow> c b d \<noteq> Greater \<Longrightarrow> c a d \<noteq> Greater"
begin

lemma self_equal: "a \<in> A \<Longrightarrow> c a a = Equal"
  using flip [of a a] by (cases "c a a") simp_all

lemma greater_flip: "a \<in> A \<Longrightarrow> b \<in> A \<Longrightarrow> c a b = Greater \<Longrightarrow> c b a = Less"
  using flip [of a b] by simp

lemma equal_left:
  assumes "a \<in> A" "b \<in> A" "d \<in> A" "c a b = Equal"
  shows "c a d = c b d"
proof -
  have ba: "c b a = Equal" using flip [of a b] assms by simp
  have "c a d = Greater \<longleftrightarrow> c b d = Greater"
    using le_trans [of a b d] le_trans [of b a d] assms ba by auto
  moreover have "c d a = Greater \<longleftrightarrow> c d b = Greater"
    using le_trans [of d a b] le_trans [of d b a] assms ba by auto
  ultimately show ?thesis
    using flip [of a d] flip [of b d] assms by (cases "c a d"; cases "c b d") simp_all
qed

lemma sorted_insert_by:
  "x \<in> A \<Longrightarrow> set ys \<subseteq> A \<Longrightarrow> sorted_wrt (\<lambda>a b. c a b \<noteq> Greater) ys
   \<Longrightarrow> sorted_wrt (\<lambda>a b. c a b \<noteq> Greater) (insert_by c x ys)"
proof (induction ys)
  case (Cons y ys)
  have mem: "set (insert_by c x ys) = insert x (set ys)"
    using mset_insert_by [of c x ys] by (metis set_mset_add_mset_insert set_mset_mset)
  show ?case
  proof (cases "c x y = Greater")
    case True
    then have "c y x \<noteq> Greater" using Cons.prems greater_flip [of x y] by simp
    with True Cons show ?thesis by (simp add: mem)
  next
    case False
    with Cons.prems show ?thesis using le_trans [of x y] by auto
  qed
qed simp

lemma sort_by_sorted: "set xs \<subseteq> A \<Longrightarrow> sorted_wrt (\<lambda>a b. c a b \<noteq> Greater) (sort_by c xs)"
  by (induction xs) (simp_all add: sort_by_Cons sorted_insert_by)

lemma filter_insert_by:
  "x \<in> A \<Longrightarrow> set ys \<subseteq> A \<Longrightarrow> a \<in> A \<Longrightarrow>
   filter (\<lambda>y. c y a = Equal) (insert_by c x ys) = filter (\<lambda>y. c y a = Equal) (x # ys)"
proof (induction ys)
  case (Cons y ys)
  show ?case
  proof (cases "c x y = Greater")
    case True
    then have "\<not> (c x a = Equal \<and> c y a = Equal)"
      using Cons.prems equal_left [of x a y] flip [of y a] self_equal by auto
    with True Cons show ?thesis by auto
  qed simp
qed simp

lemma sort_by_stable:
  "set xs \<subseteq> A \<Longrightarrow> a \<in> A \<Longrightarrow> filter (\<lambda>y. c y a = Equal) (sort_by c xs) = filter (\<lambda>y. c y a = Equal) xs"
proof (induction xs)
  case (Cons x xs)
  then show ?case using filter_insert_by [of x "sort_by c xs" a] by (simp add: sort_by_Cons)
qed simp

text \<open>The first elements of a sorted list are determined, up to ties, by a part of the elements that has enough
  smaller elements for each one left out.\<close>

lemma count_le_nth:
  assumes "sorted_wrt (\<lambda>a b. c a b \<noteq> Greater) xs" "set xs \<subseteq> A" "i < length xs" "x \<in> A" "c (xs ! i) x \<noteq> Greater"
  shows "i < length (filter (\<lambda>e. c e x \<noteq> Greater) xs)"
proof -
  have "c e x \<noteq> Greater" if "e \<in> set (take (Suc i) xs)" for e
  proof -
    from that obtain j where j: "j \<le> i" "e = xs ! j" using assms(3) by (auto simp: in_set_conv_nth less_Suc_eq_le)
    have xi: "xs ! i \<in> A" "xs ! j \<in> A" using assms(2,3) j(1) by (auto simp: subset_eq)
    have "c (xs ! j) (xs ! i) \<noteq> Greater"
      using j(1) assms(1,3) self_equal [OF xi(1)] by (cases "j = i") (auto simp: sorted_wrt_iff_nth_less)
    then show ?thesis using le_trans [OF xi(2) xi(1) assms(4)] assms(5) j(2) by simp
  qed
  then have "filter (\<lambda>e. c e x \<noteq> Greater) (take (Suc i) xs) = take (Suc i) xs" by simp
  moreover have "length (filter (\<lambda>e. c e x \<noteq> Greater) (take (Suc i) xs)) \<le> length (filter (\<lambda>e. c e x \<noteq> Greater) xs)"
    using filter_append [of "\<lambda>e. c e x \<noteq> Greater" "take (Suc i) xs" "drop (Suc i) xs"]
    by (metis append_take_drop_id le_add1 length_append)
  ultimately show ?thesis using assms(3) by simp
qed

lemma count_gt_nth:
  assumes "sorted_wrt (\<lambda>a b. c a b \<noteq> Greater) xs" "set xs \<subseteq> A" "i < length xs" "x \<in> A" "c x (xs ! i) = Less"
  shows "length (filter (\<lambda>e. c e x \<noteq> Greater) xs) \<le> i"
proof -
  have "c e x = Greater" if "e \<in> set (drop i xs)" for e
  proof (rule ccontr)
    assume le: "c e x \<noteq> Greater"
    from that obtain j where j: "i \<le> j" "j < length xs" "e = xs ! j"
      by (auto simp: in_set_conv_nth) (metis le_add1 less_diff_conv add.commute)
    have xi: "xs ! i \<in> A" "xs ! j \<in> A" using assms(2,3) j(2) by (auto simp: subset_eq)
    have "c (xs ! i) (xs ! j) \<noteq> Greater"
      using j(1,2) assms(1) self_equal [OF xi(1)] by (cases "j = i") (auto simp: sorted_wrt_iff_nth_less)
    then have "c (xs ! i) x \<noteq> Greater" using le_trans [OF xi(1) xi(2) assms(4)] le j(3) by simp
    then show False using flip [OF assms(4) xi(1)] assms(5) by simp
  qed
  then have "filter (\<lambda>e. c e x \<noteq> Greater) (drop i xs) = []" by (simp add: filter_empty_conv)
  then have "filter (\<lambda>e. c e x \<noteq> Greater) xs = filter (\<lambda>e. c e x \<noteq> Greater) (take i xs)"
    by (metis append_Nil2 append_take_drop_id filter_append)
  then show ?thesis using length_filter_le [of "\<lambda>e. c e x \<noteq> Greater" "take i xs"] by simp
qed

lemma page_of_part:
  assumes "set xs \<subseteq> A" "mset ys \<subseteq># mset xs"
    and enough: "\<And>d. d \<in># mset xs - mset ys \<Longrightarrow> k \<le> length (filter (\<lambda>e. c e d \<noteq> Greater) ys)"
  shows "list_all2 (\<lambda>a b. c a b = Equal) (take k (sort_by c xs)) (take k (sort_by c ys))"
proof -
  let ?U = "sort_by c xs" and ?V = "sort_by c ys"
  define below where "below x zs = length (filter (\<lambda>e. c e x \<noteq> Greater) zs)" for x and zs :: "'a list"
  have below_mset: "below x zs = size (filter_mset (\<lambda>e. c e x \<noteq> Greater) (mset zs))" for x zs
    by (simp add: below_def flip: mset_filter)
  have split: "mset xs = mset ys + (mset xs - mset ys)" using assms(2) by simp
  have inA: "set ys \<subseteq> A" using assms(1) set_mset_mono [OF assms(2)] by auto
  note sorted = sort_by_sorted [OF assms(1)] sort_by_sorted [OF inA]
  have len: "length ys \<le> length xs" using size_mset_mono [OF assms(2)] by simp
  have long: "k \<le> length ys \<or> length ys = length xs"
  proof (cases "mset xs - mset ys = {#}")
    case True
    then have "mset xs = mset ys" using split by simp
    then show ?thesis using mset_eq_length [of xs ys] by simp
  next
    case False
    then obtain d where "d \<in># mset xs - mset ys" by auto
    from order_trans [OF enough [OF this] length_filter_le] show ?thesis by simp
  qed
  have "c (?U ! i) (?V ! i) = Equal" if i: "i < k" "i < length xs" "i < length ys" for i
  proof (cases "c (?U ! i) (?V ! i)")
    case Equal
    then show ?thesis .
  next
    case Less
    have x: "?U ! i \<in> A" using i assms(1) nth_mem [of i ?U] by auto
    have "i < below (?U ! i) ?U" unfolding below_def using sorted(1) i x self_equal [OF x] assms(1) by (intro count_le_nth) auto
    moreover have "below (?U ! i) ?V \<le> i" unfolding below_def using sorted(2) i x Less inA by (intro count_gt_nth) auto
    moreover have "below (?U ! i) ?U = below (?U ! i) ?V + size (filter_mset (\<lambda>e. c e (?U ! i) \<noteq> Greater) (mset xs - mset ys))"
      using arg_cong [OF split, of "\<lambda>M. size (filter_mset (\<lambda>e. c e (?U ! i) \<noteq> Greater) M)"]
      unfolding below_mset filter_union_mset size_union by simp
    ultimately have "filter_mset (\<lambda>e. c e (?U ! i) \<noteq> Greater) (mset xs - mset ys) \<noteq> {#}" by (auto simp: not_less)
    then obtain d where "d \<in># filter_mset (\<lambda>e. c e (?U ! i) \<noteq> Greater) (mset xs - mset ys)"
      by (blast elim: multiset_nonemptyE)
    then have d: "d \<in># mset xs - mset ys" "c d (?U ! i) \<noteq> Greater"
      unfolding set_mset_filter by simp_all
    have dA: "d \<in> A" using in_diffD [OF d(1)] assms(1) by auto
    have "k \<le> below d ys" using enough [OF d(1)] by (simp add: below_def)
    also have "below d ys \<le> below (?U ! i) ys"
      unfolding below_def using inA le_trans [OF _ dA x] d(2) by (intro length_filter_mono) auto
    also have "below (?U ! i) ys = below (?U ! i) ?V" by (simp add: below_mset)
    finally show ?thesis using \<open>below (?U ! i) ?V \<le> i\<close> i(1) by simp
  next
    case Greater
    have x: "?V ! i \<in> A" using i inA nth_mem [of i ?V] by auto
    have u: "?U ! i \<in> A" using i assms(1) nth_mem [of i ?U] by auto
    have "i < below (?V ! i) ?V" unfolding below_def using sorted(2) i x self_equal [OF x] inA by (intro count_le_nth) auto
    moreover have "below (?V ! i) ?U \<le> i"
      unfolding below_def using sorted(1) i x greater_flip [OF u x Greater] assms(1) by (intro count_gt_nth) auto
    moreover have "below (?V ! i) ?V \<le> below (?V ! i) ?U"
      unfolding below_mset using assms(2) by (auto intro: size_mset_mono multiset_filter_mono)
    ultimately show ?thesis by simp
  qed
  then show ?thesis using long len by (auto simp: list_all2_conv_all_nth)
qed

end

interpretation cmp_order: ord_contract UNIV "cmp :: 'a::linorder \<Rightarrow> 'a \<Rightarrow> ordering"
  by unfold_locales (auto simp: cmp_def split: if_splits)

text \<open>Comparators that are built from others.\<close>

lemma ord_contract_pull:
  assumes "ord_contract B c" "\<And>a. a \<in> A \<Longrightarrow> f a \<in> B"
  shows "ord_contract A (\<lambda>a b. c (f a) (f b))"
  using assms(2) ord_contract.flip [OF assms(1)] ord_contract.le_trans [OF assms(1)]
  by unfold_locales blast+

lemma ord_contract_cong:
  assumes "ord_contract A c" "\<And>a b. a \<in> A \<Longrightarrow> b \<in> A \<Longrightarrow> c' a b = c a b"
  shows "ord_contract A c'"
proof
  fix a b d
  assume ab: "a \<in> A" "b \<in> A"
  then show "c' b a = reverse (c' a b)"
    unfolding assms(2) [OF ab] assms(2) [OF ab(2) ab(1)] by (rule ord_contract.flip [OF assms(1)])
  assume "d \<in> A" "c' a b \<noteq> Greater" "c' b d \<noteq> Greater"
  then show "c' a d \<noteq> Greater"
    using assms(2) ab ord_contract.le_trans [OF assms(1) ab, of d] by auto
qed

lemma ord_contract_subset:
  assumes "ord_contract A c" "B \<subseteq> A"
  shows "ord_contract B c"
  using ord_contract_pull [OF assms(1), of B "\<lambda>a. a"] assms(2) by auto

lemma ord_contract_reverse:
  assumes "ord_contract A c"
  shows "ord_contract A (\<lambda>a b. c b a)"
proof
  fix a b d
  assume "a \<in> A" "b \<in> A"
  then show "c a b = reverse (c b a)" by (rule ord_contract.flip [OF assms, rotated])
  assume "d \<in> A" "c b a \<noteq> Greater" "c d b \<noteq> Greater"
  with \<open>a \<in> A\<close> \<open>b \<in> A\<close> show "c d a \<noteq> Greater"
    using ord_contract.le_trans [OF assms, of d b a] by blast
qed

lemma ord_contract_equal: "ord_contract A (\<lambda>a b. Equal)"
  by unfold_locales simp_all

lemma ord_contract_lex:
  assumes "ord_contract A c" "ord_contract A c'"
  shows "ord_contract A (\<lambda>a b. if c a b \<noteq> Equal then c a b else c' a b)"
proof
  note flips = ord_contract.flip [OF assms(1)] ord_contract.flip [OF assms(2)]
  fix a b d
  assume ab: "a \<in> A" "b \<in> A"
  then show "(if c b a \<noteq> Equal then c b a else c' b a) = reverse (if c a b \<noteq> Equal then c a b else c' a b)"
    using flips(1) [OF ab] flips(2) [OF ab] by simp
  assume d: "d \<in> A"
    and le: "(if c a b \<noteq> Equal then c a b else c' a b) \<noteq> Greater" "(if c b d \<noteq> Equal then c b d else c' b d) \<noteq> Greater"
  consider "c a b = Equal" | "c b d = Equal" "c a b = Less" | "c a b = Less" "c b d = Less"
    using le by (cases "c a b"; cases "c b d") auto
  then show "(if c a d \<noteq> Equal then c a d else c' a d) \<noteq> Greater"
  proof cases
    case 1
    then have "c a d = c b d" using ord_contract.equal_left [OF assms(1) ab d] by simp
    with 1 le show ?thesis using ord_contract.le_trans [OF assms(2) ab d] by (auto split: if_splits)
  next
    case 2
    then have "c d b = Equal" "c b a = Greater"
      using flips(1) [OF ab(2) d] flips(1) [OF ab] by simp_all
    then have "c d a = Greater" using ord_contract.equal_left [OF assms(1) d ab(2) ab(1)] by simp
    then show ?thesis using flips(1) [OF d ab(1)] by simp
  next
    case 3
    have "c a d \<noteq> Greater" using ord_contract.le_trans [OF assms(1) ab d] 3 by simp
    moreover have "c a d \<noteq> Equal"
    proof
      assume "c a d = Equal"
      then have "c a b = c d b" using ord_contract.equal_left [OF assms(1) ab(1) d ab(2)] by simp
      with 3 flips(1) [OF ab(2) d] show False by simp
    qed
    ultimately show ?thesis by simp
  qed
qed

end
