(* ===== verification/Datum.thy ===== *)
theory Datum
  imports RowDescription Comparison
begin

text \<open>
  \<^verbatim>\<open>pgdog-postgres-types/src\<close>: the values the proxy decodes from the columns of a row to sort, group and
  aggregate the rows of several shards. Integers, booleans, text, object identifiers and values of unknown type are
  modelled completely. The other types (\<^verbatim>\<open>Interval\<close>, \<^verbatim>\<open>Timestamp\<close>, \<^verbatim>\<open>TimestampTz\<close>, \<^verbatim>\<open>Uuid\<close>, \<^verbatim>\<open>Numeric\<close>, \<^verbatim>\<open>Float\<close>,
  \<^verbatim>\<open>Double\<close>, \<^verbatim>\<open>Vector\<close>, \<^verbatim>\<open>Array\<close>) rest on IEEE arithmetic and on the chrono, uuid and rust_decimal crates: their values
  are a type parameter \<open>'o\<close> and their decoding, encoding, comparison and arithmetic the fields of a parameter record.
\<close>

section \<open>Integers as text\<close>

text \<open>\<^verbatim>\<open>str::parse\<close> of an integer type: an optional sign (a minus only for signed types), at least one digit, and a
  value in the range of the type.\<close>

definition is_digit :: "char \<Rightarrow> bool" where
  "is_digit c \<longleftrightarrow> 48 \<le> (of_char c :: nat) \<and> (of_char c :: nat) \<le> 57"

definition parse_digits :: "string \<Rightarrow> nat option" where
  "parse_digits s = (if s = [] \<or> \<not> list_all is_digit s then None else Some (read_digits s))"

definition in_range :: "int \<Rightarrow> int \<Rightarrow> int \<Rightarrow> int option" where
  "in_range lo hi i = (if lo \<le> i \<and> i \<le> hi then Some i else None)"

definition parse_int :: "int \<Rightarrow> int \<Rightarrow> string \<Rightarrow> int option" where
  "parse_int lo hi s =
     (case s of
        [] \<Rightarrow> None
      | c # r \<Rightarrow>
          if c = CHR ''-'' \<and> lo < 0 then Option.bind (parse_digits r) (\<lambda>n. in_range lo hi (- int n))
          else if c = CHR ''+'' then Option.bind (parse_digits r) (\<lambda>n. in_range lo hi (int n))
          else Option.bind (parse_digits s) (\<lambda>n. in_range lo hi (int n)))"

definition parse_i16 :: "string \<Rightarrow> int option" where
  "parse_i16 = parse_int (- 32768) 32767"

definition parse_i32 :: "string \<Rightarrow> int option" where
  "parse_i32 = parse_int (- 2147483648) 2147483647"

definition parse_i64 :: "string \<Rightarrow> int option" where
  "parse_i64 = parse_int (- 9223372036854775808) 9223372036854775807"

definition parse_u32 :: "string \<Rightarrow> int option" where
  "parse_u32 = parse_int 0 4294967295"

definition parse_usize :: "string \<Rightarrow> int option" where
  "parse_usize = parse_int 0 18446744073709551615"

definition show_int :: "int \<Rightarrow> string" where
  "show_int i = (if i < 0 then CHR ''-'' # show_nat (nat (- i)) else show_nat (nat i))"

section \<open>Types of columns and values\<close>

datatype type_error =
    TyUtf8
  | TyNotInteger
  | TyWrongSizeSlice
  | TyWrongSizeBinary nat
  | TyArrayDimensions nat
  | TyNotBoolean
  | TyOtherError

datatype data_type =
    DtBigint | DtInteger | DtText | DtInterval | DtTimestamp | DtTimestampTz | DtReal | DtDoublePrecision | DtBool
  | DtSmallInt | DtTinyInt | DtNumeric | DtOther int | DtUuid | DtOid | DtVector | DtArray int

definition from_oid :: "int \<Rightarrow> data_type" where
  "from_oid oid =
     (if oid = 16 then DtBool
      else if oid = 20 then DtBigint
      else if oid = 21 then DtSmallInt
      else if oid = 23 then DtInteger
      else if oid = 25 then DtText
      else if oid = 26 then DtOid
      else if oid = 700 then DtReal
      else if oid = 701 then DtDoublePrecision
      else if oid = 1043 then DtText
      else if oid = 1114 then DtTimestamp
      else if oid = 1184 then DtTimestampTz
      else if oid = 1186 then DtInterval
      else if oid = 1700 then DtNumeric
      else if oid = 2950 then DtUuid
      else if oid = 1000 then DtArray 16
      else if oid = 1005 then DtArray 21
      else if oid = 1007 then DtArray 23
      else if oid = 1009 then DtArray 25
      else if oid = 1015 then DtArray 1043
      else if oid = 1016 then DtArray 20
      else if oid = 1021 then DtArray 700
      else if oid = 1022 then DtArray 701
      else if oid = 1028 then DtArray 26
      else if oid = 1115 then DtArray 1114
      else if oid = 1185 then DtArray 1184
      else if oid = 1187 then DtArray 1186
      else if oid = 1231 then DtArray 1700
      else if oid = 2951 then DtArray 2950
      else DtOther oid)"

definition field_data_type :: "field \<Rightarrow> data_type" where
  "field_data_type f = from_oid (field_type_oid f)"

datatype other_kind =
  KInterval | KTimestamp | KTimestampTz | KUuid | KNumeric | KFloat | KDouble | KVector | KArray

datatype 'o datum =
    DBigint int
  | DInteger int
  | DSmallInt int
  | DText string
  | DOid int
  | DUnknown bytes
  | DNull
  | DBoolean bool
  | DOther other_kind 'o

text \<open>The operations of the types that are not modelled: \<open>o_variance\<close> is the variance or standard deviation of
  a sum and a sum of squares, \<open>o_distance_cmp l r v\<close> compares the distances of two vectors to a third.\<close>

record 'o type_ops =
  o_decode :: "data_type \<Rightarrow> bytes \<Rightarrow> format \<Rightarrow> type_error + 'o"
  o_encode :: "other_kind \<Rightarrow> 'o \<Rightarrow> format \<Rightarrow> type_error + bytes"
  o_cmp :: "other_kind \<Rightarrow> 'o \<Rightarrow> 'o \<Rightarrow> ordering"
  o_add :: "other_kind \<Rightarrow> 'o \<Rightarrow> 'o \<Rightarrow> 'o"
  o_mul :: "other_kind \<Rightarrow> 'o \<Rightarrow> int \<Rightarrow> 'o option"
  o_div :: "other_kind \<Rightarrow> 'o \<Rightarrow> int \<Rightarrow> 'o option"
  o_variance :: "other_kind \<Rightarrow> bool \<Rightarrow> bool \<Rightarrow> 'o \<Rightarrow> 'o \<Rightarrow> int \<Rightarrow> 'o option"
  o_distance_cmp :: "'o \<Rightarrow> 'o \<Rightarrow> 'o \<Rightarrow> ordering option"

section \<open>Decoding and encoding\<close>

definition string_decode :: "bytes \<Rightarrow> type_error + string" where
  "string_decode bs = (if utf8_valid bs then Inr bs else Inl TyUtf8)"

definition int_text :: "(string \<Rightarrow> int option) \<Rightarrow> bytes \<Rightarrow> type_error + int" where
  "int_text parser bs =
     and_then (string_decode bs) (\<lambda>s. case parser s of None \<Rightarrow> Inl TyNotInteger | Some i \<Rightarrow> Inr i)"

text \<open>\<^verbatim>\<open>try_into\<close> an array of \<open>k\<close> bytes.\<close>

definition int_slice :: "nat \<Rightarrow> bytes \<Rightarrow> type_error + int" where
  "int_slice k bs = (if length bs = k then Inr (to_signed (8 * k) (be_value bs)) else Inl TyWrongSizeSlice)"

definition i16_decode :: "bytes \<Rightarrow> format \<Rightarrow> type_error + int" where
  "i16_decode bs fmt = (case fmt of Binary \<Rightarrow> int_slice 2 bs | Text \<Rightarrow> int_text parse_i16 bs)"

definition i32_decode :: "bytes \<Rightarrow> format \<Rightarrow> type_error + int" where
  "i32_decode bs fmt = (case fmt of Binary \<Rightarrow> int_slice 4 bs | Text \<Rightarrow> int_text parse_i32 bs)"

definition i64_decode :: "bytes \<Rightarrow> format \<Rightarrow> type_error + int" where
  "i64_decode bs fmt =
     (case fmt of
        Binary \<Rightarrow>
          if length bs = 2 then int_slice 2 bs
          else if length bs = 4 then int_slice 4 bs
          else if length bs = 8 then int_slice 8 bs
          else Inl (TyWrongSizeBinary (length bs))
      | Text \<Rightarrow> int_text parse_i64 bs)"

definition oid_decode :: "bytes \<Rightarrow> format \<Rightarrow> type_error + int" where
  "oid_decode bs fmt =
     (case fmt of
        Binary \<Rightarrow> if length bs = 4 then Inr (int (be_value bs)) else Inl TyWrongSizeSlice
      | Text \<Rightarrow> int_text parse_u32 bs)"

definition bool_decode :: "bytes \<Rightarrow> format \<Rightarrow> type_error + bool" where
  "bool_decode bs fmt =
     (if bs = [] then Inl TyNotBoolean
      else case fmt of
        Text \<Rightarrow> and_then (string_decode bs) (\<lambda>s.
          if s = ''t'' then Inr True else if s = ''f'' then Inr False else Inl TyNotBoolean)
      | Binary \<Rightarrow>
          if (of_char (hd bs) :: nat) = 1 then Inr True
          else if (of_char (hd bs) :: nat) = 0 then Inr False else Inl TyNotBoolean)"

text \<open>\<^verbatim>\<open>Datum::new\<close>.\<close>

definition datum_new :: "'o type_ops \<Rightarrow> bytes \<Rightarrow> data_type \<Rightarrow> format \<Rightarrow> bool \<Rightarrow> type_error + 'o datum" where
  "datum_new ops bs dt fmt is_null =
     (if is_null then Inr DNull
      else
        let other = (\<lambda>k. and_then (o_decode ops dt bs fmt) (\<lambda>v. Inr (DOther k v))) in
        case dt of
          DtBigint \<Rightarrow> and_then (i64_decode bs fmt) (\<lambda>i. Inr (DBigint i))
        | DtInteger \<Rightarrow> and_then (i32_decode bs fmt) (\<lambda>i. Inr (DInteger i))
        | DtText \<Rightarrow> and_then (string_decode bs) (\<lambda>s. Inr (DText s))
        | DtInterval \<Rightarrow> other KInterval
        | DtNumeric \<Rightarrow> other KNumeric
        | DtReal \<Rightarrow> other KFloat
        | DtDoublePrecision \<Rightarrow> other KDouble
        | DtUuid \<Rightarrow> other KUuid
        | DtTimestamp \<Rightarrow> other KTimestamp
        | DtTimestampTz \<Rightarrow> other KTimestampTz
        | DtVector \<Rightarrow> other KVector
        | DtSmallInt \<Rightarrow> and_then (i16_decode bs fmt) (\<lambda>i. Inr (DSmallInt i))
        | DtOid \<Rightarrow> and_then (oid_decode bs fmt) (\<lambda>i. Inr (DOid i))
        | DtBool \<Rightarrow> and_then (bool_decode bs fmt) (\<lambda>b. Inr (DBoolean b))
        | DtArray element \<Rightarrow>
            (case o_decode ops dt bs fmt of
               Inr v \<Rightarrow> Inr (DOther KArray v)
             | Inl (TyArrayDimensions n) \<Rightarrow> Inr (DUnknown bs)
             | Inl e \<Rightarrow> Inl e)
        | _ \<Rightarrow> Inr (DUnknown bs))"

definition int_encode :: "nat \<Rightarrow> int \<Rightarrow> format \<Rightarrow> bytes" where
  "int_encode k i fmt = (case fmt of Text \<Rightarrow> show_int i | Binary \<Rightarrow> be_bytes k (of_signed (8 * k) i))"

definition bool_encode :: "bool \<Rightarrow> format \<Rightarrow> bytes" where
  "bool_encode b fmt =
     (case fmt of Binary \<Rightarrow> [char_of (if b then 1 else 0 :: nat)] | Text \<Rightarrow> if b then ''t'' else ''f'')"

definition datum_encode :: "'o type_ops \<Rightarrow> 'o datum \<Rightarrow> format \<Rightarrow> type_error + bytes" where
  "datum_encode ops d fmt =
     (case d of
        DBigint i \<Rightarrow> Inr (int_encode 8 i fmt)
      | DInteger i \<Rightarrow> Inr (int_encode 4 i fmt)
      | DText s \<Rightarrow> Inr s
      | DBoolean b \<Rightarrow> Inr (bool_encode b fmt)
      | DSmallInt i \<Rightarrow> Inr (int_encode 2 i fmt)
      | DOid i \<Rightarrow> Inr (int_encode 4 i fmt)
      | DOther k v \<Rightarrow> o_encode ops k v fmt
      | DNull \<Rightarrow> Inr []
      | DUnknown bs \<Rightarrow> Inr bs)"

definition datum_is_null :: "'o datum \<Rightarrow> bool" where
  "datum_is_null d = (case d of DNull \<Rightarrow> True | _ \<Rightarrow> False)"

section \<open>Comparison and addition\<close>

fun variant_index :: "'o datum \<Rightarrow> nat" where
  "variant_index (DBigint _) = 0"
| "variant_index (DInteger _) = 1"
| "variant_index (DSmallInt _) = 2"
| "variant_index (DText _) = 4"
| "variant_index (DOid _) = 12"
| "variant_index (DUnknown _) = 14"
| "variant_index DNull = 15"
| "variant_index (DBoolean _) = 16"
| "variant_index (DOther k _) =
     (case k of
        KInterval \<Rightarrow> 3 | KTimestamp \<Rightarrow> 5 | KTimestampTz \<Rightarrow> 6 | KUuid \<Rightarrow> 7 | KNumeric \<Rightarrow> 8 | KFloat \<Rightarrow> 9 | KDouble \<Rightarrow> 10
      | KVector \<Rightarrow> 11 | KArray \<Rightarrow> 13)"

definition datum_cmp :: "'o type_ops \<Rightarrow> 'o datum \<Rightarrow> 'o datum \<Rightarrow> ordering" where
  "datum_cmp ops a b =
     (case (a, b) of
        (DBigint x, DBigint y) \<Rightarrow> cmp x y
      | (DInteger x, DInteger y) \<Rightarrow> cmp x y
      | (DSmallInt x, DSmallInt y) \<Rightarrow> cmp x y
      | (DText x, DText y) \<Rightarrow> cmp x y
      | (DOid x, DOid y) \<Rightarrow> cmp x y
      | (DUnknown x, DUnknown y) \<Rightarrow> cmp x y
      | (DBoolean x, DBoolean y) \<Rightarrow> cmp x y
      | (DNull, DNull) \<Rightarrow> Equal
      | (DOther k x, DOther l y) \<Rightarrow>
          if k = l then o_cmp ops k x y else cmp (variant_index a) (variant_index b)
      | _ \<Rightarrow> cmp (variant_index a) (variant_index b))"

text \<open>Addition of two machine integers wraps in a release build.\<close>

definition wrap :: "nat \<Rightarrow> int \<Rightarrow> int" where
  "wrap w i = to_signed w (of_signed w i)"

definition datum_add :: "'o type_ops \<Rightarrow> 'o datum \<Rightarrow> 'o datum \<Rightarrow> 'o datum" where
  "datum_add ops a b =
     (case (a, b) of
        (DBigint x, DBigint y) \<Rightarrow> DBigint (wrap 64 (x + y))
      | (DInteger x, DInteger y) \<Rightarrow> DInteger (wrap 32 (x + y))
      | (DSmallInt x, DSmallInt y) \<Rightarrow> DSmallInt (wrap 16 (x + y))
      | (DNull, b) \<Rightarrow> b
      | (a, DNull) \<Rightarrow> a
      | (DOther k x, DOther l y) \<Rightarrow>
          if k = l \<and> k \<in> {KInterval, KNumeric, KFloat, KDouble} then DOther k (o_add ops k x y) else DNull
      | _ \<Rightarrow> DNull)"

section \<open>Facts on integers\<close>

lemma show_nat_digits: "list_all is_digit (show_nat n) \<and> show_nat n \<noteq> []"
proof (induction n rule: show_nat.induct)
  case (1 n)
  then show ?case by (cases "n < 10") (simp_all add: show_nat.simps [of n] is_digit_def)
qed

lemma parse_digits_show [simp]: "parse_digits (show_nat n) = Some n"
  using show_nat_digits [of n] by (simp add: parse_digits_def read_show_nat)

lemma parse_int_show:
  assumes "lo \<le> i" "i \<le> hi" "lo \<le> 0"
  shows "parse_int lo hi (show_int i) = Some i"
proof (cases "i < 0")
  case True
  with assms show ?thesis by (simp add: parse_int_def show_int_def in_range_def)
next
  case False
  obtain c r where cr: "show_nat (nat i) = c # r"
    using show_nat_digits [of "nat i"] by (cases "show_nat (nat i)") auto
  with show_nat_digits [of "nat i"] have "c \<noteq> CHR ''-''" "c \<noteq> CHR ''+''"
    by (auto simp: is_digit_def)
  moreover have "parse_digits (c # r) = Some (nat i)" using parse_digits_show [of "nat i"] cr by simp
  ultimately show ?thesis using False assms cr by (simp add: parse_int_def show_int_def in_range_def)
qed

lemma ascii_utf8: "list_all (\<lambda>c. (of_char c :: nat) < 128) s \<Longrightarrow> utf8_valid s"
  by (induction s) (simp_all add: Let_def)

lemma show_int_utf8 [simp]: "utf8_valid (show_int i)"
proof (rule ascii_utf8)
  have "list_all (\<lambda>c. (of_char c :: nat) < 128) (show_nat n)" for n
    using show_nat_digits [of n] by (auto simp: list_all_iff is_digit_def)
  then show "list_all (\<lambda>c. (of_char c :: nat) < 128) (show_int i)" by (simp add: show_int_def)
qed

lemma int_slice_encode:
  assumes "0 < k" "- (2 ^ (8 * k - 1)) \<le> i" "i < 2 ^ (8 * k - 1)"
  shows "int_slice k (be_bytes k (of_signed (8 * k) i)) = Inr i"
proof -
  have "(256::nat) ^ k = 2 ^ (8 * k)" by (simp add: power_mult)
  then show ?thesis
    using of_signed_less [of "8 * k" i] to_signed_of_signed [of "8 * k" i] assms
    by (simp add: int_slice_def be_value_be_bytes)
qed

section \<open>Order and round trip\<close>

text \<open>The \<^verbatim>\<open>Ord\<close> implementations of the types that are parameters keep the contract of \<^verbatim>\<open>Ord\<close>.\<close>

definition ops_ordered :: "'o type_ops \<Rightarrow> bool" where
  "ops_ordered ops \<longleftrightarrow> (\<forall>k. ord_contract UNIV (o_cmp ops k))"

lemma datum_cmp_variant:
  "variant_index a \<noteq> variant_index b \<Longrightarrow> datum_cmp ops a b = cmp (variant_index a) (variant_index b)"
  by (cases a; cases b) (auto simp: datum_cmp_def)

lemma other_kind_index: "variant_index (DOther k x) = variant_index (DOther l y) \<Longrightarrow> k = l"
  by (cases k; cases l) simp_all

lemma variant_cases [consumes 1]:
  assumes "variant_index a = variant_index b"
  obtains x y where "a = DBigint x" "b = DBigint y"
  | x y where "a = DInteger x" "b = DInteger y"
  | x y where "a = DSmallInt x" "b = DSmallInt y"
  | x y where "a = DText x" "b = DText y"
  | x y where "a = DOid x" "b = DOid y"
  | x y where "a = DUnknown x" "b = DUnknown y"
  | "a = DNull" "b = DNull"
  | x y where "a = DBoolean x" "b = DBoolean y"
  | k x y where "a = DOther k x" "b = DOther k y"
  using assms by (cases a; cases b) (auto dest: other_kind_index split: other_kind.splits)

lemma variant_inv:
  "variant_index (DBigint x) = variant_index d \<longleftrightarrow> (\<exists>y. d = DBigint y)"
  "variant_index (DInteger x) = variant_index d \<longleftrightarrow> (\<exists>y. d = DInteger y)"
  "variant_index (DSmallInt x) = variant_index d \<longleftrightarrow> (\<exists>y. d = DSmallInt y)"
  "variant_index (DText s) = variant_index d \<longleftrightarrow> (\<exists>t. d = DText t)"
  "variant_index (DOid x) = variant_index d \<longleftrightarrow> (\<exists>y. d = DOid y)"
  "variant_index (DUnknown s) = variant_index d \<longleftrightarrow> (\<exists>t. d = DUnknown t)"
  "variant_index DNull = variant_index d \<longleftrightarrow> d = DNull"
  "variant_index (DBoolean p) = variant_index d \<longleftrightarrow> (\<exists>q. d = DBoolean q)"
  "variant_index (DOther k v) = variant_index d \<longleftrightarrow> (\<exists>w. d = DOther k w)"
  by (cases d; force split: other_kind.splits dest: other_kind_index)+

lemma datum_cmp_same:
  "datum_cmp ops (DBigint x) (DBigint y) = cmp x y" "datum_cmp ops (DInteger x) (DInteger y) = cmp x y"
  "datum_cmp ops (DSmallInt x) (DSmallInt y) = cmp x y" "datum_cmp ops (DText s) (DText t) = cmp s t"
  "datum_cmp ops (DOid x) (DOid y) = cmp x y" "datum_cmp ops (DUnknown s) (DUnknown t) = cmp s t"
  "datum_cmp ops DNull DNull = Equal" "datum_cmp ops (DBoolean p) (DBoolean q) = cmp p q"
  "datum_cmp ops (DOther k v) (DOther k w) = o_cmp ops k v w"
  by (simp_all add: datum_cmp_def)

lemma cmp_flip: "reverse (cmp a b) = cmp b a"
  using cmp_order.flip [of a b] by simp

lemma cmp_trans: "cmp a b \<noteq> Greater \<Longrightarrow> cmp b d \<noteq> Greater \<Longrightarrow> cmp a d \<noteq> Greater"
  using cmp_order.le_trans [of a b d] by simp

lemma datum_cmp_flip:
  assumes "ops_ordered ops"
  shows "datum_cmp ops b a = reverse (datum_cmp ops a b)"
proof -
  have ops: "reverse (o_cmp ops k x y) = o_cmp ops k y x" for k x y
    using assms ord_contract.flip [of UNIV "o_cmp ops k" x y] by (simp add: ops_ordered_def)
  show ?thesis
  proof (cases "variant_index a = variant_index b")
    case True
    then show ?thesis by (cases rule: variant_cases) (simp_all add: datum_cmp_same cmp_flip ops)
  next
    case False
    then show ?thesis by (simp add: datum_cmp_variant cmp_flip)
  qed
qed

lemma datum_cmp_trans_same:
  assumes "ops_ordered ops" "variant_index a = variant_index b" "variant_index b = variant_index d"
    and le: "datum_cmp ops a b \<noteq> Greater" "datum_cmp ops b d \<noteq> Greater"
  shows "datum_cmp ops a d \<noteq> Greater"
proof -
  have ops: "o_cmp ops k x y \<noteq> Greater \<Longrightarrow> o_cmp ops k y z \<noteq> Greater \<Longrightarrow> o_cmp ops k x z \<noteq> Greater" for k x y z
    using assms(1) ord_contract.le_trans [of UNIV "o_cmp ops k" x y z] by (simp add: ops_ordered_def)
  from assms(2,3) show ?thesis
    by (cases rule: variant_cases)
      (use le ops in \<open>auto simp: variant_inv datum_cmp_same simp del: variant_index.simps dest: cmp_trans\<close>)
qed

lemma datum_cmp_order:
  assumes "ops_ordered ops"
  shows "ord_contract UNIV (datum_cmp ops)"
proof
  fix a b d :: "'a datum"
  show "datum_cmp ops b a = reverse (datum_cmp ops a b)" by (rule datum_cmp_flip [OF assms])
  assume le: "datum_cmp ops a b \<noteq> Greater" "datum_cmp ops b d \<noteq> Greater"
  show "datum_cmp ops a d \<noteq> Greater"
  proof (cases "variant_index a = variant_index b \<and> variant_index b = variant_index d")
    case True
    with le show ?thesis using datum_cmp_trans_same [OF assms] by blast
  next
    case False
    have "variant_index a \<le> variant_index b" if "variant_index a \<noteq> variant_index b"
      using le(1) that by (simp add: datum_cmp_variant cmp_def split: if_splits)
    moreover have "variant_index b \<le> variant_index d" if "variant_index b \<noteq> variant_index d"
      using le(2) that by (simp add: datum_cmp_variant cmp_def split: if_splits)
    ultimately have "variant_index a < variant_index d" using False by linarith
    then show ?thesis by (simp add: datum_cmp_variant cmp_def)
  qed
qed

text \<open>The values of a type: what the column of that type can hold. The type under which a value is decoded.\<close>

fun datum_ok :: "'o datum \<Rightarrow> bool" where
  "datum_ok (DBigint i) \<longleftrightarrow> - (2 ^ 63) \<le> i \<and> i < 2 ^ 63"
| "datum_ok (DInteger i) \<longleftrightarrow> - (2 ^ 31) \<le> i \<and> i < 2 ^ 31"
| "datum_ok (DSmallInt i) \<longleftrightarrow> - (2 ^ 15) \<le> i \<and> i < 2 ^ 15"
| "datum_ok (DText s) \<longleftrightarrow> utf8_valid s"
| "datum_ok (DOid i) \<longleftrightarrow> 0 \<le> i \<and> i < 2 ^ 32"
| "datum_ok (DUnknown _) \<longleftrightarrow> True"
| "datum_ok DNull \<longleftrightarrow> True"
| "datum_ok (DBoolean _) \<longleftrightarrow> True"
| "datum_ok (DOther _ _) \<longleftrightarrow> False"

fun datum_oid :: "'o datum \<Rightarrow> int" where
  "datum_oid (DBigint _) = 20"
| "datum_oid (DInteger _) = 23"
| "datum_oid (DSmallInt _) = 21"
| "datum_oid (DText _) = 25"
| "datum_oid (DOid _) = 26"
| "datum_oid (DBoolean _) = 16"
| "datum_oid _ = 0"

lemma int_text_show: "parser (show_int i) = Some i \<Longrightarrow> int_text parser (show_int i) = Inr i"
  by (simp add: int_text_def string_decode_def)

lemma i64_roundtrip: "- (2 ^ 63) \<le> i \<Longrightarrow> i < 2 ^ 63 \<Longrightarrow> i64_decode (int_encode 8 i fmt) fmt = Inr i"
  using int_slice_encode [of 8 i]
  by (cases fmt) (simp_all add: i64_decode_def int_encode_def int_text_show parse_i64_def parse_int_show)

lemma i32_roundtrip: "- (2 ^ 31) \<le> i \<Longrightarrow> i < 2 ^ 31 \<Longrightarrow> i32_decode (int_encode 4 i fmt) fmt = Inr i"
  using int_slice_encode [of 4 i]
  by (cases fmt) (simp_all add: i32_decode_def int_encode_def int_text_show parse_i32_def parse_int_show)

lemma i16_roundtrip: "- (2 ^ 15) \<le> i \<Longrightarrow> i < 2 ^ 15 \<Longrightarrow> i16_decode (int_encode 2 i fmt) fmt = Inr i"
  using int_slice_encode [of 2 i]
  by (cases fmt) (simp_all add: i16_decode_def int_encode_def int_text_show parse_i16_def parse_int_show)

lemma oid_roundtrip: "0 \<le> i \<Longrightarrow> i < 2 ^ 32 \<Longrightarrow> oid_decode (int_encode 4 i fmt) fmt = Inr i"
  by (cases fmt)
    (simp_all add: oid_decode_def int_encode_def int_text_show parse_u32_def parse_int_show be_value_be_bytes of_signed_def
      nat_less_iff)

lemma bool_roundtrip: "bool_decode (bool_encode b fmt) fmt = Inr b"
  by (cases fmt) (simp_all add: bool_decode_def bool_encode_def string_decode_def Let_def)

lemma datum_roundtrip:
  assumes "datum_ok d"
  shows "\<exists>bs. datum_encode ops d fmt = Inr bs
    \<and> datum_new ops bs (from_oid (datum_oid d)) fmt (datum_is_null d) = Inr d"
  using assms
  by (cases d)
    (simp_all add: datum_encode_def datum_new_def datum_is_null_def from_oid_def i64_roundtrip i32_roundtrip i16_roundtrip
      oid_roundtrip bool_roundtrip string_decode_def)

end
