(* ===== verification/DataRow.thy ===== *)
theory DataRow
  imports Datum GlobalCache
begin

text \<open>
  \<^verbatim>\<open>pgdog/src/net/messages/data_row.rs\<close>, the rows a server sends, and \<^verbatim>\<open>pgdog/src/net/decoder.rs\<close>, which knows the names,
  types and formats of their columns.
\<close>

section \<open>Rows\<close>

record data =
  data_bytes :: bytes
  data_is_null :: bool

definition data_null :: data where
  "data_null = \<lparr>data_bytes = [], data_is_null = True\<rparr>"

definition data_of :: "bytes \<Rightarrow> data" where
  "data_of bs = \<lparr>data_bytes = bs, data_is_null = False\<rparr>"

type_synonym data_row = "data list"

definition dr_add :: "data_row \<Rightarrow> bytes \<Rightarrow> data_row" where
  "dr_add row value = row @ [data_of value]"

definition dr_insert :: "data_row \<Rightarrow> nat \<Rightarrow> bytes \<Rightarrow> bool \<Rightarrow> data_row" where
  "dr_insert row index value is_null =
     (row @ replicate (Suc index - length row) data_null)[index := (data_of value)\<lparr>data_is_null := is_null\<rparr>]"

text \<open>The loop of \<^verbatim>\<open>drop_columns\<close>, which walks the columns and the sorted indexes side by side.\<close>

fun drop_from :: "nat \<Rightarrow> nat list \<Rightarrow> data_row \<Rightarrow> data_row" where
  "drop_from idx dropped [] = []"
| "drop_from idx [] (column # columns) = column # drop_from (Suc idx) [] columns"
| "drop_from idx (d # dropped) (column # columns) =
     (if d = idx then drop_from (Suc idx) dropped columns
      else column # drop_from (Suc idx) (d # dropped) columns)"

definition dr_drop_columns :: "data_row \<Rightarrow> nat list \<Rightarrow> data_row" where
  "dr_drop_columns row dropped = (if dropped = [] then row else drop_from 0 (remdups_adj (sort dropped)) row)"

definition dr_column :: "data_row \<Rightarrow> nat \<Rightarrow> bytes option" where
  "dr_column row index = (if index < length row then Some (data_bytes (row ! index)) else None)"

text \<open>The codec. A negative length is a null; \<^verbatim>\<open>split_to\<close> past the end panics.\<close>

fun read_columns :: "nat \<Rightarrow> bytes \<Rightarrow> net_error + data_row" where
  "read_columns 0 bs = Inr []"
| "read_columns (Suc n) bs =
     and_then (get_i32 bs) (\<lambda>(len, bs).
       if len < 0 then and_then (read_columns n bs) (\<lambda>cs. Inr (data_null # cs))
       else if length bs < nat len then Inl BufferUnderflow
       else and_then (read_columns n (drop (nat len) bs)) (\<lambda>cs. Inr (data_of (take (nat len) bs) # cs)))"

definition dr_from_bytes :: "bytes \<Rightarrow> net_error + data_row" where
  "dr_from_bytes bs =
     and_then (expect_code CHR ''D'' bs) (\<lambda>bs.
     and_then (get_i32 bs) (\<lambda>(_, bs).
     and_then (get_i16 bs) (\<lambda>(n, bs). read_columns (nat n) bs)))"

definition put_column :: "data \<Rightarrow> bytes" where
  "put_column d =
     (if data_is_null d then put_i32 (- 1)
      else put_i32 (to_signed 32 (length (data_bytes d) mod 2 ^ 32)) @ data_bytes d)"

definition dr_to_bytes :: "data_row \<Rightarrow> bytes" where
  "dr_to_bytes row =
     payload_named CHR ''D'' (put_i16 (to_signed 16 (length row mod 65536)) @ concat (map put_column row))"

definition dr_message :: "data_row \<Rightarrow> message" where
  "dr_message row = new_message CHR ''D'' (tl (dr_to_bytes row))"

section \<open>The decoder of columns\<close>

record decoder =
  dec_formats :: "format list"
  dec_rd :: row_description

definition decoder_new :: decoder where
  "decoder_new = \<lparr>dec_formats = [], dec_rd = \<lparr>rd_fields = []\<rparr>\<rparr>"

definition decoder_bind :: "row_description global_cache \<Rightarrow> decoder \<Rightarrow> bind \<Rightarrow> decoder" where
  "decoder_bind g dec b =
     (let dec = (if bind_codes b \<noteq> [] then dec\<lparr>dec_formats := bind_codes b\<rparr> else dec) in
      if rd_fields (dec_rd dec) = []
      then (case gc_row_description g (bind_statement b) of Some rd \<Rightarrow> dec\<lparr>dec_rd := rd\<rparr> | None \<Rightarrow> dec)
      else dec)"

definition decoder_row_description :: "decoder \<Rightarrow> row_description \<Rightarrow> decoder" where
  "decoder_row_description dec rd = dec\<lparr>dec_formats := map field_format (rd_fields rd), dec_rd := rd\<rparr>"

definition decoder_format :: "decoder \<Rightarrow> nat \<Rightarrow> format" where
  "decoder_format dec i =
     (case dec_formats dec of
        [] \<Rightarrow> Text
      | [f] \<Rightarrow> f
      | fs \<Rightarrow> if i < length fs then fs ! i else Text)"

text \<open>\<^verbatim>\<open>DataRow::get_column\<close>: the value of a column; no value where the description or the row has no such column.\<close>

definition dr_get_column :: "'o type_ops \<Rightarrow> data_row \<Rightarrow> nat \<Rightarrow> decoder \<Rightarrow> type_error + 'o datum option" where
  "dr_get_column ops row index dec =
     (case rd_field (dec_rd dec) index of
        Some field \<Rightarrow>
          if index < length row
          then and_then
            (datum_new ops (data_bytes (row ! index)) (field_data_type field) (decoder_format dec index)
               (data_is_null (row ! index)))
            (\<lambda>value. Inr (Some value))
          else Inr None
      | None \<Rightarrow> Inr None)"

section \<open>Facts\<close>

lemma drop_from_nths:
  "sorted_wrt (<) dropped \<Longrightarrow> list_all (\<lambda>d. n \<le> d) dropped \<Longrightarrow>
   drop_from n dropped row = nths row {i. i + n \<notin> set dropped}"
proof (induction n dropped row rule: drop_from.induct)
  case (3 idx d dropped column columns)
  have shift: "{j. Suc j \<in> {i. i + idx \<notin> D}} = {i. i + Suc idx \<notin> D}" for D by auto
  show ?case
  proof (cases "d = idx")
    case True
    with 3 have "drop_from (Suc idx) dropped columns = nths columns {i. i + Suc idx \<notin> set dropped}"
      by (auto simp: list_all_iff Suc_le_eq)
    moreover have "{i. i + Suc idx \<notin> set (d # dropped)} = {i. i + Suc idx \<notin> set dropped}" using True by auto
    ultimately show ?thesis using True by (simp add: nths_Cons shift)
  next
    case False
    with 3 have "idx < d" "list_all (\<lambda>e. Suc idx \<le> e) (d # dropped)" by (auto simp: list_all_iff)
    with 3 False have "drop_from (Suc idx) (d # dropped) columns = nths columns {i. i + Suc idx \<notin> set (d # dropped)}"
      by simp
    moreover have "idx \<notin> set (d # dropped)" using 3 False by (auto simp: list_all_iff)
    ultimately show ?thesis using False by (simp add: nths_Cons shift)
  qed
qed (simp_all add: nths_Cons)

lemma sorted_remdups_adj_strict: "sorted xs \<Longrightarrow> sorted_wrt (<) (remdups_adj (xs :: nat list))"
  by (induction xs rule: remdups_adj.induct) (auto simp: order_less_le)

lemma dr_drop_columns_nths: "dr_drop_columns row dropped = nths row {i. i \<notin> set dropped}"
  using drop_from_nths [OF sorted_remdups_adj_strict [of "sort dropped"], of 0 row]
  by (simp add: dr_drop_columns_def nths_all list_all_iff)

definition data_ok :: "data \<Rightarrow> bool" where
  "data_ok d \<longleftrightarrow> (if data_is_null d then data_bytes d = [] else length (data_bytes d) < 2147483648)"

definition dr_ok :: "data_row \<Rightarrow> bool" where
  "dr_ok row \<longleftrightarrow> list_all data_ok row \<and> length row < 32768 \<and> length (concat (map put_column row)) + 6 < 2147483648"

lemma read_put_columns:
  "list_all data_ok row \<Longrightarrow> read_columns (length row) (concat (map put_column row) @ r) = Inr row"
proof (induction row)
  case (Cons d row)
  then show ?case
    by (cases d) (auto simp: put_column_def data_ok_def data_null_def data_of_def to_signed_def)
qed simp

lemma dr_decode_encode: "dr_ok row \<Longrightarrow> dr_from_bytes (dr_to_bytes row) = Inr row"
  using read_put_columns [of row "[]"]
  by (simp add: dr_ok_def dr_to_bytes_def dr_from_bytes_def payload_named_fits to_signed_def)

interpretation dr_wire: wire_codec dr_to_bytes dr_from_bytes dr_ok "\<lambda>row. row"
  by unfold_locales (simp_all add: dr_decode_encode)

lemma dr_message_payload [simp]: "payload (dr_message row) = dr_to_bytes row" "msg_code (dr_message row) = CHR ''D''"
  by (simp_all add: dr_message_def payload_def new_message_def dr_to_bytes_def payload_named_def)

end
