(* ===== verification/Aggregates.thy ===== *)
theory Aggregates
  imports DataRow
begin

text \<open>
  \<^verbatim>\<open>pgdog/src/backend/pool/connection/aggregate.rs\<close>: the merge of the aggregate functions that each shard computed over
  its own rows, with the data it takes from the router (\<^verbatim>\<open>Aggregate\<close> in \<^verbatim>\<open>frontend/router/parser/aggregate.rs\<close>, the
  helper columns of \<^verbatim>\<open>rewrite/statement/aggregate/plan.rs\<close>).
\<close>

section \<open>Aggregates of a query\<close>

datatype aggregate_function =
    AggCount | AggMax | AggMin | AggAvg | AggSum | AggStddevPop | AggStddevSamp | AggVarPop | AggVarSamp

fun function_as_str :: "aggregate_function \<Rightarrow> string" where
  "function_as_str AggCount = ''count''"
| "function_as_str AggMax = ''max''"
| "function_as_str AggMin = ''min''"
| "function_as_str AggAvg = ''avg''"
| "function_as_str AggSum = ''sum''"
| "function_as_str AggStddevPop = ''stddev_pop''"
| "function_as_str AggStddevSamp = ''stddev_samp''"
| "function_as_str AggVarPop = ''var_pop''"
| "function_as_str AggVarSamp = ''var_samp''"

record aggregate_target =
  tgt_column :: nat
  tgt_function :: aggregate_function
  tgt_expr_id :: nat
  tgt_distinct :: bool

record aggregate =
  agg_targets :: "aggregate_target list"
  agg_group_by :: "nat list"

definition agg_is_empty :: "aggregate \<Rightarrow> bool" where
  "agg_is_empty a \<longleftrightarrow> length (agg_targets a) = 0"

definition new_count_group_by :: "nat \<Rightarrow> nat list \<Rightarrow> aggregate" where
  "new_count_group_by column group_by =
     \<lparr>agg_targets = [\<lparr>tgt_column = column, tgt_function = AggCount, tgt_expr_id = 0, tgt_distinct = False\<rparr>],
      agg_group_by = group_by\<rparr>"

datatype helper_kind = HelpCount | HelpSum | HelpSumSquares

record helper_mapping =
  hp_target_column :: nat
  hp_helper_column :: nat
  hp_expr_id :: nat
  hp_distinct :: bool
  hp_kind :: helper_kind
  hp_alias :: string

record rewrite_plan =
  plan_drop_columns :: "nat list"
  plan_helpers :: "helper_mapping list"

definition plan_new :: rewrite_plan where
  "plan_new = \<lparr>plan_drop_columns = [], plan_helpers = []\<rparr>"

section \<open>Accumulators\<close>

datatype rows_error =
    RowsNet net_error
  | RowsType type_error
  | DecoderRowError
  | UnsupportedAggregation string string

text \<open>\<^verbatim>\<open>?\<close> converts the error of a decoder.\<close>

definition typed :: "type_error + 'a \<Rightarrow> rows_error + 'a" where
  "typed r = (case r of Inl e \<Rightarrow> Inl (RowsType e) | Inr a \<Rightarrow> Inr a)"

type_synonym 'o grouping = "(nat \<times> 'o datum) list"

fun grouping_new :: "'o type_ops \<Rightarrow> data_row \<Rightarrow> nat list \<Rightarrow> decoder \<Rightarrow> rows_error + 'o grouping" where
  "grouping_new ops row [] dec = Inr []"
| "grouping_new ops row (idx # group_by) dec =
     and_then (typed (dr_get_column ops row idx dec)) (\<lambda>column.
     and_then (grouping_new ops row group_by dec) (\<lambda>columns.
       Inr (case column of Some value \<Rightarrow> (idx, value) # columns | None \<Rightarrow> columns)))"

record helper_columns =
  hc_count :: "nat option"
  hc_sum :: "nat option"
  hc_sumsq :: "nat option"

definition helper_default :: helper_columns where
  "helper_default = \<lparr>hc_count = None, hc_sum = None, hc_sumsq = None\<rparr>"

type_synonym helpers = "(nat \<times> bool, helper_columns) hmap"

record 'o avg_state =
  avg_count_column :: "nat option"
  avg_weighted_sum :: "'o datum"
  avg_total_count :: "'o datum"
  avg_supported :: bool

definition avg_new :: "nat option \<Rightarrow> 'o avg_state" where
  "avg_new count_column =
     \<lparr>avg_count_column = count_column, avg_weighted_sum = DNull, avg_total_count = DNull,
      avg_supported = (count_column \<noteq> None)\<rparr>"

record 'o variance_state =
  var_function :: aggregate_function
  var_count_column :: "nat option"
  var_sum_column :: "nat option"
  var_sumsq_column :: "nat option"
  var_total_count :: "'o datum"
  var_total_sum :: "'o datum"
  var_total_sumsq :: "'o datum"
  var_supported :: bool

definition variance_new :: "aggregate_function \<Rightarrow> helper_columns \<Rightarrow> bool \<Rightarrow> 'o variance_state" where
  "variance_new f helper distinct_values =
     \<lparr>var_function = f, var_count_column = hc_count helper, var_sum_column = hc_sum helper,
      var_sumsq_column = hc_sumsq helper, var_total_count = DNull, var_total_sum = DNull, var_total_sumsq = DNull,
      var_supported =
        (\<not> distinct_values \<and> hc_count helper \<noteq> None \<and> hc_sum helper \<noteq> None \<and> hc_sumsq helper \<noteq> None)\<rparr>"

record 'o accumulator =
  acc_target :: aggregate_target
  acc_datum :: "'o datum"
  acc_avg :: "'o avg_state option"
  acc_variance :: "'o variance_state option"

definition is_variance :: "aggregate_function \<Rightarrow> bool" where
  "is_variance f \<longleftrightarrow> f \<in> {AggStddevPop, AggStddevSamp, AggVarPop, AggVarSamp}"

definition acc_new :: "helpers \<Rightarrow> aggregate_target \<Rightarrow> 'o accumulator" where
  "acc_new helpers target =
     (let helper = (case hm_get helpers (tgt_expr_id target, tgt_distinct target) of
                      Some h \<Rightarrow> h | None \<Rightarrow> helper_default)
      in \<lparr>acc_target = target, acc_datum = DNull,
          acc_avg = (if tgt_function target = AggAvg then Some (avg_new (hc_count helper)) else None),
          acc_variance =
            (if is_variance (tgt_function target)
             then Some (variance_new (tgt_function target) helper (tgt_distinct target)) else None)\<rparr>)"

definition from_aggregate :: "aggregate \<Rightarrow> helpers \<Rightarrow> 'o accumulator list" where
  "from_aggregate a helpers = map (acc_new helpers) (agg_targets a)"

definition datum_as_i128 :: "'o datum \<Rightarrow> int option" where
  "datum_as_i128 d =
     (case d of DBigint i \<Rightarrow> Some i | DInteger i \<Rightarrow> Some i | DSmallInt i \<Rightarrow> Some i | _ \<Rightarrow> None)"

definition arithmetic_kind :: "other_kind \<Rightarrow> bool" where
  "arithmetic_kind k \<longleftrightarrow> k \<in> {KDouble, KFloat, KNumeric}"

definition multiply_for_average :: "'o type_ops \<Rightarrow> 'o datum \<Rightarrow> 'o datum \<Rightarrow> 'o datum option" where
  "multiply_for_average ops value n =
     Option.bind (datum_as_i128 n) (\<lambda>multiplier.
       case value of
         DOther k v \<Rightarrow> if arithmetic_kind k then map_option (DOther k) (o_mul ops k v multiplier) else None
       | _ \<Rightarrow> None)"

definition divide_for_average :: "'o type_ops \<Rightarrow> 'o datum \<Rightarrow> 'o datum \<Rightarrow> 'o datum option" where
  "divide_for_average ops weighted n =
     (if datum_is_null weighted \<or> datum_is_null n then Some DNull
      else Option.bind (datum_as_i128 n) (\<lambda>divisor.
        if divisor = 0 then Some DNull
        else case weighted of
          DOther k v \<Rightarrow> if arithmetic_kind k then map_option (DOther k) (o_div ops k v divisor) else None
        | _ \<Rightarrow> None))"

text \<open>A column that has to be there.\<close>

definition required_column :: "'o type_ops \<Rightarrow> data_row \<Rightarrow> nat \<Rightarrow> decoder \<Rightarrow> rows_error + 'o datum" where
  "required_column ops row idx dec =
     and_then (typed (dr_get_column ops row idx dec)) (\<lambda>column.
       case column of Some value \<Rightarrow> Inr value | None \<Rightarrow> Inl DecoderRowError)"

definition variance_accumulate ::
    "'o type_ops \<Rightarrow> 'o variance_state \<Rightarrow> data_row \<Rightarrow> decoder \<Rightarrow> rows_error + bool \<times> 'o variance_state" where
  "variance_accumulate ops st row dec =
     (let unsupported = (\<lambda>st. Inr (False, st\<lparr>var_supported := False\<rparr>)) in
      if \<not> var_supported st then Inr (False, st)
      else case var_count_column st of
        None \<Rightarrow> unsupported st
      | Some count_column \<Rightarrow>
          and_then (required_column ops row count_column dec) (\<lambda>count.
          if datum_is_null count then Inr (True, st)
          else case datum_as_i128 count of
            None \<Rightarrow> unsupported st
          | Some n \<Rightarrow>
              if n = 0 then Inr (True, st)
              else let st = st\<lparr>var_total_count := datum_add ops (var_total_count st) count\<rparr> in
              case var_sum_column st of
                None \<Rightarrow> unsupported st
              | Some sum_column \<Rightarrow>
                  and_then (required_column ops row sum_column dec) (\<lambda>sum.
                  if datum_is_null sum then unsupported st
                  else let st = st\<lparr>var_total_sum := datum_add ops (var_total_sum st) sum\<rparr> in
                  case var_sumsq_column st of
                    None \<Rightarrow> unsupported st
                  | Some sumsq_column \<Rightarrow>
                      and_then (required_column ops row sumsq_column dec) (\<lambda>sumsq.
                      if datum_is_null sumsq then unsupported st
                      else Inr (True, st\<lparr>var_total_sumsq := datum_add ops (var_total_sumsq st) sumsq\<rparr>)))))"

definition variance_finalize :: "'o type_ops \<Rightarrow> 'o variance_state \<Rightarrow> 'o datum option" where
  "variance_finalize ops st =
     (if \<not> var_supported st then None
      else if datum_is_null (var_total_sum st) \<or> datum_is_null (var_total_sumsq st) then Some DNull
      else Option.bind (datum_as_i128 (var_total_count st)) (\<lambda>count.
        let sample = (var_function st = AggStddevSamp \<or> var_function st = AggVarSamp) in
        if count = 0 then Some DNull
        else if sample \<and> count \<le> 1 then Some DNull
        else case (var_total_sum st, var_total_sumsq st) of
          (DOther k v, DOther l w) \<Rightarrow>
            if k = l \<and> arithmetic_kind k
            then map_option (DOther k)
              (o_variance ops k (var_function st = AggStddevPop \<or> var_function st = AggStddevSamp) sample v w count)
            else None
        | _ \<Rightarrow> None))"

definition avg_accumulate ::
    "'o type_ops \<Rightarrow> 'o avg_state \<Rightarrow> 'o datum \<Rightarrow> data_row \<Rightarrow> decoder \<Rightarrow> rows_error + bool \<times> 'o avg_state" where
  "avg_accumulate ops st value row dec =
     (if \<not> avg_supported st then Inr (False, st)
      else case avg_count_column st of
        None \<Rightarrow> Inr (False, st\<lparr>avg_supported := False\<rparr>)
      | Some count_column \<Rightarrow>
          and_then (required_column ops row count_column dec) (\<lambda>count.
          if datum_is_null value \<or> datum_is_null count then Inr (True, st)
          else case multiply_for_average ops value count of
            Some weighted \<Rightarrow>
              Inr (True, st\<lparr>avg_weighted_sum := datum_add ops (avg_weighted_sum st) weighted,
                            avg_total_count := datum_add ops (avg_total_count st) count\<rparr>)
          | None \<Rightarrow> Inr (False, st\<lparr>avg_supported := False\<rparr>)))"

text \<open>The branches of \<^verbatim>\<open>accumulate\<close> for count, sum, minimum and maximum: the value of a group after one more partial result.\<close>

definition merge_value :: "'o type_ops \<Rightarrow> aggregate_function \<Rightarrow> 'o datum \<Rightarrow> 'o datum \<Rightarrow> 'o datum" where
  "merge_value ops f current value =
     (if datum_is_null current then value
      else case f of
        AggMax \<Rightarrow> if datum_cmp ops current value = Less then value else current
      | AggMin \<Rightarrow> if datum_cmp ops current value = Greater then value else current
      | _ \<Rightarrow> datum_add ops current value)"

definition accumulate ::
    "'o type_ops \<Rightarrow> 'o accumulator \<Rightarrow> data_row \<Rightarrow> decoder \<Rightarrow> rows_error + bool \<times> 'o accumulator" where
  "accumulate ops acc row dec =
     and_then (required_column ops row (tgt_column (acc_target acc)) dec) (\<lambda>value.
     let f = tgt_function (acc_target acc) in
     if f = AggAvg then
       (case acc_avg acc of
          None \<Rightarrow> Inr (True, acc)
        | Some st \<Rightarrow>
            and_then (avg_accumulate ops st value row dec) (\<lambda>(ok, st). Inr (ok, acc\<lparr>acc_avg := Some st\<rparr>)))
     else if is_variance f then
       (case acc_variance acc of
          None \<Rightarrow> Inr (True, acc)
        | Some st \<Rightarrow>
            if \<not> var_supported st then Inr (False, acc)
            else and_then (variance_accumulate ops st row dec) (\<lambda>(ok, st). Inr (ok, acc\<lparr>acc_variance := Some st\<rparr>)))
     else Inr (True, acc\<lparr>acc_datum := merge_value ops f (acc_datum acc) value\<rparr>))"

definition acc_finalize :: "'o type_ops \<Rightarrow> 'o accumulator \<Rightarrow> bool \<times> 'o accumulator" where
  "acc_finalize ops acc =
     (case acc_avg acc of
        Some st \<Rightarrow>
          if \<not> avg_supported st then (False, acc)
          else if avg_count_column st = None then (False, acc)
          else if datum_is_null (avg_total_count st) then (True, acc\<lparr>acc_datum := DNull\<rparr>)
          else (case divide_for_average ops (avg_weighted_sum st) (avg_total_count st) of
                  Some r \<Rightarrow> (True, acc\<lparr>acc_datum := r\<rparr>)
                | None \<Rightarrow> (False, acc))
      | None \<Rightarrow>
          (case acc_variance acc of
             Some st \<Rightarrow>
               (case variance_finalize ops st of
                  Some r \<Rightarrow> (True, acc\<lparr>acc_datum := r\<rparr>)
                | None \<Rightarrow> (False, acc))
           | None \<Rightarrow> (True, acc)))"

section \<open>The merge\<close>

definition helper_entry :: "helpers \<Rightarrow> nat \<times> bool \<Rightarrow> helper_columns" where
  "helper_entry helpers key = (case hm_get helpers key of Some h \<Rightarrow> h | None \<Rightarrow> helper_default)"

text \<open>The three loops of \<^verbatim>\<open>Aggregates::new\<close>: columns of the query itself that serve as helpers, the helper columns that were
  added to it, and the check that every function has what it needs. The first reason found is kept.\<close>

fun target_helpers :: "helpers \<Rightarrow> aggregate_target list \<Rightarrow> helpers" where
  "target_helpers helpers [] = helpers"
| "target_helpers helpers (target # targets) =
     (let key = (tgt_expr_id target, tgt_distinct target); entry = helper_entry helpers key in
      target_helpers
        (case tgt_function target of
           AggCount \<Rightarrow> hm_insert key (entry\<lparr>hc_count := Some (tgt_column target)\<rparr>) helpers
         | AggSum \<Rightarrow> hm_insert key (entry\<lparr>hc_sum := Some (tgt_column target)\<rparr>) helpers
         | _ \<Rightarrow> helpers) targets)"

type_synonym unsupported = "(string \<times> string) option"

definition get_or_insert :: "unsupported \<Rightarrow> string \<times> string \<Rightarrow> unsupported" where
  "get_or_insert u reason = (case u of Some r \<Rightarrow> Some r | None \<Rightarrow> Some reason)"

fun plan_helper_columns ::
    "decoder \<Rightarrow> helpers \<times> unsupported \<Rightarrow> helper_mapping list \<Rightarrow> helpers \<times> unsupported" where
  "plan_helper_columns dec acc [] = acc"
| "plan_helper_columns dec (helpers, u) (helper # rest) =
     (case rd_field_index (dec_rd dec) (hp_alias helper) of
        None \<Rightarrow>
          plan_helper_columns dec
            (helpers, get_or_insert u (''aggregate'', ''missing helper column alias '' @ [CHR 39] @ hp_alias helper @ [CHR 39]))
            rest
      | Some index \<Rightarrow>
          (let key = (hp_expr_id helper, hp_distinct helper); entry = helper_entry helpers key;
               entry = (case hp_kind helper of
                  HelpCount \<Rightarrow> entry\<lparr>hc_count := Some index\<rparr>
                | HelpSum \<Rightarrow> entry\<lparr>hc_sum := Some index\<rparr>
                | HelpSumSquares \<Rightarrow> entry\<lparr>hc_sumsq := Some index\<rparr>)
           in plan_helper_columns dec (hm_insert key entry helpers, u) rest))"

definition target_supported :: "helpers \<Rightarrow> unsupported \<Rightarrow> aggregate_target \<Rightarrow> bool \<times> unsupported" where
  "target_supported helpers u target =
     (let columns = hm_get helpers (tgt_expr_id target, tgt_distinct target) in
      if tgt_function target = AggAvg then (Option.bind columns hc_count \<noteq> None, u)
      else if is_variance (tgt_function target) then
        (if tgt_distinct target
         then (False, get_or_insert u (function_as_str (tgt_function target), ''DISTINCT is not supported''))
         else case columns of
           Some c \<Rightarrow> (hc_count c \<noteq> None \<and> hc_sum c \<noteq> None \<and> hc_sumsq c \<noteq> None, u)
         | None \<Rightarrow> (False, get_or_insert u (function_as_str (tgt_function target), ''missing helper columns'')))
      else (True, u))"

fun all_supported :: "helpers \<Rightarrow> unsupported \<Rightarrow> aggregate_target list \<Rightarrow> bool \<times> unsupported" where
  "all_supported helpers u [] = (True, u)"
| "all_supported helpers u (target # targets) =
     (case target_supported helpers u target of
        (ok, u) \<Rightarrow> if ok then all_supported helpers u targets else (False, u))"

record aggregates =
  ags_rows :: "data_row list"
  ags_decoder :: decoder
  ags_aggregate :: aggregate
  ags_helper_columns :: helpers
  ags_merge_supported :: bool
  ags_unsupported :: unsupported

definition aggregates_new :: "data_row list \<Rightarrow> decoder \<Rightarrow> aggregate \<Rightarrow> rewrite_plan \<Rightarrow> aggregates" where
  "aggregates_new rows dec a plan =
     (case plan_helper_columns dec (target_helpers [] (agg_targets a), None) (plan_helpers plan) of (helpers, u) \<Rightarrow>
      case all_supported helpers u (agg_targets a) of (ok, u) \<Rightarrow>
        \<lparr>ags_rows = rows, ags_decoder = dec, ags_aggregate = a, ags_helper_columns = helpers,
         ags_merge_supported = ok, ags_unsupported = u\<rparr>)"

text \<open>One row into the accumulators of its group: \<open>None\<close> where a function turns out not to be supported.\<close>

fun accumulate_all ::
    "'o type_ops \<Rightarrow> 'o accumulator list \<Rightarrow> data_row \<Rightarrow> decoder \<Rightarrow> rows_error + 'o accumulator list option" where
  "accumulate_all ops [] row dec = Inr (Some [])"
| "accumulate_all ops (acc # accs) row dec =
     and_then (accumulate ops acc row dec) (\<lambda>(ok, acc).
       if \<not> ok then Inr None
       else and_then (accumulate_all ops accs row dec) (\<lambda>r. Inr (map_option (\<lambda>accs. acc # accs) r)))"

type_synonym 'o mappings = "('o grouping, 'o accumulator list) hmap"

fun group_rows :: "'o type_ops \<Rightarrow> aggregates \<Rightarrow> 'o mappings \<Rightarrow> data_row list \<Rightarrow> rows_error + 'o mappings option" where
  "group_rows ops s m [] = Inr (Some m)"
| "group_rows ops s m (row # rows) =
     and_then (grouping_new ops row (agg_group_by (ags_aggregate s)) (ags_decoder s)) (\<lambda>g.
     let entry = (case hm_get m g of Some accs \<Rightarrow> accs
                  | None \<Rightarrow> from_aggregate (ags_aggregate s) (ags_helper_columns s)) in
     and_then (accumulate_all ops entry row (ags_decoder s)) (\<lambda>r.
       case r of
         None \<Rightarrow> Inr None
       | Some accs \<Rightarrow> group_rows ops s (hm_insert g accs m) rows))"

fun insert_grouping :: "'o type_ops \<Rightarrow> decoder \<Rightarrow> data_row \<Rightarrow> 'o grouping \<Rightarrow> rows_error + data_row" where
  "insert_grouping ops dec row [] = Inr row"
| "insert_grouping ops dec row ((idx, d) # columns) =
     and_then (typed (datum_encode ops d (decoder_format dec idx))) (\<lambda>bs.
       insert_grouping ops dec (dr_insert row idx bs (datum_is_null d)) columns)"

fun insert_accumulators ::
    "'o type_ops \<Rightarrow> decoder \<Rightarrow> data_row \<Rightarrow> 'o accumulator list \<Rightarrow> rows_error + data_row option" where
  "insert_accumulators ops dec row [] = Inr (Some row)"
| "insert_accumulators ops dec row (acc # accs) =
     (case acc_finalize ops acc of (ok, acc) \<Rightarrow>
      if \<not> ok then Inr None
      else let column = tgt_column (acc_target acc) in
        and_then (typed (datum_encode ops (acc_datum acc) (decoder_format dec column))) (\<lambda>bs.
          insert_accumulators ops dec (dr_insert row column bs (datum_is_null (acc_datum acc))) accs))"

fun result_rows ::
    "'o type_ops \<Rightarrow> decoder \<Rightarrow> ('o grouping \<times> 'o accumulator list) list \<Rightarrow> rows_error + data_row list option" where
  "result_rows ops dec [] = Inr (Some [])"
| "result_rows ops dec ((g, accs) # m) =
     and_then (insert_grouping ops dec [] g) (\<lambda>row.
     and_then (insert_accumulators ops dec row accs) (\<lambda>r.
       case r of
         None \<Rightarrow> Inr None
       | Some row \<Rightarrow> and_then (result_rows ops dec m) (\<lambda>rows. Inr (map_option (\<lambda>rows. row # rows) rows))))"

text \<open>\<^verbatim>\<open>Aggregates::aggregate\<close>. The order in which the hash map of the groups is iterated is the parameter \<open>iter\<close>.\<close>

definition give_up :: "aggregates \<Rightarrow> rows_error + data_row list" where
  "give_up s =
     (case ags_unsupported s of
        Some (f, reason) \<Rightarrow> Inl (UnsupportedAggregation f reason)
      | None \<Rightarrow> Inr (ags_rows s))"

definition aggregates_aggregate ::
    "'o type_ops \<Rightarrow> ('o mappings \<Rightarrow> 'o mappings) \<Rightarrow> aggregates \<Rightarrow> rows_error + data_row list" where
  "aggregates_aggregate ops iter s =
     (if \<not> ags_merge_supported s then give_up s
      else and_then (group_rows ops s [] (ags_rows s)) (\<lambda>m.
        case m of
          None \<Rightarrow> give_up s
        | Some m \<Rightarrow>
            and_then (result_rows ops (ags_decoder s) (iter m)) (\<lambda>rows.
              case rows of None \<Rightarrow> give_up s | Some rows \<Rightarrow> Inr rows)))"

section \<open>What a merge computes\<close>

definition merge_values :: "'o type_ops \<Rightarrow> aggregate_function \<Rightarrow> 'o datum list \<Rightarrow> 'o datum" where
  "merge_values ops f values = foldl (merge_value ops f) DNull values"

definition simple_target :: "aggregate_target \<Rightarrow> bool" where
  "simple_target t \<longleftrightarrow> tgt_function t \<in> {AggCount, AggMax, AggMin, AggSum}"

definition simple_acc :: "aggregate_target \<Rightarrow> 'o datum \<Rightarrow> 'o accumulator" where
  "simple_acc t d = \<lparr>acc_target = t, acc_datum = d, acc_avg = None, acc_variance = None\<rparr>"

lemma acc_new_simple: "simple_target t \<Longrightarrow> acc_new helpers t = simple_acc t DNull"
  by (auto simp: acc_new_def simple_acc_def simple_target_def is_variance_def Let_def)

lemma accumulate_simple:
  assumes "simple_target t" "required_column ops row (tgt_column t) dec = Inr v"
  shows "accumulate ops (simple_acc t d) row dec = Inr (True, simple_acc t (merge_value ops (tgt_function t) d v))"
  using assms by (auto simp: accumulate_def simple_acc_def simple_target_def is_variance_def Let_def)

lemma accumulate_all_simple:
  "list_all simple_target ts \<Longrightarrow> (\<And>t. t \<in> set ts \<Longrightarrow> required_column ops row (tgt_column t) dec = Inr (val t)) \<Longrightarrow>
   accumulate_all ops (map (\<lambda>t. simple_acc t (d t)) ts) row dec =
     Inr (Some (map (\<lambda>t. simple_acc t (merge_value ops (tgt_function t) (d t) (val t))) ts))"
  by (induction ts) (simp_all add: accumulate_simple)

text \<open>The accumulators of a group after the rows \<open>seen\<close>.\<close>

definition group_accs ::
    "'o type_ops \<Rightarrow> aggregate_target list \<Rightarrow> (data_row \<Rightarrow> 'o grouping) \<Rightarrow> (aggregate_target \<Rightarrow> data_row \<Rightarrow> 'o datum) \<Rightarrow>
     data_row list \<Rightarrow> 'o grouping \<Rightarrow> 'o accumulator list" where
  "group_accs ops ts grp val seen g =
     map (\<lambda>t. simple_acc t (merge_values ops (tgt_function t) (map (val t) (filter (\<lambda>r. grp r = g) seen)))) ts"

lemma group_accs_new:
  "list_all simple_target ts \<Longrightarrow> g \<notin> grp ` set seen \<Longrightarrow> group_accs ops ts grp val seen g = map (acc_new helpers) ts"
proof -
  assume "g \<notin> grp ` set seen"
  then have "filter (\<lambda>r. grp r = g) seen = []" by (auto simp: filter_empty_conv)
  moreover assume "list_all simple_target ts"
  ultimately show ?thesis by (simp add: group_accs_def merge_values_def list_all_iff acc_new_simple)
qed

lemma group_accs_snoc:
  "group_accs ops ts grp val (seen @ [row]) g =
     (if grp row = g
      then map (\<lambda>t. simple_acc t (merge_value ops (tgt_function t)
              (merge_values ops (tgt_function t) (map (val t) (filter (\<lambda>r. grp r = g) seen))) (val t row))) ts
      else group_accs ops ts grp val seen g)"
  by (simp add: group_accs_def merge_values_def)

lemma group_rows_simple:
  assumes "list_all simple_target (agg_targets (ags_aggregate s))"
    and "\<And>row. row \<in> set rows \<Longrightarrow> grouping_new ops row (agg_group_by (ags_aggregate s)) (ags_decoder s) = Inr (grp row)"
    and "\<And>row t. row \<in> set rows \<Longrightarrow> t \<in> set (agg_targets (ags_aggregate s)) \<Longrightarrow>
           required_column ops row (tgt_column t) (ags_decoder s) = Inr (val t row)"
    and "hm_ok m"
    and "\<And>g. hm_get m g = (if g \<in> grp ` set seen
           then Some (group_accs ops (agg_targets (ags_aggregate s)) grp val seen g) else None)"
  shows "\<exists>m'. group_rows ops s m rows = Inr (Some m') \<and> hm_ok m'
    \<and> (\<forall>g. hm_get m' g = (if g \<in> grp ` set (seen @ rows)
           then Some (group_accs ops (agg_targets (ags_aggregate s)) grp val (seen @ rows) g) else None))"
  using assms
proof (induction rows arbitrary: m seen)
  case (Cons row rows)
  let ?ts = "agg_targets (ags_aggregate s)"
  define accs where "accs = group_accs ops ?ts grp val (seen @ [row]) (grp row)"
  have entry: "(case hm_get m (grp row) of Some accs \<Rightarrow> accs
      | None \<Rightarrow> from_aggregate (ags_aggregate s) (ags_helper_columns s)) = group_accs ops ?ts grp val seen (grp row)"
    using Cons.prems(5) [of "grp row"] group_accs_new [OF Cons.prems(1), of "grp row" grp seen ops val "ags_helper_columns s"]
    by (simp add: from_aggregate_def)
  have step: "accumulate_all ops (group_accs ops ?ts grp val seen (grp row)) row (ags_decoder s) = Inr (Some accs)"
    unfolding accs_def group_accs_snoc unfolding group_accs_def
    using accumulate_all_simple [OF Cons.prems(1), of ops row "ags_decoder s" "\<lambda>t. val t row"] Cons.prems(3) by simp
  have "\<exists>m'. group_rows ops s (hm_insert (grp row) accs m) rows = Inr (Some m') \<and> hm_ok m'
    \<and> (\<forall>g. hm_get m' g = (if g \<in> grp ` set ((seen @ [row]) @ rows)
           then Some (group_accs ops ?ts grp val ((seen @ [row]) @ rows) g) else None))"
  proof (rule Cons.IH)
    show "hm_get (hm_insert (grp row) accs m) g = (if g \<in> grp ` set (seen @ [row])
           then Some (group_accs ops ?ts grp val (seen @ [row]) g) else None)" for g
      using Cons.prems(5) [of g] by (auto simp: accs_def group_accs_snoc)
  qed (use Cons.prems in simp_all)
  then show ?case using Cons.prems(2) [of row] by (simp add: entry step cong: if_cong)
qed simp

text \<open>The row of a group: its columns and the merged values, each in the format of its column.\<close>

definition encoded :: "'o type_ops \<Rightarrow> 'o datum \<Rightarrow> format \<Rightarrow> bytes" where
  "encoded ops d fmt = (case datum_encode ops d fmt of Inr bs \<Rightarrow> bs | Inl _ \<Rightarrow> [])"

definition merged_row :: "'o type_ops \<Rightarrow> decoder \<Rightarrow> data_row \<Rightarrow> (nat \<times> 'o datum) list \<Rightarrow> data_row" where
  "merged_row ops dec row cells =
     foldl (\<lambda>row (idx, d). dr_insert row idx (encoded ops d (decoder_format dec idx)) (datum_is_null d)) row cells"

definition encodes_all :: "'o type_ops \<Rightarrow> bool" where
  "encodes_all ops \<longleftrightarrow> (\<forall>k v fmt. \<exists>bs. o_encode ops k v fmt = Inr bs)"

lemma typed_encode: "encodes_all ops \<Longrightarrow> typed (datum_encode ops d fmt) = Inr (encoded ops d fmt)"
proof -
  assume "encodes_all ops"
  then have "\<exists>bs. datum_encode ops d fmt = Inr bs" by (cases d) (auto simp: encodes_all_def datum_encode_def)
  then show ?thesis by (auto simp: encoded_def typed_def)
qed

lemma insert_grouping_row: "encodes_all ops \<Longrightarrow> insert_grouping ops dec row g = Inr (merged_row ops dec row g)"
  by (induction ops dec row g rule: insert_grouping.induct) (simp_all add: typed_encode merged_row_def)

lemma insert_accumulators_row:
  "encodes_all ops \<Longrightarrow>
   insert_accumulators ops dec row (map (\<lambda>t. simple_acc t (d t)) ts)
   = Inr (Some (merged_row ops dec row (map (\<lambda>t. (tgt_column t, d t)) ts)))"
  by (induction ts arbitrary: row) (simp_all add: typed_encode merged_row_def acc_finalize_def simple_acc_def Let_def)

text \<open>The row a group of partial results is merged into.\<close>

definition group_row ::
    "'o type_ops \<Rightarrow> decoder \<Rightarrow> aggregate_target list \<Rightarrow> (data_row \<Rightarrow> 'o grouping) \<Rightarrow>
     (aggregate_target \<Rightarrow> data_row \<Rightarrow> 'o datum) \<Rightarrow> data_row list \<Rightarrow> 'o grouping \<Rightarrow> data_row" where
  "group_row ops dec ts grp val rows g =
     merged_row ops dec []
       (g @ map (\<lambda>t. (tgt_column t, merge_values ops (tgt_function t) (map (val t) (filter (\<lambda>r. grp r = g) rows)))) ts)"

lemma result_rows_groups:
  assumes "encodes_all ops" "\<And>g accs. (g, accs) \<in> set m \<Longrightarrow> accs = group_accs ops ts grp val rows g"
  shows "result_rows ops dec m = Inr (Some (map (\<lambda>(g, _). group_row ops dec ts grp val rows g) m))"
  using assms(2)
proof (induction m)
  case (Cons p m)
  obtain g accs where p: "p = (g, accs)" by (cases p)
  with Cons.prems have accs: "accs = group_accs ops ts grp val rows g" by simp
  have "merged_row ops dec (merged_row ops dec row g) cells = merged_row ops dec row (g @ cells)" for row cells
    by (simp add: merged_row_def)
  then have "insert_accumulators ops dec (merged_row ops dec [] g) accs = Inr (Some (group_row ops dec ts grp val rows g))"
    using insert_accumulators_row [OF assms(1)] by (simp add: accs group_accs_def group_row_def)
  then show ?case using Cons p by (simp add: insert_grouping_row [OF assms(1)])
qed simp

lemma plain_aggregates:
  assumes "list_all simple_target (agg_targets a)" "plan_helpers plan = []"
  shows "ags_merge_supported (aggregates_new rows dec a plan)"
    and "ags_rows (aggregates_new rows dec a plan) = rows" "ags_decoder (aggregates_new rows dec a plan) = dec"
    and "ags_aggregate (aggregates_new rows dec a plan) = a"
proof -
  have "list_all simple_target ts \<Longrightarrow> all_supported helpers u ts = (True, u)" for ts helpers u
    by (induction ts) (auto simp: target_supported_def simple_target_def is_variance_def)
  with assms(1) have "all_supported helpers u (agg_targets a) = (True, u)" for helpers u by simp
  then show "ags_merge_supported (aggregates_new rows dec a plan)"
    and "ags_rows (aggregates_new rows dec a plan) = rows" "ags_decoder (aggregates_new rows dec a plan) = dec"
    and "ags_aggregate (aggregates_new rows dec a plan) = a"
    by (simp_all add: aggregates_new_def assms(2))
qed

text \<open>The iteration over a hash map visits every entry once, in an order that is not known.\<close>

definition permutes :: "('a list \<Rightarrow> 'a list) \<Rightarrow> bool" where
  "permutes iter \<longleftrightarrow> (\<forall>m. mset (iter m) = mset m)"

lemma keys_mset: "hm_ok m \<Longrightarrow> mset (map fst m) = mset_set (dom (hm_get m))"
  using mset_set_set [of "map fst m"] by (simp add: hm_ok_def hm_get_map_of dom_map_of_conv_image_fst)


text \<open>Partial counts and sums add up modulo the width of the result.\<close>

fun bigint_of :: "'o datum \<Rightarrow> int" where
  "bigint_of (DBigint i) = i"
| "bigint_of _ = 0"

definition bigint_or_null :: "'o datum \<Rightarrow> bool" where
  "bigint_or_null d \<longleftrightarrow> d = DNull \<or> (\<exists>i. d = DBigint i \<and> - (2 ^ 63) \<le> i \<and> i < 2 ^ 63)"

lemma wrap_fits: "- (2 ^ 63) \<le> i \<Longrightarrow> i < 2 ^ 63 \<Longrightarrow> wrap 64 i = i"
  using to_signed_of_signed [of 64 i] by (simp add: wrap_def)

lemma wrap_mod: "wrap w i mod 2 ^ w = i mod 2 ^ w"
  by (simp add: wrap_def to_signed_def of_signed_def)

lemma wrap_cong: "i mod 2 ^ w = j mod 2 ^ w \<Longrightarrow> wrap w i = wrap w j"
  by (simp add: wrap_def of_signed_def)

lemma wrap_add: "wrap w (wrap w i + j) = wrap w (i + j)"
  by (rule wrap_cong) (metis wrap_mod mod_add_left_eq)

lemma merge_values_snoc: "merge_values ops f (vs @ [v]) = merge_value ops f (merge_values ops f vs) v"
  by (simp add: merge_values_def)

lemma merge_sum:
  assumes "f = AggCount \<or> f = AggSum" "list_all bigint_or_null vs"
  shows "merge_values ops f vs
    = (if list_all (\<lambda>v. v = DNull) vs then DNull else DBigint (wrap 64 (sum_list (map bigint_of vs))))"
  using assms(2)
proof (induction vs rule: rev_induct)
  case Nil
  then show ?case by (simp add: merge_values_def)
next
  case (snoc v vs)
  then have v: "v = DNull \<or> (\<exists>i. v = DBigint i \<and> wrap 64 i = i)"
    by (auto simp: bigint_or_null_def wrap_fits)
  have zero: "sum_list (map bigint_of vs) = 0" if "list_all (\<lambda>v. v = DNull) vs"
    using that by (induction vs) simp_all
  show ?case
    using snoc v assms(1) zero
    by (auto simp: merge_values_snoc merge_value_def datum_is_null_def datum_add_def wrap_add)
qed

text \<open>A minimum is kept through nulls, because a null compares greater than every value but a boolean.\<close>

lemma merge_min:
  assumes "ops_ordered ops" "\<And>v. v \<in> set vs \<Longrightarrow> v = DNull \<or> variant_index v < 15"
  shows "if list_all (\<lambda>v. v = DNull) vs then merge_values ops AggMin vs = DNull
    else merge_values ops AggMin vs \<in> set vs \<and> merge_values ops AggMin vs \<noteq> DNull
      \<and> (\<forall>v\<in>set vs. datum_cmp ops (merge_values ops AggMin vs) v \<noteq> Greater)"
  using assms(2)
proof (induction vs rule: rev_induct)
  case Nil
  then show ?case by (simp add: merge_values_def)
next
  case (snoc v vs)
  note order = datum_cmp_order [OF assms(1)]
  let ?r = "merge_values ops AggMin vs" and ?s = "merge_values ops AggMin (vs @ [v])"
  have null: "datum_cmp ops u DNull = Less" if "variant_index u < 15" for u
    using that by (simp add: datum_cmp_variant cmp_def)
  have self: "datum_cmp ops u u = Equal" for u by (rule ord_contract.self_equal [OF order]) simp
  show ?case
  proof (cases "list_all (\<lambda>v. v = DNull) vs")
    case True
    with snoc have "?s = v" by (simp add: merge_values_snoc merge_value_def datum_is_null_def)
    moreover have "datum_cmp ops v u \<noteq> Greater" if "u \<in> set vs" "v \<noteq> DNull" for u
    proof -
      have "u = DNull" using True that(1) by (simp add: list_all_iff)
      then show ?thesis using snoc.prems [of v] null [of v] that(2) by simp
    qed
    ultimately show ?thesis using self [of v] True by auto
  next
    case False
    with snoc have r: "?r \<in> set vs" "?r \<noteq> DNull" "\<And>u. u \<in> set vs \<Longrightarrow> datum_cmp ops ?r u \<noteq> Greater" by auto
    with snoc.prems [of ?r] have less: "datum_cmp ops ?r DNull = Less" by (auto simp: null)
    have s: "?s = (if datum_cmp ops ?r v = Greater then v else ?r)"
      using r(2) by (simp add: merge_values_snoc merge_value_def datum_is_null_def split: datum.splits)
    show ?thesis
    proof (cases "datum_cmp ops ?r v = Greater")
      case True
      then have "datum_cmp ops v ?r = Less" using ord_contract.greater_flip [OF order] by simp
      then have "datum_cmp ops v u \<noteq> Greater" if "u \<in> set vs" for u
        using ord_contract.le_trans [OF order, of v ?r u] r(3) [OF that] by simp
      with True False less s self [of v] show ?thesis by auto
    next
      case False': False
      with False s r show ?thesis by auto
    qed
  qed
qed

lemma merge_max:
  assumes "ops_ordered ops" "DNull \<notin> set vs" "vs \<noteq> []"
  shows "merge_values ops AggMax vs \<in> set vs \<and> (\<forall>v\<in>set vs. datum_cmp ops (merge_values ops AggMax vs) v \<noteq> Less)"
  using assms(3,2)
proof (induction vs rule: rev_nonempty_induct)
  case (single v)
  have "datum_cmp ops v v = Equal" using ord_contract.self_equal [OF datum_cmp_order [OF assms(1)]] by simp
  then show ?case by (simp add: merge_values_def merge_value_def datum_is_null_def)
next
  case (snoc v vs)
  note order = datum_cmp_order [OF assms(1)]
  let ?r = "merge_values ops AggMax vs" and ?s = "merge_values ops AggMax (vs @ [v])"
  from snoc have r: "?r \<in> set vs" "\<And>u. u \<in> set vs \<Longrightarrow> datum_cmp ops ?r u \<noteq> Less" by auto
  with snoc.prems have "?r \<noteq> DNull" by auto
  then have s: "?s = (if datum_cmp ops ?r v = Less then v else ?r)"
    by (simp add: merge_values_snoc merge_value_def datum_is_null_def split: datum.splits)
  have "datum_cmp ops v u \<noteq> Less" if "u \<in> set vs" "datum_cmp ops ?r v = Less" for u
  proof -
    have "datum_cmp ops u ?r \<noteq> Greater" using r(2) [OF that(1)] datum_cmp_flip [OF assms(1), of u ?r] by simp
    then have "datum_cmp ops u v \<noteq> Greater" using ord_contract.le_trans [OF order, of u ?r v] that(2) by simp
    then show ?thesis using datum_cmp_flip [OF assms(1), of v u] by simp
  qed
  moreover have "datum_cmp ops v v = Equal" using ord_contract.self_equal [OF order] by simp
  ultimately show ?case using s r by auto
qed


text \<open>A model in which no column has a type that is a parameter.\<close>

definition plain_ops :: "unit type_ops" where
  "plain_ops =
     \<lparr>o_decode = (\<lambda>_ _ _. Inl TyOtherError), o_encode = (\<lambda>_ _ _. Inr []), o_cmp = (\<lambda>_ _ _. Equal), o_add = (\<lambda>_ _ _. ()),
      o_mul = (\<lambda>_ _ _. None), o_div = (\<lambda>_ _ _. None), o_variance = (\<lambda>_ _ _ _ _ _. None),
      o_distance_cmp = (\<lambda>_ _ _. None)\<rparr>"

lemma plain_ops_ok: "ops_ordered plain_ops" "encodes_all plain_ops"
  by (simp_all add: plain_ops_def ops_ordered_def encodes_all_def ord_contract_equal)


text \<open>The columns of a query that counts the rows of each name.\<close>

definition demo_decoder :: decoder where
  "demo_decoder = decoder_row_description decoder_new \<lparr>rd_fields = [field_text ''name'', field_bigint ''count'']\<rparr>"

definition demo_rows :: "data_row list" where
  "demo_rows = [[data_of ''a'', data_of ''2''], [data_of ''b'', data_of ''1''], [data_of ''a'', data_of ''3'']]"

definition demo_count :: aggregate_target where
  "demo_count = \<lparr>tgt_column = 1, tgt_function = AggCount, tgt_expr_id = 0, tgt_distinct = False\<rparr>"

definition demo_group :: "data_row \<Rightarrow> unit grouping" where
  "demo_group row = [(0, DText (data_bytes (row ! 0)))]"

definition demo_value :: "aggregate_target \<Rightarrow> data_row \<Rightarrow> unit datum" where
  "demo_value t row = DBigint (case parse_i64 (data_bytes (row ! 1)) of Some i \<Rightarrow> i | None \<Rightarrow> 0)"

lemmas demo_defs =
  demo_decoder_def decoder_row_description_def demo_group_def demo_value_def
  dr_get_column_def rd_field_def data_of_def field_data_type_def from_oid_def decoder_format_def field_format_def
  datum_new_def typed_def

lemma demo_digits:
  "parse_i64 ''1'' = Some 1" "parse_i64 ''2'' = Some 2" "parse_i64 ''3'' = Some 3" "parse_i64 ''7'' = Some 7"
  "show_int 5 = ''5''" "show_int 1 = ''1''" "show_int 7 = ''7''"
  by code_simp+

lemma demo_reads:
  "row \<in> set demo_rows \<Longrightarrow> grouping_new plain_ops row [0] demo_decoder = Inr (demo_group row)"
  "row \<in> set demo_rows \<Longrightarrow> required_column plain_ops row 1 demo_decoder = Inr (demo_value t row)"
  by (auto simp: demo_rows_def demo_defs demo_digits string_decode_def required_column_def i64_decode_def int_text_def Let_def)


definition max_query :: aggregate where
  "max_query =
     \<lparr>agg_targets = [\<lparr>tgt_column = 0, tgt_function = AggMax, tgt_expr_id = 0, tgt_distinct = False\<rparr>], agg_group_by = []\<rparr>"

definition max_decoder :: decoder where
  "max_decoder = decoder_row_description decoder_new \<lparr>rd_fields = [field_bigint ''max'']\<rparr>"


end
