(* ===== verification/RowBuffer.thy ===== *)
theory RowBuffer
  imports Aggregates "HOL-Library.Sublist"
begin

text \<open>
  \<^verbatim>\<open>pgdog/src/backend/pool/connection/buffer.rs\<close>: the rows of several shards are kept until all shards have answered, then
  aggregated, sorted, made distinct and cut to the requested page. The clauses come from the router
  (\<^verbatim>\<open>order_by.rs\<close>, \<^verbatim>\<open>distinct.rs\<close> and \<^verbatim>\<open>limit.rs\<close> in \<^verbatim>\<open>frontend/router/parser\<close>).
\<close>

section \<open>Clauses\<close>

datatype 'o order_by =
    OAsc nat
  | ODesc nat
  | OAscColumn string
  | ODescColumn string
  | OAscVectorL2Column string 'o
  | OAscVectorL2 nat 'o

fun order_asc :: "'o order_by \<Rightarrow> bool" where
  "order_asc (OAsc _) = True"
| "order_asc (OAscColumn _) = True"
| "order_asc (OAscVectorL2Column _ _) = True"
| "order_asc (OAscVectorL2 _ _) = True"
| "order_asc _ = False"

text \<open>Columns are numbered from one; the subtraction wraps at zero.\<close>

definition before :: "nat \<Rightarrow> nat" where
  "before column = (if column = 0 then 2 ^ 64 - 1 else column - 1)"

fun order_index :: "'o order_by \<Rightarrow> nat option" where
  "order_index (OAsc column) = Some (before column)"
| "order_index (ODesc column) = Some (before column)"
| "order_index (OAscVectorL2 column _) = Some (before column)"
| "order_index _ = None"

datatype distinct_column = DistinctName string | DistinctIndex nat

datatype distinct_by = DistinctRow | DistinctColumns "distinct_column list"

record limit =
  lim_limit :: "nat option"
  lim_offset :: "nat option"

section \<open>The buffer\<close>

record buffer =
  buf_rows :: "data_row list"
  buf_full :: bool
  buf_distinct :: "data_row set"

definition buffer_default :: buffer where
  "buffer_default = \<lparr>buf_rows = [], buf_full = False, buf_distinct = {}\<rparr>"

definition buffer_add :: "buffer \<Rightarrow> message \<Rightarrow> net_error + buffer" where
  "buffer_add b m = and_then (dr_from_bytes (payload m)) (\<lambda>dr. Inr (b\<lparr>buf_rows := buf_rows b @ [dr]\<rparr>))"

definition buffer_full :: "buffer \<Rightarrow> buffer" where
  "buffer_full b = b\<lparr>buf_full := True\<rparr>"

definition buffer_reset :: "buffer \<Rightarrow> buffer" where
  "buffer_reset b = b\<lparr>buf_rows := [], buf_full := False\<rparr>"

definition buffer_len :: "buffer \<Rightarrow> nat" where
  "buffer_len b = length (buf_rows b)"

definition buffer_is_empty :: "buffer \<Rightarrow> bool" where
  "buffer_is_empty b \<longleftrightarrow> buffer_len b = 0"

text \<open>Sorting: the names of columns are resolved first, and a name that is not a column is ignored.\<close>

fun resolve_columns :: "decoder \<Rightarrow> 'o order_by list \<Rightarrow> 'o order_by list" where
  "resolve_columns dec [] = []"
| "resolve_columns dec (column # columns) =
     (case column of
        OAscColumn name \<Rightarrow>
          (case rd_field_index (dec_rd dec) name of Some index \<Rightarrow> [OAsc (index + 1)] | None \<Rightarrow> [])
      | ODescColumn name \<Rightarrow>
          (case rd_field_index (dec_rd dec) name of Some index \<Rightarrow> [ODesc (index + 1)] | None \<Rightarrow> [])
      | OAscVectorL2Column name vector \<Rightarrow>
          (case rd_field_index (dec_rd dec) name of Some index \<Rightarrow> [OAscVectorL2 (index + 1) vector] | None \<Rightarrow> [])
      | _ \<Rightarrow> [column]) @ resolve_columns dec columns"

text \<open>\<^verbatim>\<open>TryFrom<Datum> for Vector\<close>.\<close>

definition to_vector :: "'o type_ops \<Rightarrow> 'o datum \<Rightarrow> 'o option" where
  "to_vector ops d =
     (case d of
        DOther k v \<Rightarrow> if k = KVector then Some v else None
      | DUnknown bs \<Rightarrow> (case o_decode ops DtVector bs Text of Inr v \<Rightarrow> Some v | Inl _ \<Rightarrow> None)
      | _ \<Rightarrow> None)"

definition column_cmp ::
    "'o type_ops \<Rightarrow> decoder \<Rightarrow> 'o order_by \<Rightarrow> nat \<Rightarrow> data_row \<Rightarrow> data_row \<Rightarrow> ordering option" where
  "column_cmp ops dec col index a b =
     (case (dr_get_column ops a index dec, dr_get_column ops b index dec) of
        (Inr (Some left), Inr (Some right)) \<Rightarrow>
          (case col of
             OAscVectorL2 _ vector \<Rightarrow>
               (case (to_vector ops left, to_vector ops right) of
                  (Some left, Some right) \<Rightarrow> o_distance_cmp ops left right vector
                | _ \<Rightarrow> Some Equal)
           | _ \<Rightarrow> Some (if order_asc col then datum_cmp ops left right else datum_cmp ops right left))
      | _ \<Rightarrow> Some Equal)"

fun row_cmp :: "'o type_ops \<Rightarrow> decoder \<Rightarrow> 'o order_by list \<Rightarrow> data_row \<Rightarrow> data_row \<Rightarrow> ordering" where
  "row_cmp ops dec [] a b = Equal"
| "row_cmp ops dec (col # cols) a b =
     (case order_index col of
        None \<Rightarrow> row_cmp ops dec cols a b
      | Some index \<Rightarrow>
          let ordering = column_cmp ops dec col index a b in
          if ordering \<noteq> Some Equal then (case ordering of Some r \<Rightarrow> r | None \<Rightarrow> Equal)
          else row_cmp ops dec cols a b)"

definition buffer_sort :: "'o type_ops \<Rightarrow> buffer \<Rightarrow> 'o order_by list \<Rightarrow> decoder \<Rightarrow> buffer" where
  "buffer_sort ops b columns dec =
     b\<lparr>buf_rows := sort_by (row_cmp ops dec (resolve_columns dec columns)) (buf_rows b)\<rparr>"

definition drop_helper_columns :: "data_row list \<Rightarrow> rewrite_plan \<Rightarrow> data_row list" where
  "drop_helper_columns rows plan =
     (if plan_drop_columns plan = [] then rows
      else let dropped = remdups_adj (sort (plan_drop_columns plan)) in map (\<lambda>row. dr_drop_columns row dropped) rows)"

text \<open>The rows are taken out of the buffer first, so that an error leaves it empty.\<close>

definition buffer_aggregate ::
    "'o type_ops \<Rightarrow> ('o mappings \<Rightarrow> 'o mappings) \<Rightarrow> buffer \<Rightarrow> aggregate \<Rightarrow> decoder \<Rightarrow> rewrite_plan \<Rightarrow>
     (rows_error + unit) \<times> buffer" where
  "buffer_aggregate ops iter b a dec plan =
     (let rows =
        (if agg_is_empty a then Inr (buf_rows b)
         else and_then (aggregates_aggregate ops iter (aggregates_new (buf_rows b) dec a plan)) (\<lambda>r.
           Inr (if r = [] then buf_rows b else r)))
      in case rows of
           Inl e \<Rightarrow> (Inl e, b\<lparr>buf_rows := []\<rparr>)
         | Inr rows \<Rightarrow> (Inr (), b\<lparr>buf_rows := drop_helper_columns rows plan\<rparr>))"

fun distinct_key :: "decoder \<Rightarrow> data_row \<Rightarrow> distinct_column list \<Rightarrow> data_row" where
  "distinct_key dec row [] = []"
| "distinct_key dec row (col # cols) =
     (let index = (case col of DistinctIndex index \<Rightarrow> Some index | DistinctName name \<Rightarrow> rd_field_index (dec_rd dec) name) in
      case Option.bind index (dr_column row) of
        Some bs \<Rightarrow> data_of bs # distinct_key dec row cols
      | None \<Rightarrow> distinct_key dec row cols)"

fun retain_new :: "('a \<Rightarrow> 'k) \<Rightarrow> 'k set \<Rightarrow> 'a list \<Rightarrow> 'a list \<times> 'k set" where
  "retain_new key seen [] = ([], seen)"
| "retain_new key seen (row # rows) =
     (if key row \<in> seen then retain_new key seen rows
      else case retain_new key (insert (key row) seen) rows of (kept, seen) \<Rightarrow> (row # kept, seen))"

definition buffer_distinct :: "buffer \<Rightarrow> distinct_by option \<Rightarrow> decoder \<Rightarrow> buffer" where
  "buffer_distinct b d dec =
     (case d of
        None \<Rightarrow> b
      | Some d \<Rightarrow>
          let key = (case d of DistinctRow \<Rightarrow> \<lambda>row. row | DistinctColumns columns \<Rightarrow> \<lambda>row. distinct_key dec row columns) in
          case retain_new key (buf_distinct b) (buf_rows b) of
            (kept, seen) \<Rightarrow> b\<lparr>buf_rows := kept, buf_distinct := seen\<rparr>)"

definition buffer_take :: "buffer \<Rightarrow> message option \<times> buffer" where
  "buffer_take b =
     (if buf_full b
      then (case buf_rows b of
              [] \<Rightarrow> (None, b)
            | row # rows \<Rightarrow> (Some (dr_message row), b\<lparr>buf_rows := rows\<rparr>))
      else (None, b))"

definition buffer_limit :: "buffer \<Rightarrow> limit \<Rightarrow> buffer" where
  "buffer_limit b l =
     (let offset = (case lim_offset l of Some offset \<Rightarrow> offset | None \<Rightarrow> 0);
          rows = drop (min offset (length (buf_rows b))) (buf_rows b)
      in b\<lparr>buf_rows := (case lim_limit l of Some n \<Rightarrow> take n rows | None \<Rightarrow> rows)\<rparr>)"

lemma buffer_limit_page:
  "buf_rows (buffer_limit b \<lparr>lim_limit = Some n, lim_offset = Some offset\<rparr>) = drop offset (take (offset + n) (buf_rows b))"
proof -
  have "drop (min offset (length (buf_rows b))) (buf_rows b) = drop offset (buf_rows b)" by (simp add: min_def)
  then show ?thesis unfolding buffer_limit_def by (simp add: drop_take)
qed

section \<open>Sorting\<close>

text \<open>Rows whose sort columns can be decoded, and sort clauses that do not measure distances between vectors.\<close>

definition plain_order :: "'o order_by \<Rightarrow> bool" where
  "plain_order col = (case col of OAscVectorL2 _ _ \<Rightarrow> False | OAscVectorL2Column _ _ \<Rightarrow> False | _ \<Rightarrow> True)"

definition sortable :: "'o type_ops \<Rightarrow> decoder \<Rightarrow> 'o order_by list \<Rightarrow> data_row set" where
  "sortable ops dec cols =
     {row. list_all (\<lambda>col. \<forall>i. order_index col = Some i \<longrightarrow> (\<exists>d. dr_get_column ops row i dec = Inr (Some d))) cols}"

lemma resolve_plain: "list_all plain_order cols \<Longrightarrow> list_all plain_order (resolve_columns dec cols)"
  by (induction cols) (auto simp: plain_order_def split: order_by.splits option.splits)

lemma column_cmp_plain:
  assumes "plain_order col" "dr_get_column ops a i dec = Inr (Some x)" "dr_get_column ops b i dec = Inr (Some y)"
  shows "column_cmp ops dec col i a b = Some (if order_asc col then datum_cmp ops x y else datum_cmp ops y x)"
  using assms by (cases col) (simp_all add: column_cmp_def plain_order_def)

text \<open>The value of a sort column.\<close>

definition cell :: "'o type_ops \<Rightarrow> decoder \<Rightarrow> nat \<Rightarrow> data_row \<Rightarrow> 'o datum" where
  "cell ops dec i row = (case dr_get_column ops row i dec of Inr (Some d) \<Rightarrow> d | _ \<Rightarrow> DNull)"

lemma row_cmp_Cons_plain:
  assumes "plain_order col" "a \<in> sortable ops dec (col # cols)" "b \<in> sortable ops dec (col # cols)" "order_index col = Some i"
  shows "row_cmp ops dec (col # cols) a b =
    (let r = (if order_asc col then datum_cmp ops (cell ops dec i a) (cell ops dec i b)
              else datum_cmp ops (cell ops dec i b) (cell ops dec i a))
     in if r \<noteq> Equal then r else row_cmp ops dec cols a b)"
proof -
  obtain x y where "dr_get_column ops a i dec = Inr (Some x)" "dr_get_column ops b i dec = Inr (Some y)"
    using assms(2-4) by (auto simp: sortable_def)
  with assms(1,4) show ?thesis by (simp add: column_cmp_plain cell_def Let_def)
qed

lemma row_cmp_order:
  assumes "ops_ordered ops"
  shows "list_all plain_order cols \<Longrightarrow> ord_contract (sortable ops dec cols) (row_cmp ops dec cols)"
proof (induction cols)
  case Nil
  show ?case by (rule ord_contract_cong [OF ord_contract_equal]) simp
next
  case (Cons col cols)
  let ?A = "sortable ops dec (col # cols)"
  have "?A \<subseteq> sortable ops dec cols" by (auto simp: sortable_def)
  with Cons have rest: "ord_contract ?A (row_cmp ops dec cols)" by (auto intro: ord_contract_subset)
  show ?case
  proof (cases "order_index col")
    case None
    then show ?thesis by (intro ord_contract_cong [OF rest]) simp
  next
    case (Some i)
    have base: "ord_contract ?A (\<lambda>a b. datum_cmp ops (cell ops dec i a) (cell ops dec i b))"
      by (rule ord_contract_pull [OF datum_cmp_order [OF assms]]) simp
    have "ord_contract ?A (\<lambda>a b. if order_asc col then datum_cmp ops (cell ops dec i a) (cell ops dec i b)
              else datum_cmp ops (cell ops dec i b) (cell ops dec i a))"
      using base ord_contract_reverse [OF base] by (cases "order_asc col") simp_all
    from ord_contract_lex [OF this rest] show ?thesis
      by (rule ord_contract_cong) (use Cons.prems Some in \<open>simp add: row_cmp_Cons_plain Let_def del: row_cmp.simps\<close>)
  qed
qed

text \<open>What ORDER BY asks for: the first column in which two rows differ decides, in its direction.\<close>

fun in_order :: "'o type_ops \<Rightarrow> decoder \<Rightarrow> 'o order_by list \<Rightarrow> data_row \<Rightarrow> data_row \<Rightarrow> bool" where
  "in_order ops dec [] r s = True"
| "in_order ops dec (col # cols) r s =
     (case order_index col of
        None \<Rightarrow> in_order ops dec cols r s
      | Some i \<Rightarrow>
          (case datum_cmp ops (cell ops dec i r) (cell ops dec i s) of
             Less \<Rightarrow> order_asc col
           | Greater \<Rightarrow> \<not> order_asc col
           | Equal \<Rightarrow> in_order ops dec cols r s))"

lemma row_cmp_in_order:
  assumes "ops_ordered ops"
  shows "list_all plain_order cols \<Longrightarrow> r \<in> sortable ops dec cols \<Longrightarrow> s \<in> sortable ops dec cols \<Longrightarrow>
    row_cmp ops dec cols r s \<noteq> Greater \<longleftrightarrow> in_order ops dec cols r s"
proof (induction cols)
  case (Cons col cols)
  then have rest: "row_cmp ops dec cols r s \<noteq> Greater \<longleftrightarrow> in_order ops dec cols r s" by (simp add: sortable_def)
  show ?case
  proof (cases "order_index col")
    case None
    with rest show ?thesis by simp
  next
    case (Some i)
    note flip = datum_cmp_flip [OF assms, of "cell ops dec i s" "cell ops dec i r"]
    have "plain_order col" using Cons.prems(1) by simp
    from row_cmp_Cons_plain [OF this Cons.prems(2,3) Some] Some rest flip show ?thesis
      by (cases "datum_cmp ops (cell ops dec i r) (cell ops dec i s)"; cases "order_asc col")
        (simp_all add: Let_def del: row_cmp.simps)
  qed
qed simp


text \<open>Rows with a number and a name, sorted by the number.\<close>

definition numbered :: "string \<Rightarrow> string \<Rightarrow> data_row" where
  "numbered i name = [data_of i, data_of name]"

definition numbered_decoder :: decoder where
  "numbered_decoder = decoder_row_description decoder_new \<lparr>rd_fields = [field_bigint ''id'', field_text ''name'']\<rparr>"

lemma numbered_cell:
  assumes "i \<in> {''1'', ''2'', ''3'', ''7''}"
  shows "\<exists>n. dr_get_column plain_ops (numbered i name) 0 numbered_decoder = Inr (Some (DBigint n))"
  using assms
  by (auto simp: numbered_decoder_def numbered_def demo_defs demo_digits string_decode_def i64_decode_def int_text_def Let_def)

lemma numbered_columns: "resolve_columns numbered_decoder [OAscColumn ''id''] = [OAsc (Suc 0)]"
  by (simp add: numbered_decoder_def decoder_row_description_def rd_field_index_def)

lemma numbered_sortable: "i \<in> {''1'', ''2'', ''3'', ''7''} \<Longrightarrow> numbered i name \<in> sortable plain_ops numbered_decoder [OAsc (Suc 0)]"
  using numbered_cell [of i name] by (auto simp: sortable_def before_def)




section \<open>Distinct rows\<close>

lemma retain_new_facts:
  "retain_new key seen rows = (kept, seen') \<Longrightarrow>
   seen' = seen \<union> key ` set rows \<and> subseq kept rows \<and> distinct (map key kept) \<and> key ` set kept = key ` set rows - seen"
proof (induction key seen rows arbitrary: kept seen' rule: retain_new.induct)
  case (2 key seen row rows)
  show ?case
  proof (cases "key row \<in> seen")
    case True
    with 2 show ?thesis by auto
  next
    case False
    then obtain kept0 where rest: "retain_new key (insert (key row) seen) rows = (kept0, seen')" "kept = row # kept0"
      using 2(3) by (auto split: prod.splits)
    from 2(2) [OF False rest(1)] rest(2) False show ?thesis by auto
  qed
qed simp

lemma retain_new_snd: "snd (retain_new key seen rows) = seen \<union> key ` set rows"
  using retain_new_facts [of key seen rows "fst (retain_new key seen rows)" "snd (retain_new key seen rows)"] by simp

text \<open>The values a row is compared by.\<close>

definition distinct_values :: "decoder \<Rightarrow> distinct_by \<Rightarrow> data_row \<Rightarrow> data_row" where
  "distinct_values dec d row = (case d of DistinctRow \<Rightarrow> row | DistinctColumns columns \<Rightarrow> distinct_key dec row columns)"

lemma buffer_distinct_retains:
  "buffer_distinct b (Some d) dec =
     (case retain_new (distinct_values dec d) (buf_distinct b) (buf_rows b) of
        (kept, seen) \<Rightarrow> b\<lparr>buf_rows := kept, buf_distinct := seen\<rparr>)"
proof -
  have "(case d of DistinctRow \<Rightarrow> \<lambda>row. row | DistinctColumns columns \<Rightarrow> \<lambda>row. distinct_key dec row columns)
      = distinct_values dec d"
    by (cases d) (simp_all add: distinct_values_def fun_eq_iff)
  then show ?thesis by (simp add: buffer_distinct_def Let_def)
qed

lemma retain_new_seen: "key ` set rows \<subseteq> seen \<Longrightarrow> retain_new key seen rows = ([], seen)"
  by (induction rows) auto

end
