(* ===== verification/Route.thy ===== *)
theory Route
  imports RowBuffer
begin

text \<open>
  \<^verbatim>\<open>pgdog/src/frontend/router/parser/route.rs\<close>: where a statement goes, the sources such a decision can come from with
  their priorities, and the route the router hands to the connection. The order on these types is the one that
  \<^verbatim>\<open>#[derive(PartialOrd, Ord)]\<close> gives: the variants in the order of their declaration, then their contents.
\<close>

section \<open>Shards\<close>

datatype shard = ShDirect nat | ShMulti "nat list" | ShAll

fun shard_rank :: "shard \<Rightarrow> nat \<times> nat list" where
  "shard_rank (ShDirect n) = (0, [n])"
| "shard_rank (ShMulti ns) = (1, ns)"
| "shard_rank ShAll = (2, [])"

lemma shard_rank_inject: "shard_rank a = shard_rank b \<Longrightarrow> a = b"
  by (cases a; cases b) auto

instantiation shard :: linorder
begin

definition less_eq_shard :: "shard \<Rightarrow> shard \<Rightarrow> bool" where
  "less_eq_shard a b \<longleftrightarrow> shard_rank a \<le> shard_rank b"

definition less_shard :: "shard \<Rightarrow> shard \<Rightarrow> bool" where
  "less_shard a b \<longleftrightarrow> shard_rank a < shard_rank b"

instance
  by standard (auto simp: less_eq_shard_def less_shard_def dest: shard_rank_inject order_antisym)

end

definition shard_from_option :: "nat option \<Rightarrow> shard" where
  "shard_from_option v = (case v of Some n \<Rightarrow> ShDirect n | None \<Rightarrow> ShAll)"

section \<open>Where a shard comes from\<close>

datatype table_reason = TableOmni | TableSharded

datatype round_robin_reason = PrimaryShardedTableInsert | RROmni | NotExecutable | NoTable | EmptyQuery

datatype override_reason =
  DryRun | ParserDisabled | InTransaction | OnlyOneShard | RewriteUpdate | CrossShardFunction

datatype shard_source =
    DefaultUnset
  | FromTable table_reason
  | FromRoundRobin round_robin_reason
  | FromSearchPath string
  | FromSet
  | FromComment
  | FromPlugin
  | FromOverride override_reason

fun table_rank :: "table_reason \<Rightarrow> nat" where
  "table_rank TableOmni = 0"
| "table_rank TableSharded = 1"

fun round_robin_rank :: "round_robin_reason \<Rightarrow> nat" where
  "round_robin_rank PrimaryShardedTableInsert = 0"
| "round_robin_rank RROmni = 1"
| "round_robin_rank NotExecutable = 2"
| "round_robin_rank NoTable = 3"
| "round_robin_rank EmptyQuery = 4"

fun override_rank :: "override_reason \<Rightarrow> nat" where
  "override_rank DryRun = 0"
| "override_rank ParserDisabled = 1"
| "override_rank InTransaction = 2"
| "override_rank OnlyOneShard = 3"
| "override_rank RewriteUpdate = 4"
| "override_rank CrossShardFunction = 5"

text \<open>The position of the variant, of the reason in it, and the schema.\<close>

fun source_rank :: "shard_source \<Rightarrow> nat \<times> nat \<times> string" where
  "source_rank DefaultUnset = (0, 0, [])"
| "source_rank (FromTable r) = (1, table_rank r, [])"
| "source_rank (FromRoundRobin r) = (2, round_robin_rank r, [])"
| "source_rank (FromSearchPath schema) = (3, 0, schema)"
| "source_rank FromSet = (4, 0, [])"
| "source_rank FromComment = (5, 0, [])"
| "source_rank FromPlugin = (6, 0, [])"
| "source_rank (FromOverride r) = (7, override_rank r, [])"

lemma source_rank_inject: "source_rank a = source_rank b \<Longrightarrow> a = b"
proof -
  have "table_rank r = table_rank s \<Longrightarrow> r = s" for r s by (cases r; cases s) simp_all
  moreover have "round_robin_rank r = round_robin_rank s \<Longrightarrow> r = s" for r s by (cases r; cases s) simp_all
  moreover have "override_rank r = override_rank s \<Longrightarrow> r = s" for r s by (cases r; cases s) simp_all
  ultimately show "source_rank a = source_rank b \<Longrightarrow> a = b" by (cases a; cases b) auto
qed

instantiation shard_source :: linorder
begin

definition less_eq_shard_source :: "shard_source \<Rightarrow> shard_source \<Rightarrow> bool" where
  "less_eq_shard_source a b \<longleftrightarrow> source_rank a \<le> source_rank b"

definition less_shard_source :: "shard_source \<Rightarrow> shard_source \<Rightarrow> bool" where
  "less_shard_source a b \<longleftrightarrow> source_rank a < source_rank b"

instance
  by standard (auto simp: less_eq_shard_source_def less_shard_source_def dest: source_rank_inject order_antisym)

end

datatype shard_with_priority = SWP (swp_source: shard_source) (swp_shard: shard)

instantiation shard_with_priority :: linorder
begin

definition less_eq_shard_with_priority :: "shard_with_priority \<Rightarrow> shard_with_priority \<Rightarrow> bool" where
  "less_eq_shard_with_priority a b \<longleftrightarrow> (swp_source a, swp_shard a) \<le> (swp_source b, swp_shard b)"

definition less_shard_with_priority :: "shard_with_priority \<Rightarrow> shard_with_priority \<Rightarrow> bool" where
  "less_shard_with_priority a b \<longleftrightarrow> (swp_source a, swp_shard a) < (swp_source b, swp_shard b)"

instance
  by standard
    (auto simp: less_eq_shard_with_priority_def less_shard_with_priority_def intro: shard_with_priority.expand)

end

text \<open>The constructors \<open>new_*\<close> of a shard with its priority pair the shard with the source
  their name says; they differ in nothing else.  \<open>new_override_cross_shard_function\<close> also fixes
  the shard.\<close>

definition swp_new :: "shard_source \<Rightarrow> shard \<Rightarrow> shard_with_priority" where
  "swp_new source s = SWP source s"

definition new_override_cross_shard_function :: shard_with_priority where
  "new_override_cross_shard_function = SWP (FromOverride CrossShardFunction) ShAll"

abbreviation new_comment :: "shard \<Rightarrow> shard_with_priority" where
  "new_comment \<equiv> swp_new FromComment"

abbreviation new_table :: "shard \<Rightarrow> shard_with_priority" where
  "new_table \<equiv> swp_new (FromTable TableSharded)"

abbreviation new_set :: "shard \<Rightarrow> shard_with_priority" where
  "new_set \<equiv> swp_new FromSet"

section \<open>The decision\<close>

text \<open>\<^verbatim>\<open>ShardsWithPriority\<close> keeps the greatest of the shards it was given.\<close>

record shards_with_priority =
  prio_max :: "shard_with_priority option"

definition prio_default :: shards_with_priority where
  "prio_default = \<lparr>prio_max = None\<rparr>"

definition prio_push :: "shards_with_priority \<Rightarrow> shard_with_priority \<Rightarrow> shards_with_priority" where
  "prio_push p s =
     (case prio_max p of
        Some m \<Rightarrow> if m < s then p\<lparr>prio_max := Some s\<rparr> else p
      | None \<Rightarrow> p\<lparr>prio_max := Some s\<rparr>)"

definition prio_shard :: "shards_with_priority \<Rightarrow> shard_with_priority" where
  "prio_shard p = (case prio_max p of Some s \<Rightarrow> s | None \<Rightarrow> SWP DefaultUnset ShAll)"

section \<open>Routes\<close>

datatype lock_scope = SessionScope | TransactionScope

record advisory_lock =
  lock_id :: "int option"
  lock_unlock :: bool
  lock_scope :: lock_scope

type_synonym advisory_locks = "advisory_lock set"

record 'o route =
  rt_shard :: shard_with_priority
  rt_read :: bool
  rt_order_by :: "'o order_by list"
  rt_aggregate :: aggregate
  rt_limit :: limit
  rt_advisory_locks :: advisory_locks
  rt_distinct :: "distinct_by option"
  rt_maintenance :: bool
  rt_rewrite_plan :: rewrite_plan
  rt_rollback_savepoint :: bool
  rt_search_path_driven :: bool
  rt_schema_changed :: bool

definition route_default :: "'o route" where
  "route_default =
     \<lparr>rt_shard = SWP DefaultUnset ShAll, rt_read = False, rt_order_by = [],
      rt_aggregate = \<lparr>agg_targets = [], agg_group_by = []\<rparr>, rt_limit = \<lparr>lim_limit = None, lim_offset = None\<rparr>,
      rt_advisory_locks = {}, rt_distinct = None, rt_maintenance = False, rt_rewrite_plan = plan_new,
      rt_rollback_savepoint = False, rt_search_path_driven = False, rt_schema_changed = False\<rparr>"

definition route_select ::
    "shard_with_priority \<Rightarrow> 'o order_by list \<Rightarrow> aggregate \<Rightarrow> limit \<Rightarrow> distinct_by option \<Rightarrow> 'o route" where
  "route_select s order_by a l d =
     route_default\<lparr>rt_shard := s, rt_order_by := order_by, rt_read := True, rt_aggregate := a, rt_limit := l,
       rt_distinct := d\<rparr>"

definition route_read :: "shard_with_priority \<Rightarrow> 'o route" where
  "route_read s = route_default\<lparr>rt_shard := s, rt_read := True\<rparr>"

definition route_write :: "shard_with_priority \<Rightarrow> 'o route" where
  "route_write s = route_default\<lparr>rt_shard := s\<rparr>"

definition is_all_shards :: "'o route \<Rightarrow> bool" where
  "is_all_shards r = (case swp_shard (rt_shard r) of ShAll \<Rightarrow> True | _ \<Rightarrow> False)"

definition is_multi_shard :: "'o route \<Rightarrow> bool" where
  "is_multi_shard r = (case swp_shard (rt_shard r) of ShMulti _ \<Rightarrow> True | _ \<Rightarrow> False)"

definition route_should_buffer :: "'o route \<Rightarrow> bool" where
  "route_should_buffer r \<longleftrightarrow>
     rt_order_by r \<noteq> [] \<or> \<not> agg_is_empty (rt_aggregate r) \<or> rt_distinct r \<noteq> None \<or> lim_offset (rt_limit r) \<noteq> None"

definition is_omni :: "'o route \<Rightarrow> bool" where
  "is_omni r =
     (case swp_source (rt_shard r) of
        FromTable TableOmni \<Rightarrow> True
      | FromRoundRobin RROmni \<Rightarrow> True
      | _ \<Rightarrow> False)"

section \<open>Properties\<close>

lemma push_all_max: "prio_max (foldl prio_push p ss) = (if ss = [] then prio_max p
    else Some (Max (set ss \<union> (case prio_max p of Some s \<Rightarrow> {s} | None \<Rightarrow> {}))))"
proof (induction ss arbitrary: p)
  case (Cons s ss)
  have push: "prio_max (prio_push p s) = Some (case prio_max p of Some m \<Rightarrow> max s m | None \<Rightarrow> s)"
    by (auto simp: prio_push_def max_def split: option.split)
  show ?case
  proof (cases "prio_max p")
    case None
    with Cons push show ?thesis by (cases ss) (simp_all add: insert_commute)
  next
    case (Some m)
    have "Max (insert s (insert m (set ss))) = Max (insert (max s m) (set ss))"
      by (cases ss) (simp_all add: max.assoc max.left_commute)
    with Some Cons push show ?thesis by (cases ss) (simp_all add: insert_commute)
  qed
qed simp

text \<open>C26: the shard of a statement is the one with the highest priority among all that were found, whatever the order in
  which they were found; a source of a higher rank always wins over one of a lower rank.\<close>

theorem highest_priority_decides:
  assumes "ss \<noteq> []"
  shows "prio_shard (foldl prio_push prio_default ss) \<in> set ss
    \<and> (\<forall>s\<in>set ss. s \<le> prio_shard (foldl prio_push prio_default ss)
        \<and> source_rank (swp_source s) \<le> source_rank (swp_source (prio_shard (foldl prio_push prio_default ss))))
    \<and> (\<forall>ss'. set ss' = set ss \<longrightarrow> prio_shard (foldl prio_push prio_default ss') = prio_shard (foldl prio_push prio_default ss))"
proof -
  have max: "prio_shard (foldl prio_push prio_default ss') = Max (set ss')" if "ss' \<noteq> []" for ss'
    using that by (simp add: prio_shard_def push_all_max prio_default_def)
  have "swp_source s \<le> swp_source t" if "s \<le> t" for s t
    using that by (auto simp: less_eq_shard_with_priority_def less_eq_prod_def)
  then have "source_rank (swp_source s) \<le> source_rank (swp_source t)" if "s \<le> t" for s t
    using that by (simp add: less_eq_shard_source_def)
  moreover have "prio_shard (foldl prio_push prio_default ss') = Max (set ss)" if "set ss' = set ss" for ss'
  proof -
    from that assms have "ss' \<noteq> []" by auto
    from max [OF this] that show ?thesis by simp
  qed
  ultimately show ?thesis using assms max by auto
qed

theorem highest_priority_decides_witness:
  "prio_shard (foldl prio_push prio_default [new_table (ShDirect 1), new_comment (ShDirect 0), new_set ShAll])
   \<in> {new_table (ShDirect 1), new_comment (ShDirect 0), new_set ShAll}
   \<and> new_comment (ShDirect 0)
     \<le> prio_shard (foldl prio_push prio_default [new_table (ShDirect 1), new_comment (ShDirect 0), new_set ShAll])"
  using highest_priority_decides [of "[new_table (ShDirect 1), new_comment (ShDirect 0), new_set ShAll]"] by simp

end
