(* ===== verification/MultiShard.thy ===== *)
theory MultiShard
  imports Route
begin

text \<open>
  \<^verbatim>\<open>pgdog/src/backend/pool/connection/multi_shard\<close>: the replies of several shards to one statement are merged into the
  replies of one server. \<^verbatim>\<open>mod.rs\<close> counts the messages of each kind and buffers rows, \<^verbatim>\<open>validator.rs\<close> checks that the shards
  agree on the shape of the rows, and the read loop of \<^verbatim>\<open>binding.rs\<close> takes one message from each shard in turn. Also the
  \<^verbatim>\<open>CommandComplete\<close> message of \<^verbatim>\<open>net/messages/command_complete.rs\<close>, whose row count is rewritten.
\<close>

section \<open>CommandComplete\<close>

text \<open>The message is its payload; the command stands between the length and the terminator. Slicing a shorter payload
  panics.\<close>

fun split_spaces :: "string \<Rightarrow> string list" where
  "split_spaces [] = [[]]"
| "split_spaces (c # cs) =
     (if c = CHR '' '' then [] # split_spaces cs
      else case split_spaces cs of w # ws \<Rightarrow> (c # w) # ws | [] \<Rightarrow> [[c]])"

fun join_spaces :: "string list \<Rightarrow> string" where
  "join_spaces [] = []"
| "join_spaces [w] = w"
| "join_spaces (w # ws) = w @ CHR '' '' # join_spaces ws"

definition cc_command :: "bytes \<Rightarrow> string" where
  "cc_command cc = butlast (drop 5 cc)"

definition cc_from_bytes :: "bytes \<Rightarrow> net_error + bytes" where
  "cc_from_bytes bs =
     and_then (expect_code CHR ''C'' bs) (\<lambda>_.
     if length bs < 6 then Inl BufferUnderflow
     else and_then (from_utf8 (cc_command bs)) (\<lambda>_. Inr bs))"

definition cc_rows :: "bytes \<Rightarrow> nat option" where
  "cc_rows cc = map_option nat (parse_usize (last (split_spaces (cc_command cc))))"

definition cc_tag :: "bytes \<Rightarrow> string" where
  "cc_tag cc = hd (split_spaces (cc_command cc))"

definition cc_from_str :: "string \<Rightarrow> bytes" where
  "cc_from_str s = payload_named CHR ''C'' (put_string s)"

definition cc_rewrite :: "bytes \<Rightarrow> nat \<Rightarrow> bytes" where
  "cc_rewrite cc rows = cc_from_str (join_spaces (butlast (split_spaces (cc_command cc)) @ [show_nat rows]))"

definition cc_message :: "bytes \<Rightarrow> message" where
  "cc_message cc = new_message CHR ''C'' (tl cc)"

section \<open>The validator\<close>

datatype ms_error =
    InconsistentRowDescription nat nat
  | InconsistentColumnNames nat string string
  | InconsistentDataRowCount nat nat
  | MsNet net_error
  | MsRows rows_error
  | MsPanic

record validator =
  va_first_row_description :: "row_description option"
  va_expected_column_count :: "nat option"

definition va_default :: validator where
  "va_default = \<lparr>va_first_row_description = None, va_expected_column_count = None\<rparr>"

definition va_reset :: "validator \<Rightarrow> validator" where
  "va_reset v = v\<lparr>va_first_row_description := None, va_expected_column_count := None\<rparr>"

definition va_set_row_description :: "validator \<Rightarrow> row_description \<Rightarrow> validator" where
  "va_set_row_description v rd = v\<lparr>va_first_row_description := Some rd\<rparr>"

fun name_mismatch :: "nat \<Rightarrow> field list \<Rightarrow> field list \<Rightarrow> ms_error option" where
  "name_mismatch index (f # fs) (g # gs) =
     (if field_name f \<noteq> field_name g then Some (InconsistentColumnNames index (field_name f) (field_name g))
      else name_mismatch (Suc index) fs gs)"
| "name_mismatch index _ _ = None"

definition validate_row_description :: "validator \<Rightarrow> row_description \<Rightarrow> (ms_error + bool) \<times> validator" where
  "validate_row_description v rd =
     (case va_first_row_description v of
        None \<Rightarrow> (Inr True, v\<lparr>va_first_row_description := Some rd\<rparr>)
      | Some first_rd \<Rightarrow>
          if length (rd_fields first_rd) \<noteq> length (rd_fields rd)
          then (Inl (InconsistentRowDescription (length (rd_fields first_rd)) (length (rd_fields rd))), v)
          else case name_mismatch 0 (rd_fields first_rd) (rd_fields rd) of
            Some e \<Rightarrow> (Inl e, v)
          | None \<Rightarrow> (Inr False, v))"

definition validate_data_row :: "validator \<Rightarrow> data_row \<Rightarrow> (ms_error + unit) \<times> validator" where
  "validate_data_row v dr =
     (case va_expected_column_count v of
        None \<Rightarrow> (Inr (), v\<lparr>va_expected_column_count := Some (length dr)\<rparr>)
      | Some expected \<Rightarrow>
          if length dr \<noteq> expected then (Inl (InconsistentDataRowCount expected (length dr)), v) else (Inr (), v))"

section \<open>State\<close>

record counters =
  cn_rows :: nat
  cn_ready_for_query :: nat
  cn_command_complete_count :: nat
  cn_empty_query_response :: nat
  cn_copy_in :: nat
  cn_parse_complete :: nat
  cn_parameter_description :: nat
  cn_no_data :: nat
  cn_row_description :: nat
  cn_close_complete :: nat
  cn_bind_complete :: nat
  cn_command_complete :: "message option"
  cn_transaction_error :: bool
  cn_copy_done :: nat
  cn_copy_out :: nat
  cn_copy_data :: nat
  cn_first_backend_data :: "backend_key_data option"

definition counters_default :: counters where
  "counters_default =
     \<lparr>cn_rows = 0, cn_ready_for_query = 0, cn_command_complete_count = 0, cn_empty_query_response = 0, cn_copy_in = 0,
      cn_parse_complete = 0, cn_parameter_description = 0, cn_no_data = 0, cn_row_description = 0, cn_close_complete = 0,
      cn_bind_complete = 0, cn_command_complete = None, cn_transaction_error = False, cn_copy_done = 0, cn_copy_out = 0,
      cn_copy_data = 0, cn_first_backend_data = None\<rparr>"

record 'o multi_shard =
  ms_shards :: nat
  ms_route :: "'o route"
  ms_shard_indices :: "nat list"
  ms_counters :: counters
  ms_buffer :: buffer
  ms_decoder :: decoder
  ms_validator :: validator

definition ms_new :: "nat list \<Rightarrow> 'o route \<Rightarrow> 'o multi_shard" where
  "ms_new shard_indices r =
     \<lparr>ms_shards = length shard_indices, ms_route = r, ms_shard_indices = shard_indices, ms_counters = counters_default,
      ms_buffer = buffer_default, ms_decoder = decoder_new, ms_validator = va_default\<rparr>"

definition shard_index :: "'o multi_shard \<Rightarrow> nat \<Rightarrow> nat" where
  "shard_index s i = (if i < length (ms_shard_indices s) then ms_shard_indices s ! i else i)"

definition ms_reset :: "'o multi_shard \<Rightarrow> 'o multi_shard" where
  "ms_reset s =
     s\<lparr>ms_counters := counters_default, ms_buffer := buffer_reset (ms_buffer s), ms_validator := va_reset (ms_validator s)\<rparr>"

definition ms_update :: "'o multi_shard \<Rightarrow> nat \<Rightarrow> 'o route \<Rightarrow> 'o multi_shard" where
  "ms_update s shards r = (ms_reset s)\<lparr>ms_shards := shards, ms_route := r\<rparr>"

definition update_shards :: "'o multi_shard \<Rightarrow> nat \<Rightarrow> 'o multi_shard" where
  "update_shards s shards = s\<lparr>ms_shards := shards\<rparr>"

definition ms_should_buffer :: "'o multi_shard \<Rightarrow> bool" where
  "ms_should_buffer s \<longleftrightarrow> ms_shards s > 1 \<and> route_should_buffer (ms_route s) \<and> \<not> is_omni (ms_route s)"

section \<open>Messages from the shards\<close>

text \<open>\<^verbatim>\<open>is_multiple_of\<close> is divisibility; for zero shards it holds of zero only. One definition per kind of message that is
  more than counted.\<close>

definition forward_ready :: "'o multi_shard \<Rightarrow> message \<Rightarrow> (ms_error + message option) \<times> 'o multi_shard" where
  "forward_ready s m =
     (let s = s\<lparr>ms_counters := (ms_counters s)\<lparr>cn_ready_for_query := cn_ready_for_query (ms_counters s) + 1\<rparr>\<rparr> in
      case transaction_error m of
        None \<Rightarrow> (Inl MsPanic, s)
      | Some e \<Rightarrow>
          let s = (if e then s\<lparr>ms_counters := (ms_counters s)\<lparr>cn_transaction_error := True\<rparr>\<rparr> else s) in
          (Inr (if ms_shards s dvd cn_ready_for_query (ms_counters s)
                then Some (if cn_transaction_error (ms_counters s) then rfq_message rfq_error else m)
                else None), s))"

text \<open>When the last shard has completed the command: aggregate, sort, make distinct, cut the page.\<close>

definition finish_rows ::
    "'o type_ops \<Rightarrow> ('o mappings \<Rightarrow> 'o mappings) \<Rightarrow> 'o multi_shard \<Rightarrow> (ms_error + unit) \<times> 'o multi_shard" where
  "finish_rows ops iter s =
     (let r = ms_route s; b = buffer_full (ms_buffer s) in
      if buffer_is_empty b then (Inr (), s\<lparr>ms_buffer := b\<rparr>)
      else case buffer_aggregate ops iter b (rt_aggregate r) (ms_decoder s) (rt_rewrite_plan r) of
        (Inl e, b) \<Rightarrow> (Inl (MsRows e), s\<lparr>ms_buffer := b\<rparr>)
      | (Inr _, b) \<Rightarrow>
          let b = buffer_sort ops b (rt_order_by r) (ms_decoder s);
              b = buffer_distinct b (rt_distinct r) (ms_decoder s);
              b = buffer_limit b (rt_limit r)
          in (Inr (), s\<lparr>ms_buffer := b\<rparr>))"

definition count_command :: "'o multi_shard \<Rightarrow> nat option \<Rightarrow> 'o multi_shard" where
  "count_command s rows =
     (let c = ms_counters s;
          c = (case rows of
                 Some n \<Rightarrow>
                   if is_omni (ms_route s)
                   then (if cn_command_complete_count c = 0 then c\<lparr>cn_rows := n\<rparr> else c)
                   else c\<lparr>cn_rows := cn_rows c + n\<rparr>
               | None \<Rightarrow> c)
      in s\<lparr>ms_counters := c\<lparr>cn_command_complete_count := cn_command_complete_count c + 1\<rparr>\<rparr>)"

definition forward_command_complete ::
    "'o type_ops \<Rightarrow> ('o mappings \<Rightarrow> 'o mappings) \<Rightarrow> 'o multi_shard \<Rightarrow> message \<Rightarrow>
     (ms_error + message option) \<times> 'o multi_shard" where
  "forward_command_complete ops iter s m =
     (case cc_from_bytes (payload m) of
        Inl e \<Rightarrow> (Inl (MsNet e), s)
      | Inr cc \<Rightarrow>
          let rows = cc_rows cc; s = count_command s rows in
          if ms_shards s dvd cn_command_complete_count (ms_counters s) then
            (case finish_rows ops iter s of
               (Inl e, s) \<Rightarrow> (Inl e, s)
             | (Inr _, s) \<Rightarrow>
                 if rows \<noteq> None then
                   let n = (if ms_should_buffer s then buffer_len (ms_buffer s) else cn_rows (ms_counters s)) in
                   (Inr None,
                    s\<lparr>ms_counters := (ms_counters s)\<lparr>cn_command_complete := Some (cc_message (cc_rewrite cc n))\<rparr>\<rparr>)
                 else (Inr (Some (cc_message cc)), s))
          else (Inr None, s))"

definition forward_row_description :: "'o multi_shard \<Rightarrow> message \<Rightarrow> (ms_error + message option) \<times> 'o multi_shard" where
  "forward_row_description s m =
     (let s = s\<lparr>ms_counters := (ms_counters s)\<lparr>cn_row_description := cn_row_description (ms_counters s) + 1\<rparr>\<rparr> in
      case rd_from_bytes (payload m) of
        Inl e \<Rightarrow> (Inl (MsNet e), s)
      | Inr rd \<Rightarrow>
          (case validate_row_description (ms_validator s) rd of
             (Inl e, v) \<Rightarrow> (Inl e, s\<lparr>ms_validator := v\<rparr>)
           | (Inr is_first, v) \<Rightarrow>
               let s = s\<lparr>ms_validator := v,
                         ms_decoder := (if is_first then decoder_row_description (ms_decoder s) rd else ms_decoder s)\<rparr>;
                   dropped = plan_drop_columns (rt_rewrite_plan (ms_route s))
               in (Inr (if cn_row_description (ms_counters s) = ms_shards s
                        then Some (if dropped = [] then m
                                   else new_message CHR ''T'' (tl (rd_to_bytes (rd_drop_columns rd dropped))))
                        else None), s)))"

definition forward_data_row :: "'o multi_shard \<Rightarrow> message \<Rightarrow> (ms_error + message option) \<times> 'o multi_shard" where
  "forward_data_row s m =
     (case (if ms_shards s > 1
            then (case dr_from_bytes (payload m) of
                    Inl e \<Rightarrow> (Inl (MsNet e), ms_validator s)
                  | Inr dr \<Rightarrow> validate_data_row (ms_validator s) dr)
            else (Inr (), ms_validator s)) of
        (Inl e, v) \<Rightarrow> (Inl e, s\<lparr>ms_validator := v\<rparr>)
      | (Inr _, v) \<Rightarrow>
          let c = ms_counters s;
              c = (if cn_first_backend_data c = None then c\<lparr>cn_first_backend_data := backend_id (msg_source m)\<rparr> else c);
              s = s\<lparr>ms_validator := v, ms_counters := c\<rparr>
          in if \<not> ms_should_buffer s \<and> ms_shards s dvd cn_row_description c then
               (Inr (if is_omni (ms_route s)
                     then (if cn_first_backend_data c = backend_id (msg_source m) then Some m else None)
                     else Some m), s)
             else (case buffer_add (ms_buffer s) m of
                     Inl e \<Rightarrow> (Inl (MsNet e), s)
                   | Inr b \<Rightarrow> (Inr None, s\<lparr>ms_buffer := b\<rparr>)))"

text \<open>A message that is only counted: the client gets the one of the last shard.\<close>

definition forward_counted ::
    "'o multi_shard \<Rightarrow> message \<Rightarrow> (counters \<Rightarrow> nat) \<Rightarrow> (nat \<Rightarrow> counters \<Rightarrow> counters) \<Rightarrow>
     (ms_error + message option) \<times> 'o multi_shard" where
  "forward_counted s m get set_to =
     (let n = get (ms_counters s) + 1 in
      (Inr (if ms_shards s dvd n then Some m else None), s\<lparr>ms_counters := set_to n (ms_counters s)\<rparr>))"

definition ms_forward ::
    "'o type_ops \<Rightarrow> ('o mappings \<Rightarrow> 'o mappings) \<Rightarrow> 'o multi_shard \<Rightarrow> message \<Rightarrow>
     (ms_error + message option) \<times> 'o multi_shard" where
  "ms_forward ops iter s m =
     (let code = msg_code m in
      if code = CHR ''Z'' then forward_ready s m
      else if code = CHR ''C'' then forward_command_complete ops iter s m
      else if code = CHR ''T'' then forward_row_description s m
      else if code = CHR ''I'' then forward_counted s m cn_empty_query_response (\<lambda>n c. c\<lparr>cn_empty_query_response := n\<rparr>)
      else if code = CHR ''D'' then forward_data_row s m
      else if code = CHR ''G'' then forward_counted s m cn_copy_in (\<lambda>n c. c\<lparr>cn_copy_in := n\<rparr>)
      else if code = CHR ''n'' then forward_counted s m cn_no_data (\<lambda>n c. c\<lparr>cn_no_data := n\<rparr>)
      else if code = CHR ''1'' then forward_counted s m cn_parse_complete (\<lambda>n c. c\<lparr>cn_parse_complete := n\<rparr>)
      else if code = CHR ''3'' then forward_counted s m cn_close_complete (\<lambda>n c. c\<lparr>cn_close_complete := n\<rparr>)
      else if code = CHR ''2'' then forward_counted s m cn_bind_complete (\<lambda>n c. c\<lparr>cn_bind_complete := n\<rparr>)
      else if code = CHR ''c'' then forward_counted s m cn_copy_done (\<lambda>n c. c\<lparr>cn_copy_done := n\<rparr>)
      else if code = CHR ''d'' then
        (Inr (Some m), s\<lparr>ms_counters := (ms_counters s)\<lparr>cn_copy_data := cn_copy_data (ms_counters s) + 1\<rparr>\<rparr>)
      else if code = CHR ''H'' then forward_counted s m cn_copy_out (\<lambda>n c. c\<lparr>cn_copy_out := n\<rparr>)
      else if code = CHR ''t'' then
        forward_counted s m cn_parameter_description (\<lambda>n c. c\<lparr>cn_parameter_description := n\<rparr>)
      else (Inr (Some m), s))"

definition ms_message :: "'o multi_shard \<Rightarrow> message option \<times> 'o multi_shard" where
  "ms_message s =
     (case buffer_take (ms_buffer s) of
        (Some m, b) \<Rightarrow> (Some m, s\<lparr>ms_buffer := b\<rparr>)
      | (None, b) \<Rightarrow>
          (cn_command_complete (ms_counters s),
           s\<lparr>ms_buffer := b, ms_counters := (ms_counters s)\<lparr>cn_command_complete := None\<rparr>\<rparr>))"

datatype ms_context = ContextBind bind | ContextRowDescription row_description

definition ms_set_context :: "row_description global_cache \<Rightarrow> 'o multi_shard \<Rightarrow> ms_context \<Rightarrow> 'o multi_shard" where
  "ms_set_context g s context =
     (case context of
        ContextBind b \<Rightarrow>
          let s = (if rd_fields (dec_rd (ms_decoder s)) = [] \<and> \<not> bind_anonymous b
                   then (case gc_row_description g (bind_statement b) of
                           Some rd \<Rightarrow>
                             s\<lparr>ms_decoder := decoder_row_description (ms_decoder s) rd,
                               ms_validator := va_set_row_description (ms_validator s) rd\<rparr>
                         | None \<Rightarrow> s)
                   else s)
          in s\<lparr>ms_decoder := decoder_bind g (ms_decoder s) b\<rparr>
      | ContextRowDescription rd \<Rightarrow>
          s\<lparr>ms_decoder := decoder_row_description (ms_decoder s) rd,
            ms_validator := va_set_row_description (ms_validator s) rd\<rparr>)"

section \<open>Facts on CommandComplete\<close>

lemma split_spaces_ne [simp]: "split_spaces s \<noteq> []"
  by (cases s) (auto split: list.split)

lemma split_spaces_word: "CHR '' '' \<notin> set w \<Longrightarrow> split_spaces w = [w]"
  by (induction w) auto

lemma split_spaces_append: "CHR '' '' \<notin> set w \<Longrightarrow> split_spaces (w @ CHR '' '' # s) = w # split_spaces s"
  by (induction w) auto

lemma split_spaces_words: "w \<in> set (split_spaces s) \<Longrightarrow> CHR '' '' \<notin> set w"
proof (induction s arbitrary: w)
  case (Cons c cs)
  obtain v ws where ws: "split_spaces cs = v # ws" by (cases "split_spaces cs") auto
  with Cons.IH have "CHR '' '' \<notin> set v" "\<And>w. w \<in> set ws \<Longrightarrow> CHR '' '' \<notin> set w" by auto
  with Cons.prems ws show ?case by (auto split: if_splits)
qed simp

lemma split_join: "ws \<noteq> [] \<Longrightarrow> list_all (\<lambda>w. CHR '' '' \<notin> set w) ws \<Longrightarrow> split_spaces (join_spaces ws) = ws"
  by (induction ws rule: join_spaces.induct) (simp_all add: split_spaces_word split_spaces_append)

lemma cc_command_from_str [simp]: "cc_command (cc_from_str s) = s"
  by (simp add: cc_command_def cc_from_str_def payload_named_def put_string_def put_i32_def)

lemma payload_cc_message [simp]: "payload (cc_message (cc_from_str s)) = cc_from_str s" "msg_code (cc_message cc) = CHR ''C''"
  by (simp_all add: cc_message_def payload_def new_message_def cc_from_str_def payload_named_def)

lemma cc_from_str_decodes: "utf8_valid s \<Longrightarrow> cc_from_bytes (cc_from_str s) = Inr (cc_from_str s)"
proof -
  assume "utf8_valid s"
  moreover have "expect_code CHR ''C'' (cc_from_str s) = Inr (tl (cc_from_str s))" "length (cc_from_str s) \<ge> 6"
    by (simp_all add: cc_from_str_def payload_named_def expect_code_def put_i32_def put_string_def)
  ultimately show ?thesis by (simp add: cc_from_bytes_def from_utf8_def)
qed

lemma show_nat_word: "CHR '' '' \<notin> set (show_nat n)"
  using show_nat_digits [of n] by (auto simp: list_all_iff is_digit_def)

lemma rewrite_words: "split_spaces (cc_command (cc_rewrite cc n)) = butlast (split_spaces (cc_command cc)) @ [show_nat n]"
proof -
  have "list_all (\<lambda>w. CHR '' '' \<notin> set w) (butlast (split_spaces (cc_command cc)) @ [show_nat n])"
    using split_spaces_words [of _ "cc_command cc"] show_nat_word [of n] by (auto simp: list_all_iff dest: in_set_butlastD)
  then show ?thesis by (simp add: cc_rewrite_def split_join)
qed

text \<open>A rewritten completion reports the new number of rows and is otherwise the completion the server sent.\<close>

theorem completion_rewritten:
  assumes "n \<le> 18446744073709551615"
  shows "cc_rows (cc_rewrite cc n) = Some n
    \<and> butlast (split_spaces (cc_command (cc_rewrite cc n))) = butlast (split_spaces (cc_command cc))
    \<and> (length (split_spaces (cc_command cc)) > 1 \<longrightarrow> cc_tag (cc_rewrite cc n) = cc_tag cc)"
proof -
  have "parse_usize (show_nat n) = Some (int n)"
    using parse_int_show [of 0 "int n" 18446744073709551615] assms by (simp add: parse_usize_def show_int_def)
  moreover have "hd (butlast xs @ [y]) = hd xs" if "length xs > 1" for xs :: "string list" and y
    using that by (cases xs) auto
  ultimately show ?thesis by (simp add: cc_rows_def cc_tag_def rewrite_words)
qed

theorem completion_rewritten_witness:
  "cc_rows (cc_rewrite (cc_from_str ''INSERT 0 3'') 7) = Some 7 \<and> cc_tag (cc_rewrite (cc_from_str ''INSERT 0 3'') 7) = ''INSERT''"
  using completion_rewritten [of 7 "cc_from_str ''INSERT 0 3''"] by (simp add: cc_tag_def)

end
