(* ===== verification/ClientRequest.thy ===== *)
theory ClientRequest
  imports Route
begin

text \<open>
  \<^verbatim>\<open>pgdog/src/frontend/client_request.rs\<close>: the messages of a client collected into one request, the questions the query
  engine asks about it, and the split of a pipeline into requests that execute one statement each. The syntax tree is a
  type parameter: it comes from the parser.
\<close>

section \<open>Requests\<close>

text \<open>The lengths of the messages, by kind; they only decide when copied data is flushed.\<close>

definition pm_len :: "protocol_message \<Rightarrow> nat" where
  "pm_len m =
     (case m of
        PBind b \<Rightarrow> bind_len b
      | PParse p \<Rightarrow> parse_len p
      | PDescribe d \<Rightarrow> length (desc_payload d)
      | PPrepare _ statement \<Rightarrow> length statement + 1 + 1 + 4
      | PExecute e \<Rightarrow> length (exec_payload e)
      | PClose c \<Rightarrow> length (close_payload c)
      | PQuery q \<Rightarrow> length (payload q)
      | POther m \<Rightarrow> length (payload m)
      | PCopyData d \<Rightarrow> length (drop 4 (msg_rest d))
      | PSync \<Rightarrow> 5
      | PCopyDone _ \<Rightarrow> 4
      | PFastpath f \<Rightarrow> length (drop 4 (msg_rest f))
      | PCopyFail f \<Rightarrow> length (drop 4 (msg_rest f)) + 4)"

record ('ast, 'o) client_request =
  cr_messages :: "protocol_message list"
  cr_route :: "'o route option"
  cr_ast :: "'ast option"
  cr_last_parse :: "parse option"

definition cr_new :: "('ast, 'o) client_request" where
  "cr_new = \<lparr>cr_messages = [], cr_route = None, cr_ast = None, cr_last_parse = None\<rparr>"

definition cr_from_messages :: "protocol_message list \<Rightarrow> ('ast, 'o) client_request" where
  "cr_from_messages ms = \<lparr>cr_messages = ms, cr_route = None, cr_ast = None, cr_last_parse = None\<rparr>"

definition cr_push :: "('ast, 'o) client_request \<Rightarrow> protocol_message \<Rightarrow> ('ast, 'o) client_request" where
  "cr_push r m =
     (let r = (case m of
                 PParse p \<Rightarrow> r\<lparr>cr_last_parse := (if parse_anonymous p then Some p else None)\<rparr>
               | _ \<Rightarrow> r)
      in r\<lparr>cr_messages := cr_messages r @ [m]\<rparr>)"

definition is_executable :: "('ast, 'o) client_request \<Rightarrow> bool" where
  "is_executable r \<longleftrightarrow> list_ex (\<lambda>m. pm_code m \<in> {CHR ''E'', CHR ''Q'', CHR ''B''}) (cr_messages r)"

definition cr_clear :: "('ast, 'o) client_request \<Rightarrow> ('ast, 'o) client_request" where
  "cr_clear r =
     (let r = (if is_executable r then r\<lparr>cr_last_parse := None\<rparr> else r)
      in r\<lparr>cr_messages := [], cr_route := None, cr_ast := None\<rparr>)"

definition total_message_len :: "('ast, 'o) client_request \<Rightarrow> nat" where
  "total_message_len r = sum_list (map pm_len (cr_messages r))"

text \<open>The union of messages keeps the default of \<^verbatim>\<open>Protocol::streaming\<close>, so the last test of \<^verbatim>\<open>is_complete\<close> never holds.\<close>

definition pm_streaming :: "protocol_message \<Rightarrow> bool" where
  "pm_streaming m = False"

definition is_complete :: "('ast, 'o) client_request \<Rightarrow> bool" where
  "is_complete r =
     (if cr_messages r = [] then False
      else let m = last (cr_messages r) in
        pm_code m \<in> {CHR ''H'', CHR ''S'', CHR ''Q'', CHR ''c'', CHR ''f'', CHR ''F''}
        \<or> (pm_code m = CHR ''d'' \<and> total_message_len r \<ge> 4096)
        \<or> pm_streaming m)"

datatype buffered_query = BQuery message | BPrepared parse

text \<open>The first message that names a statement decides. An anonymous \<^verbatim>\<open>Bind\<close> or \<^verbatim>\<open>Describe\<close> stands for the saved
  \<^verbatim>\<open>Parse\<close>, or is passed over if there is none.\<close>

fun query_of ::
    "row_description global_cache \<Rightarrow> parse option \<Rightarrow> protocol_message list \<Rightarrow> buffered_query option" where
  "query_of g last_parse [] = None"
| "query_of g last_parse (m # ms) =
     (case m of
        PQuery q \<Rightarrow> Some (BQuery q)
      | PParse p \<Rightarrow> Some (BPrepared p)
      | PBind b \<Rightarrow>
          if \<not> bind_anonymous b then map_option BPrepared (gc_parse g (bind_statement b))
          else (case last_parse of Some p \<Rightarrow> Some (BPrepared p) | None \<Rightarrow> query_of g last_parse ms)
      | PDescribe d \<Rightarrow>
          if \<not> desc_anonymous d then map_option BPrepared (gc_parse g (desc_statement d))
          else (case last_parse of Some p \<Rightarrow> Some (BPrepared p) | None \<Rightarrow> query_of g last_parse ms)
      | _ \<Rightarrow> query_of g last_parse ms)"

definition cr_query :: "row_description global_cache \<Rightarrow> ('ast, 'o) client_request \<Rightarrow> buffered_query option" where
  "cr_query g r = query_of g (cr_last_parse r) (cr_messages r)"

text \<open>The regular expression \<^verbatim>\<open>(?i)^BEGIN\<close>.\<close>

definition lower_ascii :: "char \<Rightarrow> char" where
  "lower_ascii c = (let n = of_char c in if (65::nat) \<le> n \<and> n \<le> 90 then char_of (n + 32) else c)"

definition is_begin :: "('ast, 'o) client_request \<Rightarrow> bool" where
  "is_begin r \<longleftrightarrow> list_ex (\<lambda>m. case m of
       PParse p \<Rightarrow> take 5 (map lower_ascii (parse_query p)) = ''begin''
     | PQuery q \<Rightarrow> take 5 (map lower_ascii (butlast (drop 5 (payload q)))) = ''begin''
     | _ \<Rightarrow> False) (cr_messages r)"

definition cr_parameters :: "('ast, 'o) client_request \<Rightarrow> bind option" where
  "cr_parameters r =
     Option.bind (find (\<lambda>m. case m of PBind _ \<Rightarrow> True | _ \<Rightarrow> False) (cr_messages r))
       (\<lambda>m. case m of PBind b \<Rightarrow> Some b | _ \<Rightarrow> None)"

definition cr_copy_data :: "('ast, 'o) client_request \<Rightarrow> message list" where
  "cr_copy_data r = List.map_filter (\<lambda>m. case m of PCopyData d \<Rightarrow> Some d | _ \<Rightarrow> None) (cr_messages r)"

definition without_copy_data :: "('ast, 'o) client_request \<Rightarrow> ('ast, 'o) client_request" where
  "without_copy_data r =
     \<lparr>cr_messages = filter (\<lambda>m. pm_code m \<noteq> CHR ''d'') (cr_messages r), cr_route = cr_route r, cr_ast = cr_ast r,
      cr_last_parse = None\<rparr>"

definition is_copy :: "('ast, 'o) client_request \<Rightarrow> bool" where
  "is_copy r \<longleftrightarrow> cr_messages r \<noteq> [] \<and> pm_code (last (cr_messages r)) \<in> {CHR ''d'', CHR ''c''}"

definition is_sync_only :: "('ast, 'o) client_request \<Rightarrow> bool" where
  "is_sync_only r \<longleftrightarrow>
     cr_messages r \<noteq> [] \<and> list_all (\<lambda>m. pm_code m = CHR ''S'' \<or> pm_code m = CHR ''H'') (cr_messages r)"

fun needs_injection :: "bool \<Rightarrow> protocol_message list \<Rightarrow> bool" where
  "needs_injection references_anonymous [] = references_anonymous"
| "needs_injection references_anonymous (m # ms) =
     (case m of
        PParse _ \<Rightarrow> False
      | PBind b \<Rightarrow> if \<not> bind_anonymous b then False else needs_injection True ms
      | PDescribe d \<Rightarrow> if \<not> desc_anonymous d then False else needs_injection True ms
      | _ \<Rightarrow> needs_injection references_anonymous ms)"

definition needs_parse_injection :: "('ast, 'o) client_request \<Rightarrow> bool" where
  "needs_parse_injection r = needs_injection False (cr_messages r)"

definition cr_rewrite ::
    "('ast, 'o) client_request \<Rightarrow> protocol_message list \<Rightarrow> net_error + ('ast, 'o) client_request" where
  "cr_rewrite r request =
     (if list_ex (\<lambda>m. pm_code m \<noteq> CHR ''Q'') (cr_messages r) then Inl OnlySimpleForRewrites
      else Inr (r\<lparr>cr_messages := request\<rparr>))"

definition cr_get_route :: "('ast, 'o) client_request \<Rightarrow> 'o route" where
  "cr_get_route r = (case cr_route r of Some route \<Rightarrow> route | None \<Rightarrow> route_default)"

section \<open>Splitting a pipeline\<close>

definition flush_message :: protocol_message where
  "flush_message = POther (new_message CHR ''H'' (tl (payload_named CHR ''H'' [])))"

fun splice ::
    "('ast, 'o) client_request list \<Rightarrow> ('ast, 'o) client_request \<Rightarrow> protocol_message list \<Rightarrow>
     net_error + ('ast, 'o) client_request list" where
  "splice requests current [] = Inr (if cr_messages current \<noteq> [] then requests @ [current] else requests)"
| "splice requests current (m # ms) =
     (let code = pm_code m in
      if code \<in> {CHR ''P'', CHR ''B'', CHR ''D'', CHR ''C''} then splice requests (cr_push current m) ms
      else if code = CHR ''H'' then
        (if cr_messages current \<noteq> [] \<and> pm_code (last (cr_messages current)) \<noteq> CHR ''H''
         then splice requests (cr_push current m) ms else splice requests current ms)
      else if code = CHR ''E'' then
        splice (requests @ [current\<lparr>cr_messages := cr_messages current @ [m, flush_message]\<rparr>]) cr_new ms
      else if code = CHR ''S'' then
        (let requests = (if cr_messages current \<noteq> [] then requests @ [current] else requests);
             current = (if cr_messages current \<noteq> [] then cr_new else current)
         in splice (requests @ [current\<lparr>cr_messages := cr_messages current @ [m]\<rparr>]) cr_new ms)
      else Inl (UnexpectedMessage CHR ''S'' code))"

definition spliced :: "('ast, 'o) client_request \<Rightarrow> net_error + ('ast, 'o) client_request list" where
  "spliced r =
     (if length (filter (\<lambda>m. pm_code m = CHR ''E'') (cr_messages r)) \<le> 1 then Inr []
      else splice [] cr_new (cr_messages r))"

section \<open>Properties of the split\<close>

abbreviation "not_flush \<equiv> \<lambda>m. pm_code m \<noteq> CHR ''H''"

abbreviation "executes \<equiv> filter (\<lambda>m. pm_code m = CHR ''E'')"

text \<open>What the engine needs of a request: something else than a \<^verbatim>\<open>Flush\<close> to begin with, at most one \<^verbatim>\<open>Execute\<close>, which a
  \<^verbatim>\<open>Flush\<close> follows so that the server answers, and a \<^verbatim>\<open>Sync\<close> only by itself.\<close>

definition servable :: "protocol_message list \<Rightarrow> bool" where
  "servable ms \<longleftrightarrow>
     ms \<noteq> [] \<and> not_flush (hd ms)
     \<and> (executes ms = [] \<or> (\<exists>before e. ms = before @ [e, flush_message] \<and> executes ms = [e]))
     \<and> (list_ex (\<lambda>m. pm_code m = CHR ''S'') ms \<longrightarrow> length ms = 1)"

definition collecting :: "protocol_message list \<Rightarrow> bool" where
  "collecting ms \<longleftrightarrow> (ms = [] \<or> not_flush (hd ms)) \<and> executes ms = [] \<and> \<not> list_ex (\<lambda>m. pm_code m = CHR ''S'') ms"

definition spliceable :: "protocol_message \<Rightarrow> bool" where
  "spliceable m \<longleftrightarrow> pm_code m \<in> {CHR ''P'', CHR ''B'', CHR ''D'', CHR ''C'', CHR ''H'', CHR ''E'', CHR ''S''}"

lemma cr_messages_push [simp]: "cr_messages (cr_push r m) = cr_messages r @ [m]"
  by (simp add: cr_push_def Let_def split: protocol_message.split)

lemma cr_messages_new [simp]: "cr_messages cr_new = []"
  by (simp add: cr_new_def)

lemma flush_code [simp]: "pm_code flush_message = CHR ''H''"
  by (simp add: flush_message_def new_message_def)

lemma collecting_Nil [simp]: "collecting []"
  by (simp add: collecting_def)

lemma collecting_snoc:
  "collecting ms \<Longrightarrow> pm_code m \<notin> {CHR ''E'', CHR ''S''} \<Longrightarrow> ms \<noteq> [] \<or> not_flush m \<Longrightarrow> collecting (ms @ [m])"
  by (cases ms) (auto simp: collecting_def)

lemma collecting_servable: "collecting ms \<Longrightarrow> ms \<noteq> [] \<Longrightarrow> servable ms"
  by (simp add: collecting_def servable_def)

lemma collecting_execute: "collecting ms \<Longrightarrow> pm_code e = CHR ''E'' \<Longrightarrow> servable (ms @ [e, flush_message])"
  by (cases ms) (auto simp: collecting_def servable_def)

lemma sync_servable: "pm_code m = CHR ''S'' \<Longrightarrow> servable [m]"
  by (simp add: servable_def)

lemma splice_Cons_cases:
  assumes "pm_code m = c"
  shows "c \<in> {CHR ''P'', CHR ''B'', CHR ''D'', CHR ''C''} \<Longrightarrow> splice rs cur (m # ms) = splice rs (cr_push cur m) ms"
    and "c = CHR ''H'' \<Longrightarrow> splice rs cur (m # ms) =
      (if cr_messages cur \<noteq> [] \<and> pm_code (last (cr_messages cur)) \<noteq> CHR ''H'' then splice rs (cr_push cur m) ms
       else splice rs cur ms)"
    and "c = CHR ''E'' \<Longrightarrow> splice rs cur (m # ms) =
      splice (rs @ [cur\<lparr>cr_messages := cr_messages cur @ [m, flush_message]\<rparr>]) cr_new ms"
    and "c = CHR ''S'' \<Longrightarrow> cr_messages cur \<noteq> [] \<Longrightarrow> splice rs cur (m # ms) =
      splice (rs @ [cur, cr_new\<lparr>cr_messages := [m]\<rparr>]) cr_new ms"
    and "c = CHR ''S'' \<Longrightarrow> cr_messages cur = [] \<Longrightarrow> splice rs cur (m # ms) =
      splice (rs @ [cur\<lparr>cr_messages := [m]\<rparr>]) cr_new ms"
    and "\<not> spliceable m \<Longrightarrow> splice rs cur (m # ms) = Inl (UnexpectedMessage CHR ''S'' c)"
  using assms by (auto simp: Let_def spliceable_def)

declare splice.simps(2) [simp del]

lemma splice_facts:
  assumes "list_all spliceable ms" "list_all (\<lambda>q. servable (cr_messages q)) rs" "collecting (cr_messages cur)"
  shows "\<exists>out. splice rs cur ms = Inr out \<and> list_all (\<lambda>q. servable (cr_messages q)) out
    \<and> filter not_flush (concat (map cr_messages out))
      = filter not_flush (concat (map cr_messages rs) @ cr_messages cur @ ms)"
  using assms
proof (induction ms arbitrary: rs cur)
  case Nil
  then show ?case using collecting_servable [OF Nil(3)] by (cases "cr_messages cur = []") auto
next
  case (Cons m ms)
  note cases = splice_Cons_cases [of m "pm_code m", OF refl, where rs = rs and cur = cur and ms = ms]
  from Cons.prems(1) have ms: "list_all spliceable ms"
    and code: "pm_code m \<in> {CHR ''P'', CHR ''B'', CHR ''D'', CHR ''C'', CHR ''H'', CHR ''E'', CHR ''S''}"
    by (simp_all add: spliceable_def [of m] split: if_splits)
  note IH = Cons.IH [OF ms]
  from code consider
      (plain) "pm_code m \<in> {CHR ''P'', CHR ''B'', CHR ''D'', CHR ''C''}"
    | (flush) "pm_code m = CHR ''H''" | (execute) "pm_code m = CHR ''E''" | (sync) "pm_code m = CHR ''S''"
    by blast
  then show ?case
  proof cases
    case plain
    then have "collecting (cr_messages (cr_push cur m))" using collecting_snoc [OF Cons.prems(3), of m] by auto
    from IH [OF Cons.prems(2) this] cases(1) [OF plain] show ?thesis by simp
  next
    case flush
    then have "collecting (cr_messages (cr_push cur m))" if "cr_messages cur \<noteq> []"
      using collecting_snoc [OF Cons.prems(3), of m] that by simp
    from IH [OF Cons.prems(2) this] IH [OF Cons.prems(2,3)] cases(2) [OF flush] flush show ?thesis by auto
  next
    case execute
    have "list_all (\<lambda>q. servable (cr_messages q)) (rs @ [cur\<lparr>cr_messages := cr_messages cur @ [m, flush_message]\<rparr>])"
      using Cons.prems(2) collecting_execute [OF Cons.prems(3) execute] by simp
    from IH [OF this, of cr_new] cases(3) [OF execute] execute show ?thesis by simp
  next
    case sync
    note s = sync_servable [OF sync]
    show ?thesis
    proof (cases "cr_messages cur = []")
      case True
      from Cons.prems(2) s have "list_all (\<lambda>q. servable (cr_messages q)) (rs @ [cur\<lparr>cr_messages := [m]\<rparr>])" by simp
      from IH [OF this, of cr_new] cases(5) [OF sync True] sync True show ?thesis by simp
    next
      case False
      from Cons.prems(2) s collecting_servable [OF Cons.prems(3) False]
      have "list_all (\<lambda>q. servable (cr_messages q)) (rs @ [cur, cr_new\<lparr>cr_messages := [m]\<rparr>])" by simp
      from IH [OF this, of cr_new] cases(4) [OF sync False] sync show ?thesis by simp
    qed
  qed
qed

lemma splice_refuses:
  assumes "\<not> list_all spliceable ms"
  shows "\<exists>c. splice rs cur ms = Inl (UnexpectedMessage CHR ''S'' c)"
  using assms
proof (induction ms arbitrary: rs cur)
  case (Cons m ms)
  show ?case
  proof (cases "spliceable m")
    case True
    with Cons.prems have "\<not> list_all spliceable ms" by simp
    from Cons.IH [OF this] True show ?thesis by (auto simp: splice.simps Let_def spliceable_def)
  next
    case False
    then show ?thesis by (intro exI) (rule splice_Cons_cases(6) [OF refl])
  qed
qed simp

text \<open>C31: a pipeline that executes several statements is split without losing, duplicating or reordering a message other
  than \<^verbatim>\<open>Flush\<close>; each part executes at most one statement and asks for the replies right after it, begins with something else
  than a \<^verbatim>\<open>Flush\<close>, and has a \<^verbatim>\<open>Sync\<close> only by itself. Exactly the messages that do not belong to the extended
  protocol are refused.\<close>

theorem splice_correct:
  fixes r :: "('ast, 'o) client_request"
  assumes "length (executes (cr_messages r)) > 1"
  shows "(case spliced r of
      Inl e \<Rightarrow> \<not> list_all spliceable (cr_messages r) \<and> (\<exists>c. e = UnexpectedMessage CHR ''S'' c)
    | Inr rs \<Rightarrow> list_all spliceable (cr_messages r)
        \<and> filter not_flush (concat (map cr_messages rs)) = filter not_flush (cr_messages r)
        \<and> list_all (\<lambda>q. servable (cr_messages q)) rs)"
proof (cases "list_all spliceable (cr_messages r)")
  case True
  obtain out :: "('ast, 'o) client_request list" where "splice [] cr_new (cr_messages r) = Inr out" "list_all (\<lambda>q. servable (cr_messages q)) out"
    "filter not_flush (concat (map cr_messages out)) = filter not_flush (cr_messages r)"
    using splice_facts [OF True, of "[]" cr_new] by auto
  with assms True show ?thesis by (simp add: spliced_def)
next
  case False
  from splice_refuses [OF this, of "[]" "cr_new :: ('ast, 'o) client_request"] obtain c
    where "splice [] (cr_new :: ('ast, 'o) client_request) (cr_messages r) = Inl (UnexpectedMessage CHR ''S'' c)" by auto
  with assms False show ?thesis by (simp add: spliced_def)
qed

definition pipeline_demo :: "protocol_message list" where
  "pipeline_demo =
     [PParse (parse_new_anonymous ''q''), PBind bind_default, PExecute execute_new,
      PBind bind_default, PExecute execute_new, PParse (parse_named ''s'' ''t''), PSync]"

lemma pipeline_demo_spliced:
  "map cr_messages (projr (spliced (cr_from_messages pipeline_demo :: (unit, unit) client_request))) =
     [[PParse (parse_new_anonymous ''q''), PBind bind_default, PExecute execute_new, flush_message],
      [PBind bind_default, PExecute execute_new, flush_message], [PParse (parse_named ''s'' ''t'')], [PSync]]"
  by (simp add: spliced_def cr_from_messages_def pipeline_demo_def splice.simps)

theorem splice_correct_witness:
  "length (executes (cr_messages (cr_from_messages pipeline_demo :: (unit, unit) client_request))) = 2
   \<and> (case spliced (cr_from_messages pipeline_demo :: (unit, unit) client_request) of
        Inl e \<Rightarrow> False
      | Inr rs \<Rightarrow> filter not_flush (concat (map cr_messages rs)) = pipeline_demo)"
proof -
  let ?r = "cr_from_messages pipeline_demo :: (unit, unit) client_request"
  have n: "length (executes (cr_messages ?r)) = 2" and ok: "list_all spliceable (cr_messages ?r)"
    and all: "filter not_flush (cr_messages ?r) = pipeline_demo"
    by (simp_all add: cr_from_messages_def pipeline_demo_def spliceable_def)
  with splice_correct [of ?r] show ?thesis by (simp split: sum.splits)
qed

text \<open>Whatever follows the last \<^verbatim>\<open>Execute\<close> of a pipeline becomes a request of its own, before the \<^verbatim>\<open>Sync\<close> and without
  a \<^verbatim>\<open>Flush\<close>. It is not a complete request: the server keeps the replies to it back until the \<^verbatim>\<open>Sync\<close>, which the engine
  sends only once it has read them.\<close>

theorem trailing_request_unflushed:
  assumes "length (executes ms) > 1" "list_all spliceable ms" "pm_code (last ms) = CHR ''E''"
    and "pm_code m \<in> {CHR ''P'', CHR ''B'', CHR ''D'', CHR ''C''}"
  shows "\<exists>rs request. spliced (cr_from_messages (ms @ [m, PSync]) :: ('ast, 'o) client_request) = Inr (rs @ [request, cr_from_messages [PSync]])
    \<and> cr_messages request = [m] \<and> \<not> is_complete request"
proof -
  have *: "\<exists>out. splice rs cur (ms @ [m, PSync]) = Inr (out @ [cr_push cr_new m, cr_from_messages [PSync]])"
    if "list_all spliceable ms" "ms \<noteq> []" "pm_code (last ms) = CHR ''E''" for ms rs and cur :: "('ast, 'o) client_request"
    using that
  proof (induction ms arbitrary: rs cur)
    case (Cons k ms)
    show ?case
    proof (cases "ms = []")
      case True
      with Cons.prems(3) have "pm_code k = CHR ''E''" by simp
      with True assms(4) show ?thesis by (auto simp: splice.simps cr_new_def cr_from_messages_def)
    next
      case False
      with Cons.prems have ms: "list_all spliceable ms" "pm_code (last ms) = CHR ''E''" by simp_all
      from Cons.IH [OF ms(1) False ms(2)] Cons.prems(1) show ?thesis
        by (auto simp: splice.simps Let_def spliceable_def)
    qed
  qed simp
  have "ms \<noteq> []" using assms(1) by auto
  from * [OF assms(2) this assms(3), of "[]" cr_new] obtain rs :: "('ast, 'o) client_request list"
    where rs: "splice [] cr_new (ms @ [m, PSync]) = Inr (rs @ [cr_push cr_new m, cr_from_messages [PSync]])" by blast
  have "spliced (cr_from_messages (ms @ [m, PSync])) = Inr (rs @ [cr_push cr_new m, cr_from_messages [PSync]])"
    using assms(1) rs by (simp add: spliced_def cr_from_messages_def)
  moreover have "\<not> is_complete (cr_push cr_new m)"
    using assms(4) by (auto simp: is_complete_def Let_def pm_streaming_def)
  ultimately show ?thesis by (intro exI [of _ rs] exI [of _ "cr_push cr_new m"]) simp
qed

theorem trailing_request_unflushed_witness:
  "\<exists>rs request. spliced (cr_from_messages pipeline_demo :: (unit, unit) client_request)
      = Inr (rs @ [request, cr_from_messages [PSync]])
    \<and> cr_messages request = [PParse (parse_named ''s'' ''t'')] \<and> \<not> is_complete request"
  using trailing_request_unflushed [of "take 5 pipeline_demo" "PParse (parse_named ''s'' ''t'')"]
  by (simp add: pipeline_demo_def spliceable_def)

text \<open>An anonymous \<^verbatim>\<open>Parse\<close> that several executions of a pipeline use stays with the first of them: the requests after it
  do not know their statement.\<close>

lemma splice_forgets_parse:
  "map (cr_query g) (projr (spliced (cr_from_messages (take 5 pipeline_demo @ [PSync]) :: (unit, unit) client_request)))
   = [Some (BPrepared (parse_new_anonymous ''q'')), None, None]"
  by (simp add: spliced_def cr_from_messages_def pipeline_demo_def splice.simps cr_query_def cr_push_def cr_new_def
      flush_message_def bind_default_def bind_anonymous_def parse_anonymous_def parse_new_anonymous_def)

end
