(* ===== verification/ShardBinding.thy ===== *)
theory ShardBinding
  imports MultiShard ClientRequest PoolInner
begin

text \<open>
  \<^verbatim>\<open>pgdog/src/backend/pool/connection/binding.rs\<close> and the parts of \<^verbatim>\<open>connection/mod.rs\<close> that use it: the servers a client is
  connected to, how a request reaches the ones its route names, and how their replies are read. A server connection is a
  type parameter with the operations of \<^verbatim>\<open>Guard\<close> and \<^verbatim>\<open>Server\<close> in a record, since they go over sockets. Futures
  that are joined run to their end before their results are looked at.
\<close>

section \<open>Servers\<close>

record ('srv, 'req, 'p, 'e) server_ops =
  so_read :: "'srv \<Rightarrow> ('e + message) \<times> 'srv"
  so_has_more_messages :: "'srv \<Rightarrow> bool"
  so_done :: "'srv \<Rightarrow> bool"
  so_out_of_sync :: "'srv \<Rightarrow> bool"
  so_in_copy_mode :: "'srv \<Rightarrow> bool"
  so_state :: "'srv \<Rightarrow> conn_state"
  so_set_state :: "conn_state \<Rightarrow> 'srv \<Rightarrow> 'srv"
  so_send :: "'req \<Rightarrow> 'srv \<Rightarrow> ('e + unit) \<times> 'srv"
  so_send_ignore :: "protocol_message \<Rightarrow> 'srv \<Rightarrow> ('e + unit) \<times> 'srv"
  so_send_one :: "protocol_message \<Rightarrow> 'srv \<Rightarrow> ('e + unit) \<times> 'srv"
  so_execute :: "string \<Rightarrow> 'srv \<Rightarrow> ('e + message list) \<times> 'srv"
  so_error_code :: "'e \<Rightarrow> string option"
  so_transaction_2pc :: "'srv \<Rightarrow> 'srv"
  so_link_client :: "'srv \<Rightarrow> ('e + nat) \<times> 'srv"
  so_params_hook :: "bool \<Rightarrow> 'srv \<Rightarrow> 'srv"
  so_changed_params :: "'srv \<Rightarrow> 'p"
  so_reset_changed_params :: "'srv \<Rightarrow> 'srv"
  so_mark_dirty :: "bool \<Rightarrow> 'srv \<Rightarrow> 'srv"
  so_no_params :: 'p

text \<open>\<^verbatim>\<open>AdminServer\<close>: it answers at once into a queue.\<close>

record ('adm, 'req, 'e) admin_ops =
  ao_send :: "'req \<Rightarrow> 'adm \<Rightarrow> ('e + unit) \<times> 'adm"
  ao_messages :: "'adm \<Rightarrow> message list"
  ao_set_messages :: "message list \<Rightarrow> 'adm \<Rightarrow> 'adm"

datatype ('srv, 'adm, 'o) binding =
    BDirect "'srv option"
  | BAdmin 'adm
  | BMultiShard "'srv list" "'o multi_shard"

datatype 'e binding_error =
    ServerError 'e
  | MultiShardError ms_error
  | DirectToShardNotConnected
  | NotConnected
  | CopyNotConnected
  | TwoPcMultiShardOnly
  | MultiShardNotConnected

text \<open>Outcomes of a read: a message, an error, or a wait that only the cancellation of the read ends.\<close>

datatype 'e read_outcome = Got message | ReadFailed "'e binding_error" | Suspended

section \<open>Connections\<close>

definition b_disconnect :: "('srv, 'adm, 'o) binding \<Rightarrow> ('srv, 'adm, 'o) binding" where
  "b_disconnect b =
     (case b of BDirect _ \<Rightarrow> BDirect None | BAdmin a \<Rightarrow> BAdmin a | BMultiShard _ s \<Rightarrow> BMultiShard [] s)"

text \<open>The guards that are dropped go back to their pools in the state they are marked with.\<close>

definition b_force_close ::
    "('srv, 'req, 'p, 'e) server_ops \<Rightarrow> ('srv, 'adm, 'o) binding \<Rightarrow> 'srv list \<times> ('srv, 'adm, 'o) binding" where
  "b_force_close so b =
     (case b of
        BDirect (Some srv) \<Rightarrow> ([so_set_state so StForceClose srv], b_disconnect b)
      | BMultiShard srvs _ \<Rightarrow> (map (so_set_state so StForceClose) srvs, b_disconnect b)
      | _ \<Rightarrow> ([], b_disconnect b))"

definition b_connected :: "('srv, 'adm, 'o) binding \<Rightarrow> bool" where
  "b_connected b = (case b of BDirect srv \<Rightarrow> srv \<noteq> None | BMultiShard srvs _ \<Rightarrow> srvs \<noteq> [] | BAdmin _ \<Rightarrow> True)"

section \<open>Reading\<close>

text \<open>One pass over the servers: one message of each that has more, until one is for the client. Also whether anything
  was read.\<close>

fun read_pass ::
    "('srv, 'req, 'p, 'e) server_ops \<Rightarrow> 'o type_ops \<Rightarrow> ('o mappings \<Rightarrow> 'o mappings) \<Rightarrow> 'o multi_shard \<Rightarrow> 'srv list \<Rightarrow>
     ('e read_outcome option \<times> bool) \<times> 'o multi_shard \<times> 'srv list" where
  "read_pass so ops iter s [] = ((None, False), s, [])"
| "read_pass so ops iter s (srv # srvs) =
     (if \<not> so_has_more_messages so srv then
        (case read_pass so ops iter s srvs of (r, s, srvs) \<Rightarrow> (r, s, srv # srvs))
      else case so_read so srv of
        (Inl e, srv) \<Rightarrow> ((Some (ReadFailed (ServerError e)), False), s, srv # srvs)
      | (Inr m, srv) \<Rightarrow>
          (case ms_forward ops iter s m of
             (Inl e, s) \<Rightarrow> ((Some (ReadFailed (MultiShardError e)), True), s, srv # srvs)
           | (Inr (Some m), s) \<Rightarrow> ((Some (Got m), True), s, srv # srvs)
           | (Inr None, s) \<Rightarrow>
               (case read_pass so ops iter s srvs of ((r, _), s, srvs) \<Rightarrow> ((r, True), s, srv # srvs))))"

partial_function (option) ms_read ::
    "('srv, 'req, 'p, 'e) server_ops \<Rightarrow> 'o type_ops \<Rightarrow> ('o mappings \<Rightarrow> 'o mappings) \<Rightarrow> 'o multi_shard \<Rightarrow> 'srv list \<Rightarrow>
     ('e read_outcome \<times> 'o multi_shard \<times> 'srv list) option" where
  "ms_read so ops iter s srvs =
     (case ms_message s of
        (Some m, s) \<Rightarrow> Some (Got m, s, srvs)
      | (None, s) \<Rightarrow>
          (case read_pass so ops iter s srvs of
             ((r, read), s, srvs) \<Rightarrow>
               (case r of
                  Some r \<Rightarrow> Some (r, s, srvs)
                | None \<Rightarrow> if read then ms_read so ops iter s srvs else Some (Suspended, ms_reset s, srvs))))"

definition b_read ::
    "('srv, 'req, 'p, 'e) server_ops \<Rightarrow> ('adm, 'req, 'e) admin_ops \<Rightarrow> 'o type_ops \<Rightarrow> ('o mappings \<Rightarrow> 'o mappings) \<Rightarrow>
     ('srv, 'adm, 'o) binding \<Rightarrow> ('e read_outcome \<times> ('srv, 'adm, 'o) binding) option" where
  "b_read so ao ops iter b =
     (case b of
        BDirect None \<Rightarrow> Some (Suspended, b)
      | BDirect (Some srv) \<Rightarrow>
          (case so_read so srv of
             (Inl e, srv) \<Rightarrow> Some (ReadFailed (ServerError e), BDirect (Some srv))
           | (Inr m, srv) \<Rightarrow> Some (Got m, BDirect (Some srv)))
      | BAdmin a \<Rightarrow>
          (case ao_messages ao a of
             m # ms \<Rightarrow> Some (Got m, BAdmin (ao_set_messages ao ms a))
           | [] \<Rightarrow> Some (Suspended, b))
      | BMultiShard srvs s \<Rightarrow>
          if srvs = [] then Some (Suspended, b)
          else map_option (\<lambda>(r, s, srvs). (r, BMultiShard srvs s)) (ms_read so ops iter s srvs))"

section \<open>Sending\<close>

text \<open>Whether the server at a position is one of those a route names, by the number of its shard.\<close>

definition chosen :: "'o multi_shard \<Rightarrow> shard \<Rightarrow> nat \<Rightarrow> bool" where
  "chosen s sh i =
     (case sh of
        ShDirect n \<Rightarrow> n = shard_index s i
      | ShMulti ns \<Rightarrow> shard_index s i \<in> set ns
      | ShAll \<Rightarrow> True)"

definition on_chosen :: "(nat \<Rightarrow> bool) \<Rightarrow> ('srv \<Rightarrow> 'r \<times> 'srv) \<Rightarrow> 'srv list \<Rightarrow> 'r list \<times> 'srv list" where
  "on_chosen pick f srvs =
     (map (\<lambda>i. fst (f (srvs ! i))) (filter pick [0..<length srvs]),
      map (\<lambda>i. if pick i then snd (f (srvs ! i)) else srvs ! i) [0..<length srvs])"

fun first_error :: "('e + 'a) list \<Rightarrow> 'e + unit" where
  "first_error [] = Inr ()"
| "first_error (Inl e # rs) = Inl e"
| "first_error (Inr _ # rs) = first_error rs"

definition shards_sent :: "shard \<Rightarrow> 'srv list \<Rightarrow> nat" where
  "shards_sent sh srvs =
     (if srvs = [] then 0
      else case sh of ShDirect _ \<Rightarrow> 1 | ShMulti ns \<Rightarrow> length ns | ShAll \<Rightarrow> length srvs)"

definition ms_send ::
    "('srv, ('ast, 'o) client_request, 'p, 'e) server_ops \<Rightarrow> ('ast, 'o) client_request \<Rightarrow> 'o multi_shard \<Rightarrow> 'srv list \<Rightarrow>
     ('e binding_error + unit) \<times> 'o multi_shard \<times> 'srv list" where
  "ms_send so req s srvs =
     (let sh = swp_shard (rt_shard (cr_get_route req));
          (results, srvs') = on_chosen (chosen s sh) (so_send so req) srvs
      in case first_error results of
           Inl e \<Rightarrow> (Inl (ServerError e), s, srvs')
         | Inr _ \<Rightarrow>
             (Inr (), (if is_sync_only req then update_shards s (shards_sent sh srvs)
                       else ms_update s (shards_sent sh srvs) (cr_get_route req)), srvs'))"

definition b_send ::
    "('srv, ('ast, 'o) client_request, 'p, 'e) server_ops \<Rightarrow> ('adm, ('ast, 'o) client_request, 'e) admin_ops \<Rightarrow>
     ('ast, 'o) client_request \<Rightarrow> ('srv, 'adm, 'o) binding \<Rightarrow> ('e binding_error + unit) \<times> ('srv, 'adm, 'o) binding" where
  "b_send so ao req b =
     (case b of
        BAdmin a \<Rightarrow> (case ao_send ao req a of (r, a) \<Rightarrow> (map_sum ServerError id r, BAdmin a))
      | BDirect (Some srv) \<Rightarrow> (case so_send so req srv of (r, srv) \<Rightarrow> (map_sum ServerError id r, BDirect (Some srv)))
      | BDirect None \<Rightarrow> (Inl DirectToShardNotConnected, b)
      | BMultiShard srvs s \<Rightarrow> (case ms_send so req s srvs of (r, s, srvs) \<Rightarrow> (r, BMultiShard srvs s)))"

definition b_send_ignore ::
    "('srv, 'req, 'p, 'e) server_ops \<Rightarrow> protocol_message \<Rightarrow> 'o route \<Rightarrow> ('srv, 'adm, 'o) binding \<Rightarrow>
     ('e binding_error + unit) \<times> ('srv, 'adm, 'o) binding" where
  "b_send_ignore so m r b =
     (case b of
        BDirect (Some srv) \<Rightarrow> (case so_send_ignore so m srv of (r, srv) \<Rightarrow> (map_sum ServerError id r, BDirect (Some srv)))
      | BMultiShard srvs s \<Rightarrow>
          (case on_chosen (chosen s (swp_shard (rt_shard r))) (so_send_ignore so m) srvs of
             (results, srvs) \<Rightarrow> (map_sum ServerError id (first_error results), BMultiShard srvs s))
      | _ \<Rightarrow> (Inl NotConnected, b))"

text \<open>A row of \<^verbatim>\<open>COPY\<close> and the shard it goes to. The rows are sent one after the other, and the first error ends it.\<close>

record copy_row =
  row_data :: message
  row_shard :: shard

fun copy_to :: "(nat \<Rightarrow> bool) \<Rightarrow> ('srv \<Rightarrow> ('e + unit) \<times> 'srv) \<Rightarrow> nat \<Rightarrow> 'srv list \<Rightarrow> ('e + unit) \<times> 'srv list" where
  "copy_to pick f i [] = (Inr (), [])"
| "copy_to pick f i (srv # srvs) =
     (if pick i then
        (case f srv of
           (Inl e, srv) \<Rightarrow> (Inl e, srv # srvs)
         | (Inr _, srv) \<Rightarrow> (case copy_to pick f (Suc i) srvs of (r, srvs) \<Rightarrow> (r, srv # srvs)))
      else case copy_to pick f (Suc i) srvs of (r, srvs) \<Rightarrow> (r, srv # srvs))"

fun copy_rows ::
    "('srv, 'req, 'p, 'e) server_ops \<Rightarrow> (shard \<Rightarrow> nat \<Rightarrow> bool) \<Rightarrow> copy_row list \<Rightarrow> 'srv list \<Rightarrow> ('e + unit) \<times> 'srv list" where
  "copy_rows so pick [] srvs = (Inr (), srvs)"
| "copy_rows so pick (row # rows) srvs =
     (case copy_to (pick (row_shard row)) (so_send_one so (PCopyData (row_data row))) 0 srvs of
        (Inl e, srvs) \<Rightarrow> (Inl e, srvs)
      | (Inr _, srvs) \<Rightarrow> copy_rows so pick rows srvs)"

definition b_send_copy ::
    "('srv, 'req, 'p, 'e) server_ops \<Rightarrow> copy_row list \<Rightarrow> ('srv, 'adm, 'o) binding \<Rightarrow>
     ('e binding_error + unit) \<times> ('srv, 'adm, 'o) binding" where
  "b_send_copy so rows b =
     (case b of
        BMultiShard srvs s \<Rightarrow>
          (case copy_rows so (chosen s) rows srvs of (r, srvs) \<Rightarrow> (map_sum ServerError id r, BMultiShard srvs s))
      | BDirect (Some srv) \<Rightarrow>
          (case copy_rows so (\<lambda>_ _. True) rows [srv] of (r, srvs) \<Rightarrow> (map_sum ServerError id r, BDirect (Some (hd srvs))))
      | _ \<Rightarrow> (Inl CopyNotConnected, b))"

section \<open>State of the servers\<close>

definition b_done ::
    "('srv, 'req, 'p, 'e) server_ops \<Rightarrow> ('adm, 'req, 'e) admin_ops \<Rightarrow> ('srv, 'adm, 'o) binding \<Rightarrow> bool" where
  "b_done so ao b =
     (case b of
        BAdmin a \<Rightarrow> ao_messages ao a = []
      | BDirect (Some srv) \<Rightarrow> so_done so srv
      | BMultiShard srvs _ \<Rightarrow> list_all (so_done so) srvs
      | _ \<Rightarrow> True)"

definition b_has_more_messages ::
    "('srv, 'req, 'p, 'e) server_ops \<Rightarrow> ('adm, 'req, 'e) admin_ops \<Rightarrow> ('srv, 'adm, 'o) binding \<Rightarrow> bool" where
  "b_has_more_messages so ao b =
     (case b of
        BAdmin a \<Rightarrow> ao_messages ao a \<noteq> []
      | BDirect (Some srv) \<Rightarrow> so_has_more_messages so srv
      | BMultiShard srvs _ \<Rightarrow> list_ex (so_has_more_messages so) srvs
      | _ \<Rightarrow> False)"

definition b_out_of_sync :: "('srv, 'req, 'p, 'e) server_ops \<Rightarrow> ('srv, 'adm, 'o) binding \<Rightarrow> bool" where
  "b_out_of_sync so b =
     (case b of
        BDirect (Some srv) \<Rightarrow> so_out_of_sync so srv
      | BMultiShard srvs _ \<Rightarrow> list_ex (so_out_of_sync so) srvs
      | _ \<Rightarrow> False)"

definition b_state_check :: "('srv, 'req, 'p, 'e) server_ops \<Rightarrow> conn_state \<Rightarrow> ('srv, 'adm, 'o) binding \<Rightarrow> bool" where
  "b_state_check so st b =
     (case b of
        BDirect (Some srv) \<Rightarrow> so_state so srv = st
      | BMultiShard srvs _ \<Rightarrow> list_all (\<lambda>srv. so_state so srv = st) srvs
      | _ \<Rightarrow> True)"

definition b_in_copy_mode :: "('srv, 'req, 'p, 'e) server_ops \<Rightarrow> ('srv, 'adm, 'o) binding \<Rightarrow> bool" where
  "b_in_copy_mode so b =
     (case b of
        BMultiShard srvs _ \<Rightarrow> list_all (so_in_copy_mode so) srvs
      | BDirect (Some srv) \<Rightarrow> so_in_copy_mode so srv
      | _ \<Rightarrow> False)"

definition b_shards :: "('srv, 'adm, 'o) binding \<Rightarrow> 'e binding_error + nat" where
  "b_shards b =
     (case b of
        BAdmin _ \<Rightarrow> Inr 1
      | BDirect (Some _) \<Rightarrow> Inr 1
      | BMultiShard srvs _ \<Rightarrow> if srvs = [] then Inl MultiShardNotConnected else Inr (length srvs)
      | BDirect None \<Rightarrow> Inl NotConnected)"

definition b_changed_params :: "('srv, 'req, 'p, 'e) server_ops \<Rightarrow> ('srv, 'adm, 'o) binding \<Rightarrow> 'p" where
  "b_changed_params so b =
     (case b of
        BDirect (Some srv) \<Rightarrow> so_changed_params so srv
      | BMultiShard (srv # _) _ \<Rightarrow> so_changed_params so srv
      | _ \<Rightarrow> so_no_params so)"

text \<open>The operations that change every connected server in the same way: \<^verbatim>\<open>transaction_params_hook\<close>,
  \<^verbatim>\<open>reset_changed_params\<close> and \<^verbatim>\<open>dirty\<close>.\<close>

definition b_each :: "('srv \<Rightarrow> 'srv) \<Rightarrow> ('srv, 'adm, 'o) binding \<Rightarrow> ('srv, 'adm, 'o) binding" where
  "b_each f b =
     (case b of
        BDirect (Some srv) \<Rightarrow> BDirect (Some (f srv))
      | BMultiShard srvs s \<Rightarrow> BMultiShard (map f srvs) s
      | _ \<Rightarrow> b)"

definition b_transaction_params_hook ::
    "('srv, 'req, 'p, 'e) server_ops \<Rightarrow> bool \<Rightarrow> ('srv, 'adm, 'o) binding \<Rightarrow> ('srv, 'adm, 'o) binding" where
  "b_transaction_params_hook so rollback = b_each (so_params_hook so rollback)"

definition b_reset_changed_params ::
    "('srv, 'req, 'p, 'e) server_ops \<Rightarrow> ('srv, 'adm, 'o) binding \<Rightarrow> ('srv, 'adm, 'o) binding" where
  "b_reset_changed_params so = b_each (so_reset_changed_params so)"

definition b_dirty ::
    "('srv, 'req, 'p, 'e) server_ops \<Rightarrow> ('srv, 'adm, 'o) binding \<Rightarrow> ('srv, 'adm, 'o) binding" where
  "b_dirty so = b_each (so_mark_dirty so True)"

definition b_link_client ::
    "('srv, 'req, 'p, 'e) server_ops \<Rightarrow> ('srv, 'adm, 'o) binding \<Rightarrow> ('e binding_error + nat) \<times> ('srv, 'adm, 'o) binding" where
  "b_link_client so b =
     (case b of
        BDirect (Some srv) \<Rightarrow> (case so_link_client so srv of (r, srv) \<Rightarrow> (map_sum ServerError id r, BDirect (Some srv)))
      | BMultiShard srvs s \<Rightarrow>
          (let results = map (fst \<circ> so_link_client so) srvs in
           (case first_error results of
              Inl e \<Rightarrow> Inl (ServerError e)
            | Inr _ \<Rightarrow> Inr (foldl max 0 (map projr results)), BMultiShard (map (snd \<circ> so_link_client so) srvs) s))
      | _ \<Rightarrow> (Inr 0, b))"

definition b_execute ::
    "('srv, 'req, 'p, 'e) server_ops \<Rightarrow> string \<Rightarrow> ('srv, 'adm, 'o) binding \<Rightarrow>
     ('e binding_error + message list) \<times> ('srv, 'adm, 'o) binding" where
  "b_execute so query b =
     (case b of
        BDirect (Some srv) \<Rightarrow> (case so_execute so query srv of (r, srv) \<Rightarrow> (map_sum ServerError id r, BDirect (Some srv)))
      | BMultiShard srvs s \<Rightarrow>
          (let results = map (fst \<circ> so_execute so query) srvs in
           (case first_error results of
              Inl e \<Rightarrow> Inl (ServerError e)
            | Inr _ \<Rightarrow> Inr (concat (map projr results)), BMultiShard (map (snd \<circ> so_execute so query) srvs) s))
      | _ \<Rightarrow> (Inr [], b))"

section \<open>Two-phase commit\<close>

datatype two_pc_phase = Phase1 | Phase2 | Rollback2

definition shard_name :: "string \<Rightarrow> nat \<Rightarrow> string" where
  "shard_name name i = name @ ''_'' @ show_nat i"

definition two_pc_query :: "two_pc_phase \<Rightarrow> string \<Rightarrow> string" where
  "two_pc_query phase name =
     (case phase of
        Phase1 \<Rightarrow> ''PREPARE TRANSACTION ''
      | Phase2 \<Rightarrow> ''COMMIT PREPARED ''
      | Rollback2 \<Rightarrow> ''ROLLBACK PREPARED '') @ [CHR 0x27] @ name @ [CHR 0x27]"

definition skips_missing :: "two_pc_phase \<Rightarrow> string option \<Rightarrow> bool" where
  "skips_missing phase code \<longleftrightarrow> (phase = Phase2 \<or> phase = Rollback2) \<and> code = Some ''42704''"

text \<open>All servers execute the statement; then the results are looked at in order, up to the first error that counts.\<close>

fun two_pc_results ::
    "('srv, 'req, 'p, 'e) server_ops \<Rightarrow> two_pc_phase \<Rightarrow> (('e + message list) \<times> 'srv) list \<Rightarrow> ('e + unit) \<times> 'srv list" where
  "two_pc_results so phase [] = (Inr (), [])"
| "two_pc_results so phase ((r, srv) # rest) =
     (case r of
        Inl e \<Rightarrow>
          if skips_missing phase (so_error_code so e)
          then (case two_pc_results so phase rest of (r, srvs) \<Rightarrow> (r, srv # srvs))
          else (Inl e, srv # map snd rest)
      | Inr _ \<Rightarrow>
          (case two_pc_results so phase rest of
             (r, srvs) \<Rightarrow> (r, (if phase = Phase2 then so_transaction_2pc so srv else srv) # srvs)))"

definition two_pc_on_guards ::
    "('srv, 'req, 'p, 'e) server_ops \<Rightarrow> string \<Rightarrow> two_pc_phase \<Rightarrow> 'srv list \<Rightarrow> ('e + unit) \<times> 'srv list" where
  "two_pc_on_guards so name phase srvs =
     two_pc_results so phase
       (map (\<lambda>i. so_execute so (two_pc_query phase (shard_name name i)) (srvs ! i)) [0..<length srvs])"

definition b_two_pc ::
    "('srv, 'req, 'p, 'e) server_ops \<Rightarrow> string \<Rightarrow> two_pc_phase \<Rightarrow> ('srv, 'adm, 'o) binding \<Rightarrow>
     ('e binding_error + unit) \<times> ('srv, 'adm, 'o) binding" where
  "b_two_pc so name phase b =
     (case b of
        BMultiShard srvs s \<Rightarrow>
          (case two_pc_on_guards so name phase srvs of (r, srvs) \<Rightarrow> (map_sum ServerError id r, BMultiShard srvs s))
      | _ \<Rightarrow> (Inl TwoPcMultiShardOnly, b))"

section \<open>Connecting\<close>

text \<open>\<^verbatim>\<open>Connection::try_conn\<close>: one server per shard the route names, in the order of the shards. The checkout from the pools
  of a shard, of its primary or of a replica, and the mark that a session connection is cleaned up are parameters.\<close>

fun checkout_shards :: "(nat \<Rightarrow> 'e + 'srv) \<Rightarrow> nat list \<Rightarrow> 'e + 'srv list" where
  "checkout_shards get [] = Inr []"
| "checkout_shards get (i # is) = and_then (get i) (\<lambda>srv. and_then (checkout_shards get is) (\<lambda>srvs. Inr (srv # srvs)))"

definition connected_shards :: "shard \<Rightarrow> nat \<Rightarrow> nat list" where
  "connected_shards sh n = filter (\<lambda>i. case sh of ShMulti numbers \<Rightarrow> i \<in> set numbers | _ \<Rightarrow> True) [0..<n]"

definition try_conn ::
    "(bool \<Rightarrow> nat \<Rightarrow> 'e + 'srv) \<Rightarrow> nat \<Rightarrow> (('srv \<Rightarrow> 'srv) option) \<Rightarrow> 'o route \<Rightarrow> ('srv, 'adm, 'o) binding \<Rightarrow>
     ('e + unit) \<times> ('srv, 'adm, 'o) binding" where
  "try_conn checkout shards session r b =
     (let mark = (case session of Some f \<Rightarrow> f | None \<Rightarrow> id) in
      case swp_shard (rt_shard r) of
        ShDirect sh \<Rightarrow>
          (case checkout (rt_read r) sh of
             Inl e \<Rightarrow> (Inl e, b)
           | Inr srv \<Rightarrow>
               (Inr (), case b of BAdmin a \<Rightarrow> BAdmin a | _ \<Rightarrow> BDirect (Some (mark srv))))
      | sh \<Rightarrow>
          (let is = connected_shards sh shards in
           case checkout_shards (checkout (rt_read r)) is of
             Inl e \<Rightarrow> (Inl e, b)
           | Inr srvs \<Rightarrow> (Inr (), BMultiShard (map mark srvs) (ms_new is r))))"

text \<open>\<^verbatim>\<open>Connection::handle_client_request\<close>; the split of copied data into rows is the router's.\<close>

definition handle_client_request ::
    "('srv, ('ast, 'o) client_request, 'p, 'e) server_ops \<Rightarrow> ('adm, ('ast, 'o) client_request, 'e) admin_ops \<Rightarrow>
     (('ast, 'o) client_request \<Rightarrow> 'e + copy_row list) \<Rightarrow> bool \<Rightarrow> ('ast, 'o) client_request \<Rightarrow>
     ('srv, 'adm, 'o) binding \<Rightarrow> ('e binding_error + unit) \<times> ('srv, 'adm, 'o) binding" where
  "handle_client_request so ao copy_data streaming req b =
     (if is_copy req \<and> \<not> streaming then
        (case copy_data req of
           Inl e \<Rightarrow> (Inl (ServerError e), b)
         | Inr rows \<Rightarrow>
             if rows \<noteq> [] then
               (case b_send_copy so rows b of
                  (Inl e, b) \<Rightarrow> (Inl e, b)
                | (Inr _, b) \<Rightarrow> b_send so ao (without_copy_data req) b)
             else b_send so ao req b)
      else
        (case (case cr_last_parse req of
                 Some p \<Rightarrow>
                   if needs_parse_injection req then b_send_ignore so (PParse p) (cr_get_route req) b else (Inr (), b)
               | None \<Rightarrow> (Inr (), b)) of
           (Inl e, b) \<Rightarrow> (Inl e, b)
         | (Inr _, b) \<Rightarrow> b_send so ao req b))"

definition conn_bind ::
    "row_description global_cache \<Rightarrow> bind \<Rightarrow> ('srv, 'adm, 'o) binding \<Rightarrow> ('srv, 'adm, 'o) binding" where
  "conn_bind g bi b =
     (case b of BMultiShard srvs s \<Rightarrow> BMultiShard srvs (ms_set_context g s (ContextBind bi)) | _ \<Rightarrow> b)"

section \<open>Requests reach the shards of their route\<close>

text \<open>The shards a route names among the connected ones, and that it names each once and only connected ones.\<close>

definition names_shard :: "shard \<Rightarrow> nat \<Rightarrow> bool" where
  "names_shard sh n = (case sh of ShDirect k \<Rightarrow> n = k | ShMulti ns \<Rightarrow> n \<in> set ns | ShAll \<Rightarrow> True)"

definition within :: "shard \<Rightarrow> nat list \<Rightarrow> bool" where
  "within sh is = (case sh of ShDirect k \<Rightarrow> k \<in> set is | ShMulti ns \<Rightarrow> distinct ns \<and> set ns \<subseteq> set is | ShAll \<Rightarrow> True)"

lemma chosen_names: "i < length (ms_shard_indices s) \<Longrightarrow> chosen s sh i \<longleftrightarrow> names_shard sh (ms_shard_indices s ! i)"
  by (cases sh) (auto simp: chosen_def names_shard_def shard_index_def)

lemma length_filter_set: "distinct xs \<Longrightarrow> length (filter P xs) = card {x \<in> set xs. P x}"
  using distinct_card [of "filter P xs"] by simp

lemma named_count:
  assumes "distinct is" "within sh is" "is \<noteq> []" "length srvs = length is"
  shows "shards_sent sh srvs = length (filter (names_shard sh) is)"
proof -
  have "srvs \<noteq> []" using assms(3,4) by auto
  moreover have "{n \<in> set is. n \<in> set ns} = set ns" if "set ns \<subseteq> set is" for ns using that by auto
  moreover have "{n \<in> set is. n = k} = {k}" if "k \<in> set is" for k using that by auto
  ultimately show ?thesis
    using assms by (cases sh) (simp_all add: shards_sent_def within_def names_shard_def length_filter_set distinct_card)
qed

lemma checkout_shards_length: "checkout_shards get is = Inr srvs \<Longrightarrow> length srvs = length is"
  by (induction "is" arbitrary: srvs) (auto simp: and_then_eq_Inr)


definition counting_ops :: "(nat, (unit, unit) client_request, unit, unit) server_ops" where
  "counting_ops =
     \<lparr>so_read = (\<lambda>n. (Inl (), n)), so_has_more_messages = (\<lambda>_. False), so_done = (\<lambda>_. True),
      so_out_of_sync = (\<lambda>_. False), so_in_copy_mode = (\<lambda>_. False), so_state = (\<lambda>_. StIdle), so_set_state = (\<lambda>_ n. n),
      so_send = (\<lambda>_ n. (Inr (), n + 1)), so_send_ignore = (\<lambda>_ n. (Inr (), n)), so_send_one = (\<lambda>_ n. (Inr (), n)),
      so_execute = (\<lambda>_ n. (Inr [], n)), so_error_code = (\<lambda>_. None), so_transaction_2pc = (\<lambda>n. n),
      so_link_client = (\<lambda>n. (Inr 0, n)), so_params_hook = (\<lambda>_ n. n), so_changed_params = (\<lambda>_. ()),
      so_reset_changed_params = (\<lambda>n. n), so_mark_dirty = (\<lambda>_ n. n), so_no_params = ()\<rparr>"

definition request_to :: "shard \<Rightarrow> (unit, unit) client_request" where
  "request_to sh = (cr_from_messages [PParse (parse_named ''s'' ''q''), PSync])\<lparr>cr_route := Some (route_write (new_comment sh))\<rparr>"


section \<open>Two-phase commit\<close>

lemma two_pc_results_outcome:
  "fst (two_pc_results so phase rs) = Inr () \<longleftrightarrow>
     list_all (\<lambda>(r, srv). case r of Inl e \<Rightarrow> skips_missing phase (so_error_code so e) | Inr _ \<Rightarrow> True) rs"
  "length (snd (two_pc_results so phase rs)) = length rs"
  by (induction so phase rs rule: two_pc_results.induct) (auto split: sum.splits prod.splits)


end
