(* ===== verification/CrossShardRead.thy ===== *)
theory CrossShardRead
  imports ShardBinding
begin

text \<open>
  What a client reads when a statement ran on several shards: the loop of \<^verbatim>\<open>client_server_exchange\<close> in
  \<^verbatim>\<open>query_engine/query.rs\<close> over the read loop of the binding and the merge of the replies. The servers may answer in any
  rhythm; the client gets one description, the merged rows, one completion and one \<^verbatim>\<open>ReadyForQuery\<close>.
\<close>

section \<open>The exchange\<close>

datatype 'e exchange_end = Finished | Failed "'e binding_error" | Hangs

text \<open>Messages are read while a server has more, is not in copy mode and the last message was not part of a stream.\<close>

partial_function (option) exchange ::
    "('srv, 'req, 'p, 'e) server_ops \<Rightarrow> ('adm, 'req, 'e) admin_ops \<Rightarrow> 'o type_ops \<Rightarrow> ('o mappings \<Rightarrow> 'o mappings) \<Rightarrow>
     bool \<Rightarrow> ('srv, 'adm, 'o) binding \<Rightarrow> (message list \<times> 'e exchange_end \<times> ('srv, 'adm, 'o) binding) option" where
  "exchange so ao ops iter streaming b =
     (if b_has_more_messages so ao b \<and> \<not> b_in_copy_mode so b \<and> \<not> streaming then
        Option.bind (b_read so ao ops iter b) (\<lambda>(outcome, b).
          case outcome of
            Got m \<Rightarrow>
              Option.bind (exchange so ao ops iter (msg_stream m) b) (\<lambda>(ms, end, b). Some (m # ms, end, b))
          | ReadFailed e \<Rightarrow> Some ([], Failed e, b)
          | Suspended \<Rightarrow> Some ([], Hangs, b))
      else Some ([], Finished, b))"

section \<open>What the servers send\<close>

text \<open>A server that hands out the messages it has, and is not in copy mode.\<close>

definition serves :: "('srv, 'req, 'p, 'e) server_ops \<Rightarrow> ('srv \<Rightarrow> message list) \<Rightarrow> bool" where
  "serves so pending \<longleftrightarrow>
     (\<forall>srv. so_has_more_messages so srv = (pending srv \<noteq> [])
        \<and> \<not> so_in_copy_mode so srv
        \<and> (\<forall>m ms. pending srv = m # ms \<longrightarrow> (\<exists>srv'. so_read so srv = (Inr m, srv') \<and> pending srv' = ms)))"

definition good_description :: "string list \<Rightarrow> message \<Rightarrow> bool" where
  "good_description names m \<longleftrightarrow>
     msg_code m = CHR ''T'' \<and> \<not> msg_stream m
     \<and> (case rd_from_bytes (payload m) of Inr rd \<Rightarrow> map field_name (rd_fields rd) = names | Inl _ \<Rightarrow> False)"

definition good_row :: "nat \<Rightarrow> message \<Rightarrow> bool" where
  "good_row w m \<longleftrightarrow>
     msg_code m = CHR ''D'' \<and> (case dr_from_bytes (payload m) of Inr row \<Rightarrow> length row = w | Inl _ \<Rightarrow> False)"

definition row_of :: "message \<Rightarrow> data_row" where
  "row_of m = projr (dr_from_bytes (payload m))"

definition good_complete :: "message \<Rightarrow> bool" where
  "good_complete m \<longleftrightarrow>
     msg_code m = CHR ''C'' \<and> cc_from_bytes (payload m) = Inr (payload m) \<and> cc_rows (payload m) \<noteq> None"

definition good_ready :: "message \<Rightarrow> bool" where
  "good_ready m \<longleftrightarrow> msg_code m = CHR ''Z'' \<and> \<not> msg_stream m \<and> transaction_error m \<noteq> None"

text \<open>What is left of the replies of a server: rows, completion and readiness, or only the last, or nothing.\<close>

datatype phase = PhRows "message list" message message | PhLast message | PhDone

fun remaining :: "phase \<Rightarrow> message list" where
  "remaining (PhRows ds c z) = ds @ [c, z]"
| "remaining (PhLast z) = [z]"
| "remaining PhDone = []"

fun phase_ok :: "nat \<Rightarrow> phase \<Rightarrow> bool" where
  "phase_ok w (PhRows ds c z) \<longleftrightarrow> list_all (good_row w) ds \<and> good_complete c \<and> good_ready z"
| "phase_ok w (PhLast z) \<longleftrightarrow> good_ready z"
| "phase_ok w PhDone \<longleftrightarrow> True"

text \<open>One message is taken of a server.\<close>

fun advance :: "phase \<Rightarrow> phase" where
  "advance (PhRows (d # ds) c z) = PhRows ds c z"
| "advance (PhRows [] c z) = PhLast z"
| "advance (PhLast z) = PhDone"
| "advance PhDone = PhDone"

fun taken_rows :: "phase \<Rightarrow> data_row list" where
  "taken_rows (PhRows (d # ds) c z) = [row_of d]"
| "taken_rows _ = []"

fun left_rows :: "phase \<Rightarrow> data_row list" where
  "left_rows (PhRows ds c z) = map row_of ds"
| "left_rows _ = []"

definition unfinished :: "phase \<Rightarrow> bool" where
  "unfinished ph = (case ph of PhRows _ _ _ \<Rightarrow> True | _ \<Rightarrow> False)"

definition completing :: "phase \<Rightarrow> bool" where
  "completing ph = (case ph of PhRows [] _ _ \<Rightarrow> True | _ \<Rightarrow> False)"

definition pending_ready :: "phase \<Rightarrow> bool" where
  "pending_ready ph = (case ph of PhLast _ \<Rightarrow> True | _ \<Rightarrow> False)"

definition how_many :: "('a \<Rightarrow> bool) \<Rightarrow> 'a list \<Rightarrow> nat" where
  "how_many P xs = length (filter P xs)"

fun ready_of :: "phase \<Rightarrow> message list" where
  "ready_of (PhRows ds c z) = [z]"
| "ready_of (PhLast z) = [z]"
| "ready_of PhDone = []"

definition in_error :: "message \<Rightarrow> bool" where
  "in_error m \<longleftrightarrow> transaction_error m = Some True"

text \<open>The merged rows: what the buffer makes of the rows in the order they arrived.\<close>

definition merge_rows ::
    "'o type_ops \<Rightarrow> ('o mappings \<Rightarrow> 'o mappings) \<Rightarrow> 'o route \<Rightarrow> decoder \<Rightarrow> data_row set \<Rightarrow> data_row list \<Rightarrow>
     rows_error + data_row list" where
  "merge_rows ops iter r dec seen arrived =
     (if arrived = [] then Inr []
      else case buffer_aggregate ops iter \<lparr>buf_rows = arrived, buf_full = True, buf_distinct = seen\<rparr>
                  (rt_aggregate r) dec (rt_rewrite_plan r) of
        (Inl e, _) \<Rightarrow> Inl e
      | (Inr _, b) \<Rightarrow>
          Inr (buf_rows (buffer_limit (buffer_distinct (buffer_sort ops b (rt_order_by r) dec) (rt_distinct r) dec) (rt_limit r))))"

section \<open>States of the merge\<close>

text \<open>Rows are gathered, with \<open>k\<close> completions and \<open>z\<close> ready messages counted.\<close>

definition gathering ::
    "'o route \<Rightarrow> nat \<Rightarrow> decoder \<Rightarrow> nat \<Rightarrow> data_row set \<Rightarrow> nat \<Rightarrow> nat \<Rightarrow> bool \<Rightarrow> data_row list \<Rightarrow> 'o multi_shard \<Rightarrow> bool" where
  "gathering r n dec w seen k z err arrived s \<longleftrightarrow>
     ms_shards s = n \<and> ms_route s = r \<and> ms_decoder s = dec
     \<and> ms_buffer s = \<lparr>buf_rows = arrived, buf_full = False, buf_distinct = seen\<rparr>
     \<and> cn_command_complete_count (ms_counters s) = k \<and> cn_ready_for_query (ms_counters s) = z
     \<and> cn_transaction_error (ms_counters s) = err \<and> cn_command_complete (ms_counters s) = None
     \<and> va_expected_column_count (ms_validator s) \<in> {None, Some w}"

text \<open>All completions are in: rows and the completion are handed out.\<close>

definition draining ::
    "nat \<Rightarrow> nat \<Rightarrow> bool \<Rightarrow> data_row list \<Rightarrow> message option \<Rightarrow> 'o multi_shard \<Rightarrow> bool" where
  "draining n z err rows cc s \<longleftrightarrow>
     ms_shards s = n \<and> buf_rows (ms_buffer s) = rows \<and> buf_full (ms_buffer s)
     \<and> cn_ready_for_query (ms_counters s) = z \<and> cn_transaction_error (ms_counters s) = err
     \<and> cn_command_complete (ms_counters s) = cc"

definition merging ::
    "'o type_ops \<Rightarrow> ('o mappings \<Rightarrow> 'o mappings) \<Rightarrow> 'o route \<Rightarrow> nat \<Rightarrow> decoder \<Rightarrow> nat \<Rightarrow> data_row set \<Rightarrow> nat \<Rightarrow> nat \<Rightarrow>
     bool \<Rightarrow> data_row list \<Rightarrow> message set \<Rightarrow> 'o multi_shard \<Rightarrow> bool" where
  "merging ops iter r n dec w seen k z err arrived cs s \<longleftrightarrow>
     (if k < n then gathering r n dec w seen k z err arrived s
      else \<exists>out. \<exists>c\<in>cs. merge_rows ops iter r dec seen arrived = Inr out
        \<and> draining n z err out (Some (cc_message (cc_rewrite (payload c) (length out)))) s)"

section \<open>One message\<close>

lemma not_dvd_between: "0 < k \<Longrightarrow> k < n \<Longrightarrow> \<not> n dvd (k::nat)"
  by (rule nat_dvd_not_less)

lemma forward_row:
  assumes "gathering r n dec w seen k z err arrived s" "good_row w m" "1 < n" "route_should_buffer r" "\<not> is_omni r"
  shows "\<exists>s'. ms_forward ops iter s m = (Inr None, s') \<and> gathering r n dec w seen k z err (arrived @ [row_of m]) s'"
proof -
  from assms(2) obtain row where row: "msg_code m = CHR ''D''" "dr_from_bytes (payload m) = Inr row" "length row = w"
    by (auto simp: good_row_def split: sum.splits)
  show ?thesis
    using assms row
    by (auto simp: ms_forward_def forward_data_row_def gathering_def validate_data_row_def ms_should_buffer_def
        buffer_add_def row_of_def Let_def)
qed

lemma forward_ready_counted:
  assumes "good_ready m" "ms_shards s = n" "cn_ready_for_query (ms_counters s) = z"
  shows "ms_forward ops iter s m =
    (Inr (if n dvd Suc z then Some (if cn_transaction_error (ms_counters s) \<or> in_error m then rfq_message rfq_error else m)
          else None),
     s\<lparr>ms_counters := (ms_counters s)\<lparr>cn_ready_for_query := Suc z,
        cn_transaction_error := cn_transaction_error (ms_counters s) \<or> in_error m\<rparr>\<rparr>)"
  using assms by (auto simp: ms_forward_def forward_ready_def good_ready_def in_error_def Let_def)

lemma forward_complete_more:
  assumes "gathering r n dec w seen k z err arrived s" "good_complete m" "Suc k < n"
  shows "\<exists>s'. ms_forward ops iter s m = (Inr None, s') \<and> gathering r n dec w seen (Suc k) z err arrived s'"
proof -
  from assms(2) obtain c where "msg_code m = CHR ''C''" "cc_from_bytes (payload m) = Inr (payload m)" "cc_rows (payload m) = Some c"
    by (auto simp: good_complete_def)
  moreover have "\<not> n dvd Suc k" using assms(3) by (simp add: not_dvd_between)
  ultimately show ?thesis
    using assms(1) by (auto simp: ms_forward_def forward_command_complete_def count_command_def gathering_def Let_def)
qed

lemma finish_rows_merge:
  assumes "ms_buffer s = \<lparr>buf_rows = arrived, buf_full = False, buf_distinct = seen\<rparr>" "ms_route s = r" "ms_decoder s = dec"
    and "merge_rows ops iter r dec seen arrived = Inr out"
  shows "\<exists>b. finish_rows ops iter s = (Inr (), s\<lparr>ms_buffer := b\<rparr>) \<and> buf_rows b = out \<and> buf_full b"
proof (cases "arrived = []")
  case True
  with assms show ?thesis
    by (auto simp: finish_rows_def merge_rows_def buffer_full_def buffer_is_empty_def buffer_len_def Let_def)
next
  case False
  then have full: "buffer_full (ms_buffer s) = \<lparr>buf_rows = arrived, buf_full = True, buf_distinct = seen\<rparr>"
    and nonempty: "\<not> buffer_is_empty \<lparr>buf_rows = arrived, buf_full = True, buf_distinct = seen\<rparr>"
    using assms(1) by (simp_all add: buffer_full_def buffer_is_empty_def buffer_len_def)
  obtain res b where b: "buffer_aggregate ops iter \<lparr>buf_rows = arrived, buf_full = True, buf_distinct = seen\<rparr>
      (rt_aggregate r) dec (rt_rewrite_plan r) = (res, b)" by fastforce
  have "buf_full b" using b
    by (auto simp: buffer_aggregate_def Let_def split: sum.splits)
  moreover have "buf_full (buffer_limit (buffer_distinct (buffer_sort ops b cols dec) d dec) l) = buf_full b" for cols d l
    by (simp add: buffer_limit_def buffer_distinct_def buffer_sort_def Let_def split: option.split prod.split)
  ultimately show ?thesis
    using assms(2-4) False b full nonempty
    by (cases res) (auto simp: finish_rows_def merge_rows_def Let_def)
qed

lemma forward_complete_last:
  assumes "gathering r n dec w seen k z err arrived s" "good_complete m" "Suc k = n" "1 < n"
    and "route_should_buffer r" "\<not> is_omni r" "merge_rows ops iter r dec seen arrived = Inr out"
  shows "\<exists>s'. ms_forward ops iter s m = (Inr None, s')
    \<and> draining n z err out (Some (cc_message (cc_rewrite (payload m) (length out)))) s'"
proof -
  from assms(2) obtain c where m: "msg_code m = CHR ''C''" "cc_from_bytes (payload m) = Inr (payload m)" "cc_rows (payload m) = Some c"
    by (auto simp: good_complete_def)
  let ?s = "count_command s (Some c)"
  have s: "ms_buffer ?s = \<lparr>buf_rows = arrived, buf_full = False, buf_distinct = seen\<rparr>" "ms_route ?s = r"
    "ms_decoder ?s = dec" "ms_shards ?s = n" "cn_command_complete_count (ms_counters ?s) = n"
    "cn_ready_for_query (ms_counters ?s) = z" "cn_transaction_error (ms_counters ?s) = err"
    using assms(1,3) by (auto simp: count_command_def gathering_def Let_def)
  from finish_rows_merge [OF s(1-3) assms(7)] obtain b
    where b: "finish_rows ops iter ?s = (Inr (), ?s\<lparr>ms_buffer := b\<rparr>)" "buf_rows b = out" "buf_full b" by blast
  show ?thesis
    using assms(4-6) m s b
    by (auto simp: ms_forward_def forward_command_complete_def draining_def ms_should_buffer_def buffer_len_def Let_def)
qed

section \<open>One pass over the servers\<close>

definition erring :: "phase \<Rightarrow> bool" where
  "erring ph = (case ph of PhLast z \<Rightarrow> in_error z | _ \<Rightarrow> False)"

fun completes :: "phase \<Rightarrow> message set" where
  "completes (PhRows ds c z) = {c}"
| "completes _ = {}"

lemmas phase_defs = unfinished_def completing_def pending_ready_def erring_def

lemma phase_simps [simp]:
  "unfinished (PhRows ds c z)" "\<not> unfinished (PhLast z)" "\<not> unfinished PhDone"
  "completing (PhRows ds c z) \<longleftrightarrow> ds = []" "\<not> completing (PhLast z)" "\<not> completing PhDone"
  "\<not> pending_ready (PhRows ds c z)" "pending_ready (PhLast z)" "\<not> pending_ready PhDone"
  "\<not> erring (PhRows ds c z)" "erring (PhLast z) \<longleftrightarrow> in_error z" "\<not> erring PhDone"
  by (simp_all add: phase_defs split: list.split)

lemma how_many_simps [simp]:
  "how_many P [] = 0"
  "how_many P (x # xs) = (if P x then Suc (how_many P xs) else how_many P xs)"
  by (simp_all add: how_many_def)

lemma some_left:
  assumes "0 < how_many P phs" "\<not> P PhDone"
  shows "list_ex (\<lambda>ph. ph \<noteq> PhDone) phs"
  using assms(1)
proof (induction phs)
  case (Cons ph phs)
  with assms(2) show ?case by (cases "ph = PhDone") (auto split: if_splits)
qed simp

lemma left_rows_finished: "\<not> unfinished ph \<Longrightarrow> left_rows ph = []"
  by (cases ph) (simp_all add: unfinished_def)

lemma none_left: "how_many unfinished phs = 0 \<Longrightarrow> concat (map left_rows phs) = []"
  by (auto simp: how_many_def filter_empty_conv intro: left_rows_finished)

lemma merging_ready:
  assumes "merging ops iter r n dec w seen k z err arrived cs s" "good_ready m" "Suc z < n"
  shows "\<exists>s'. ms_forward ops iter s m = (Inr None, s')
    \<and> merging ops iter r n dec w seen k (Suc z) (err \<or> in_error m) arrived cs s'"
proof -
  have s: "ms_shards s = n" "cn_ready_for_query (ms_counters s) = z" "cn_transaction_error (ms_counters s) = err"
    using assms(1) by (auto simp: merging_def gathering_def draining_def split: if_splits)
  have "\<not> n dvd Suc z" using assms(3) by (simp add: not_dvd_between)
  with forward_ready_counted [OF assms(2) s(1,2), of ops iter] s(3) assms(1) show ?thesis
    by (auto simp: merging_def gathering_def draining_def)
qed

lemma merging_step:
  assumes "merging ops iter r n dec w seen k z err arrived cs s" "phase_ok w ph" "ph \<noteq> PhDone" "1 < n"
    and "route_should_buffer r" "\<not> is_omni r" "completes ph \<subseteq> cs"
    and "unfinished ph \<Longrightarrow> k < n" "pending_ready ph \<Longrightarrow> Suc z < n"
    and "completing ph \<Longrightarrow> Suc k = n \<Longrightarrow> \<exists>out. merge_rows ops iter r dec seen arrived = Inr out"
  shows "\<exists>s'. ms_forward ops iter s (hd (remaining ph)) = (Inr None, s')
    \<and> merging ops iter r n dec w seen (k + of_bool (completing ph)) (z + of_bool (pending_ready ph)) (err \<or> erring ph)
        (arrived @ taken_rows ph) cs s'"
proof (cases ph)
  case (PhRows ds c z')
  then have k: "k < n" using assms(8) by (simp add: phase_defs)
  with assms(1) have g: "gathering r n dec w seen k z err arrived s" by (simp add: merging_def)
  show ?thesis
  proof (cases ds)
    case (Cons d ds')
    with PhRows assms(2) have "good_row w d" by simp
    from forward_row [OF g this assms(4-6), of ops iter] k PhRows Cons show ?thesis by (auto simp: merging_def phase_defs)
  next
    case Nil
    with PhRows assms(2) have c: "good_complete c" by simp
    show ?thesis
    proof (cases "Suc k < n")
      case True
      from forward_complete_more [OF g c this, of ops iter] True PhRows Nil show ?thesis by (auto simp: merging_def phase_defs)
    next
      case False
      with k have n: "Suc k = n" by simp
      with assms(10) PhRows Nil obtain out where out: "merge_rows ops iter r dec seen arrived = Inr out"
        by (auto simp: phase_defs)
      from forward_complete_last [OF g c n assms(4-6) out] n PhRows Nil out assms(7) show ?thesis
        by (fastforce simp: merging_def phase_defs)
    qed
  qed
next
  case (PhLast z')
  with assms(2,9) have "good_ready z'" "Suc z < n" by (simp_all add: phase_defs)
  from merging_ready [OF assms(1) this] PhLast show ?thesis by (simp add: phase_defs)
qed (use assms(3) in simp)

lemma read_served:
  assumes "serves so pending" "pending srv = remaining ph" "ph \<noteq> PhDone"
  obtains srv' where "so_has_more_messages so srv" "so_read so srv = (Inr (hd (remaining ph)), srv')"
    "pending srv' = remaining (advance ph)"
proof -
  have "remaining ph = hd (remaining ph) # remaining (advance ph)"
    using assms(3) by (cases ph rule: advance.cases) simp_all
  with assms(1,2) that show thesis unfolding serves_def by (metis list.distinct(1))
qed

lemma pass_merging:
  assumes sv: "serves so pending"
    and route: "1 < n" "route_should_buffer r" "\<not> is_omni r"
    and merges: "\<And>arr. mset arr = M \<Longrightarrow> \<exists>out. merge_rows ops iter r dec seen arr = Inr out"
    and "list_all2 (\<lambda>srv ph. pending srv = remaining ph) srvs phs" "list_all (phase_ok w) phs"
    and "merging ops iter r n dec w seen k z err arrived cs s" "\<Union>(completes ` set phs) \<subseteq> cs"
    and "k + u + how_many unfinished phs = n" "u = 0 \<Longrightarrow> L = {#}" "z + how_many pending_ready phs < n"
    and "mset arrived + L + mset (concat (map left_rows phs)) = M"
  shows "\<exists>s' srvs'. read_pass so ops iter s srvs = ((None, list_ex (\<lambda>ph. ph \<noteq> PhDone) phs), s', srvs')
    \<and> list_all2 (\<lambda>srv ph. pending srv = remaining ph) srvs' (map advance phs)
    \<and> merging ops iter r n dec w seen (k + how_many completing phs) (z + how_many pending_ready phs)
        (err \<or> list_ex erring phs) (arrived @ concat (map taken_rows phs)) cs s'"
  using assms(6-)
proof (induction srvs phs arbitrary: s k z err arrived u L rule: list_all2_induct)
  case (Cons srv srvs ph phs)
  note prems = Cons.prems
  show ?case
  proof (cases "ph = PhDone")
    case True
    with Cons.IH [OF _ prems(2), of u L] prems Cons.hyps(1) sv show ?thesis
      by (auto simp: serves_def phase_defs)
  next
    case False
    let ?k = "k + of_bool (completing ph)" and ?z = "z + of_bool (pending_ready ph)" and ?arr = "arrived @ taken_rows ph"
    let ?u = "u + of_bool (unfinished (advance ph))" and ?L = "L + mset (left_rows (advance ph))"
    from read_served [OF sv Cons.hyps(1) False] obtain srv'
      where srv': "so_has_more_messages so srv" "so_read so srv = (Inr (hd (remaining ph)), srv')"
        "pending srv' = remaining (advance ph)" .
    have unf: "of_bool (unfinished ph) = of_bool (completing ph) + (of_bool (unfinished (advance ph)) :: nat)"
      and left: "mset (left_rows ph) = mset (taken_rows ph) + mset (left_rows (advance ph))"
      by (cases ph rule: advance.cases; simp add: phase_defs)+
    have cu: "completing ph \<Longrightarrow> unfinished ph \<and> left_rows ph = []"
      by (cases ph rule: advance.cases; simp add: phase_defs)
    have merge: "\<exists>out. merge_rows ops iter r dec seen arrived = Inr out" if c: "completing ph" "Suc k = n"
    proof -
      from c cu prems(4) have "u = 0" "how_many unfinished phs = 0" by auto
      with prems(5,7) none_left cu c(1) have "mset arrived = M" by simp
      then show ?thesis by (rule merges)
    qed
    have "k < n" if "unfinished ph" using prems(4) that by simp
    moreover have "Suc z < n" if "pending_ready ph" using prems(6) that by simp
    ultimately obtain s' where s': "ms_forward ops iter s (hd (remaining ph)) = (Inr None, s')"
      "merging ops iter r n dec w seen ?k ?z (err \<or> erring ph) ?arr cs s'"
      using merging_step [OF prems(2) _ False route] prems(1,3) merge by auto
    have "?k + ?u + how_many unfinished phs = n" using prems(4) unf by (auto simp: of_bool_def split: if_splits)
    moreover have "?L = {#}" if "?u = 0" using prems(5) that left_rows_finished by auto
    moreover have "?z + how_many pending_ready phs < n" using prems(6) by (auto split: if_splits)
    moreover have "mset ?arr + ?L + mset (concat (map left_rows phs)) = M"
      using prems(7) left by (simp add: ac_simps)
    ultimately obtain s'' srvs' where IH: "read_pass so ops iter s' srvs = ((None, list_ex (\<lambda>ph. ph \<noteq> PhDone) phs), s'', srvs')"
      "list_all2 (\<lambda>srv ph. pending srv = remaining ph) srvs' (map advance phs)"
      "merging ops iter r n dec w seen (?k + how_many completing phs) (?z + how_many pending_ready phs)
        ((err \<or> erring ph) \<or> list_ex erring phs) (?arr @ concat (map taken_rows phs)) cs s''"
      using Cons.IH [OF _ s'(2), of ?u ?L] prems(1,3) by auto
    show ?thesis using IH s'(1) srv' False by (auto simp: disj_ac add.assoc)
  qed
qed simp

section \<open>Reading until the rows are merged\<close>

fun weight :: "phase \<Rightarrow> nat" where
  "weight (PhRows ds c z) = Suc (length ds)"
| "weight _ = 0"

lemma advance_counts:
  "how_many unfinished phs = how_many completing phs + how_many unfinished (map advance phs)"
  "how_many pending_ready (map advance phs) = how_many completing phs"
  "sum_list (map weight phs) = how_many unfinished phs + sum_list (map weight (map advance phs))"
  "mset (concat (map left_rows phs)) = mset (concat (map taken_rows phs)) + mset (concat (map left_rows (map advance phs)))"
proof (induction phs)
  case (Cons ph phs)
  {
    case 1
    show ?case using Cons.IH(1) by (cases ph rule: advance.cases) (simp_all add: phase_defs)
  next
    case 2
    show ?case using Cons.IH(2) by (cases ph rule: advance.cases) (simp_all add: phase_defs)
  next
    case 3
    show ?case using Cons.IH(3) by (cases ph rule: advance.cases) (simp_all add: phase_defs)
  next
    case 4
    show ?case using Cons.IH(4) by (cases ph rule: advance.cases) simp_all
  }
qed simp_all

lemma advance_ok: "phase_ok w ph \<Longrightarrow> phase_ok w (advance ph)"
  by (cases ph rule: advance.cases) simp_all

lemma advance_ready:
  "set (ready_of (advance ph)) \<subseteq> set (ready_of ph)"
  "(erring ph \<or> list_ex in_error (ready_of (advance ph))) = list_ex in_error (ready_of ph)"
  by (cases ph rule: advance.cases; simp add: erring_def)+

lemma advance_ready_all:
  "set (concat (map ready_of (map advance phs))) \<subseteq> set (concat (map ready_of phs))"
  "(list_ex erring phs \<or> list_ex in_error (concat (map ready_of (map advance phs)))) = list_ex in_error (concat (map ready_of phs))"
proof (induction phs)
  case (Cons ph phs)
  {
    case 1
    show ?case using Cons.IH(1) advance_ready(1) [of ph] by auto
  next
    case 2
    show ?case using Cons.IH(2) advance_ready(2) [of ph] by auto
  }
qed simp_all

lemma message_gathering:
  assumes "gathering r n dec w seen k z err arrived s"
  shows "\<exists>s'. ms_message s = (None, s') \<and> gathering r n dec w seen k z err arrived s'"
  using assms by (auto simp: ms_message_def buffer_take_def gathering_def)

lemma read_gathers:
  assumes sv: "serves so pending"
    and route: "1 < n" "route_should_buffer r" "\<not> is_omni r"
    and merges: "\<And>arr. mset arr = M \<Longrightarrow> \<exists>out. merge_rows ops iter r dec seen arr = Inr out"
    and "list_all2 (\<lambda>srv ph. pending srv = remaining ph) srvs phs" "list_all (phase_ok w) phs"
    and "gathering r n dec w seen k z err arrived s" "\<Union>(completes ` set phs) \<subseteq> cs" "k < n"
    and "k + how_many unfinished phs = n" "z + how_many pending_ready phs + how_many unfinished phs = n"
    and "mset arrived + mset (concat (map left_rows phs)) = M"
  shows "\<exists>s' srvs' phs' z' err' out c arr.
      ms_read so ops iter s srvs = ms_read so ops iter s' srvs'
    \<and> list_all2 (\<lambda>srv ph. pending srv = remaining ph) srvs' phs' \<and> list_all (phase_ok w) phs'
    \<and> mset arr = M \<and> merge_rows ops iter r dec seen arr = Inr out \<and> c \<in> cs
    \<and> draining n z' err' out (Some (cc_message (cc_rewrite (payload c) (length out)))) s'
    \<and> how_many unfinished phs' = 0 \<and> z' + how_many pending_ready phs' = n \<and> z' < n
    \<and> (err' \<or> list_ex in_error (concat (map ready_of phs'))) = (err \<or> list_ex in_error (concat (map ready_of phs)))
    \<and> set (concat (map ready_of phs')) \<subseteq> set (concat (map ready_of phs))"
  using assms(6-)
proof (induction "sum_list (map weight phs)" arbitrary: s srvs phs k z err arrived rule: less_induct)
  case less
  note prems = less.prems
  have some: "0 < how_many unfinished phs" using prems(5,6) by simp
  then have reads: "list_ex (\<lambda>ph. ph \<noteq> PhDone) phs"
    by (rule some_left) simp
  obtain s1 where s1: "ms_message s = (None, s1)" "gathering r n dec w seen k z err arrived s1"
    using message_gathering [OF prems(3)] by blast
  then have m1: "merging ops iter r n dec w seen k z err arrived cs s1" using prems(5) by (simp add: merging_def)
  let ?k = "k + how_many completing phs" and ?z = "z + how_many pending_ready phs"
    and ?err = "err \<or> list_ex erring phs" and ?arr = "arrived @ concat (map taken_rows phs)" and ?phs = "map advance phs"
  obtain s2 srvs2 where p: "read_pass so ops iter s1 srvs = ((None, True), s2, srvs2)"
    "list_all2 (\<lambda>srv ph. pending srv = remaining ph) srvs2 ?phs"
    "merging ops iter r n dec w seen ?k ?z ?err ?arr cs s2"
    using pass_merging [OF sv route merges prems(1,2) m1 prems(4), where u = 0 and L = "{#}"] prems(6-8) some reads by auto
  have unfold: "ms_read so ops iter s srvs = ms_read so ops iter s2 srvs2"
    using s1 p by (subst ms_read.simps) simp
  have ok: "list_all (phase_ok w) ?phs" using prems(2) by (auto simp: list_all_iff advance_ok)
  have all: "mset ?arr + mset (concat (map left_rows ?phs)) = M" using prems(8) advance_counts(4) [of phs] by (simp add: add.assoc)
  have err: "(?err \<or> list_ex in_error (concat (map ready_of ?phs))) = (err \<or> list_ex in_error (concat (map ready_of phs)))"
    using advance_ready_all(2) [of phs] by auto
  show ?case
  proof (cases "?k < n")
    case True
    have cs: "\<Union>(completes ` set ?phs) \<subseteq> cs"
    proof -
      have "completes (advance ph) \<subseteq> completes ph" for ph by (cases ph rule: advance.cases) simp_all
      then show ?thesis using prems(4) by fastforce
    qed
    have g: "gathering r n dec w seen ?k ?z ?err ?arr s2" using p(3) True by (simp add: merging_def)
    have "sum_list (map weight ?phs) < sum_list (map weight phs)" using advance_counts(3) [of phs] some by simp
    note dec = this
    have ks: "?k + how_many unfinished ?phs = n" using prems(6) advance_counts(1) [of phs] by simp
    have zs: "?z + how_many pending_ready ?phs + how_many unfinished ?phs = n"
      using prems(7) advance_counts(1,2) [of phs] by simp
    obtain s' srvs' phs' z' err' out c arr where
      IH: "ms_read so ops iter s2 srvs2 = ms_read so ops iter s' srvs'"
        "list_all2 (\<lambda>srv ph. pending srv = remaining ph) srvs' phs'" "list_all (phase_ok w) phs'"
        "mset arr = M" "merge_rows ops iter r dec seen arr = Inr out" "c \<in> cs"
        "draining n z' err' out (Some (cc_message (cc_rewrite (payload c) (length out)))) s'"
        "how_many unfinished phs' = 0" "z' + how_many pending_ready phs' = n" "z' < n"
        "(err' \<or> list_ex in_error (concat (map ready_of phs'))) = (?err \<or> list_ex in_error (concat (map ready_of ?phs)))"
        "set (concat (map ready_of phs')) \<subseteq> set (concat (map ready_of ?phs))"
      using less.hyps [OF dec p(2) ok g cs True ks zs all] by (elim exE conjE) (rule that; assumption)
    have sub: "set (concat (map ready_of phs')) \<subseteq> set (concat (map ready_of phs))"
      using IH(12) advance_ready_all(1) [of phs] by (rule order_trans)
    show ?thesis using trans [OF unfold IH(1)] IH(2-10) IH(11) [unfolded err] sub by (intro exI conjI) assumption+
  next
    case False
    then have k: "?k = n" and c: "how_many unfinished ?phs = 0" using prems(6) advance_counts(1) [of phs] by simp_all
    from p(3) k obtain out c where "c \<in> cs" "merge_rows ops iter r dec seen ?arr = Inr out"
      "draining n ?z ?err out (Some (cc_message (cc_rewrite (payload c) (length out)))) s2"
      by (auto simp: merging_def)
    moreover have "mset ?arr = M" using all unfolding none_left [OF c] by simp
    moreover have "?z + how_many pending_ready ?phs = n" "?z < n"
      using prems(7) advance_counts(1,2) [of phs] c some by simp_all
    ultimately show ?thesis using unfold p(2) ok c err advance_ready_all(1) [of phs] by (intro exI conjI) assumption+
  qed
qed

section \<open>Handing out\<close>

lemma ready_good: "phase_ok w ph \<Longrightarrow> m \<in> set (ready_of ph) \<Longrightarrow> good_ready m"
  by (cases ph) auto

lemma message_draining:
  "draining n z err (row # rows) cc s \<Longrightarrow> \<exists>s'. ms_message s = (Some (dr_message row), s') \<and> draining n z err rows cc s'"
  "draining n z err [] cc s \<Longrightarrow> \<exists>s'. ms_message s = (cc, s') \<and> draining n z err [] None s'"
  by (auto simp: draining_def ms_message_def buffer_take_def)

lemma all_done:
  assumes "how_many unfinished phs = 0" "how_many pending_ready phs = 0"
    and "list_all2 (\<lambda>srv ph. pending srv = remaining ph) srvs phs"
  shows "list_all (\<lambda>srv. pending srv = []) srvs"
  using assms(3,1,2)
proof (induction rule: list_all2_induct)
  case (Cons srv srvs ph phs)
  then show ?case by (cases ph) (auto simp: phase_defs split: if_splits)
qed simp

lemma none_ready:
  assumes "how_many unfinished phs = 0" "how_many pending_ready phs = 0"
  shows "concat (map ready_of phs) = []"
  using assms
proof (induction phs)
  case (Cons ph phs)
  then show ?case by (cases ph) (simp_all split: if_splits)
qed simp

lemma pass_final:
  assumes sv: "serves so pending"
    and "list_all2 (\<lambda>srv ph. pending srv = remaining ph) srvs phs" "list_all (phase_ok w) phs"
    and "draining n z err rows cc s" "how_many unfinished phs = 0" "z + how_many pending_ready phs = n" "z < n"
  shows "\<exists>s' srvs' m. read_pass so ops iter s srvs =
      ((Some (Got (if err \<or> list_ex in_error (concat (map ready_of phs)) then rfq_message rfq_error else m)), True), s', srvs')
    \<and> m \<in> set (concat (map ready_of phs)) \<and> list_all (\<lambda>srv. pending srv = []) srvs'"
  using assms(2-)
proof (induction srvs phs arbitrary: s z err rule: list_all2_induct)
  case (Cons srv srvs ph phs)
  note prems = Cons.prems
  show ?case
  proof (cases ph)
    case (PhRows ds c z')
    with prems(3) show ?thesis by simp
  next
    case PhDone
    with prems have rest: "list_all (phase_ok w) phs" "how_many unfinished phs = 0" "z + how_many pending_ready phs = n"
      by simp_all
    have "\<not> so_has_more_messages so srv" "pending srv = []" using sv Cons.hyps(1) PhDone by (simp_all add: serves_def)
    with Cons.IH [OF rest(1) prems(2) rest(2,3) prems(5)] PhDone show ?thesis by fastforce
  next
    case (PhLast m)
    from read_served [OF sv Cons.hyps(1)] PhLast obtain srv'
      where srv': "so_has_more_messages so srv" "so_read so srv = (Inr m, srv')" "pending srv' = []" by auto
    have m: "good_ready m" using prems(1) PhLast by simp
    have s: "ms_shards s = n" "cn_ready_for_query (ms_counters s) = z" "cn_transaction_error (ms_counters s) = err"
      using prems(2) by (simp_all add: draining_def)
    note fwd = forward_ready_counted [OF m s(1,2), of ops iter, unfolded s(3)]
    let ?s = "s\<lparr>ms_counters := (ms_counters s)\<lparr>cn_ready_for_query := Suc z, cn_transaction_error := err \<or> in_error m\<rparr>\<rparr>"
    have d: "draining n (Suc z) (err \<or> in_error m) rows cc ?s" using prems(2) by (simp add: draining_def)
    show ?thesis
    proof (cases "Suc z = n")
      case True
      with prems(3,4) PhLast have none: "how_many unfinished phs = 0" "how_many pending_ready phs = 0"
        by simp_all
      have "list_ex in_error (concat (map ready_of phs)) = False" unfolding none_ready [OF none] by simp
      with True fwd srv' PhLast all_done [OF none Cons.hyps(2)] show ?thesis by auto
    next
      case False
      with prems(5) have "\<not> n dvd Suc z" by (simp add: not_dvd_between)
      moreover have "Suc z < n" using False prems(5) by simp
      moreover have "list_all (phase_ok w) phs" "how_many unfinished phs = 0" "Suc z + how_many pending_ready phs = n"
        using prems(1,3,4) PhLast by simp_all
      ultimately show ?thesis using Cons.IH [OF _ d] fwd srv' PhLast by (fastforce simp: disj_ac)
    qed
  qed
qed simp

lemma still_pending:
  assumes "serves so pending" "list_all2 (\<lambda>srv ph. pending srv = remaining ph) srvs phs" "list_ex (\<lambda>ph. ph \<noteq> PhDone) phs"
  shows "list_ex (so_has_more_messages so) srvs \<and> \<not> list_all (so_in_copy_mode so) srvs"
proof -
  have "\<exists>srv\<in>set srvs. pending srv \<noteq> []"
    using assms(2,3)
  proof (induction rule: list_all2_induct)
    case (Cons srv srvs ph phs)
    then show ?case by (cases ph) auto
  qed simp
  then show ?thesis using assms(1) by (auto simp: serves_def list_ex_iff list_all_iff)
qed

text \<open>One turn of the exchange.\<close>

lemma exchange_got:
  assumes "list_ex (so_has_more_messages so) srvs \<and> \<not> list_all (so_in_copy_mode so) srvs"
    and "ms_read so ops iter s srvs = Some (Got m, s', srvs')" "\<not> msg_stream m"
    and "exchange so ao ops iter False (BMultiShard srvs' s') = Some (ms, end, b)"
  shows "exchange so ao ops iter False (BMultiShard srvs s) = Some (m # ms, end, b)"
proof -
  have "srvs \<noteq> []" using assms(1) by auto
  with assms show ?thesis
    by (subst exchange.simps) (simp add: b_read_def b_has_more_messages_def b_in_copy_mode_def)
qed

lemma exchange_read_cong:
  assumes "list_ex (so_has_more_messages so) srvs \<and> \<not> list_all (so_in_copy_mode so) srvs"
    and "list_ex (so_has_more_messages so) srvs' \<and> \<not> list_all (so_in_copy_mode so) srvs'"
    and "ms_read so ops iter s srvs = ms_read so ops iter s' srvs'"
  shows "exchange so ao ops iter False (BMultiShard srvs s) = exchange so ao ops iter False (BMultiShard srvs' s')"
proof -
  have "srvs \<noteq> []" "srvs' \<noteq> []" using assms(1,2) by auto
  then have "b_read so ao ops iter (BMultiShard srvs s) = b_read so ao ops iter (BMultiShard srvs' s')"
    using assms(3) by (simp add: b_read_def)
  with assms(1,2) show ?thesis
    by (subst (1 2) exchange.simps) (simp add: b_has_more_messages_def b_in_copy_mode_def)
qed

lemma exchange_done:
  "serves so pending \<Longrightarrow> list_all (\<lambda>srv. pending srv = []) srvs \<Longrightarrow>
   exchange so ao ops iter str (BMultiShard srvs s) = Some ([], Finished, BMultiShard srvs s)"
  by (subst exchange.simps) (auto simp: b_has_more_messages_def serves_def list_ex_iff list_all_iff)

lemma made_messages_not_streamed [simp]:
  "\<not> msg_stream (dr_message row)" "\<not> msg_stream (cc_message cc)" "\<not> msg_stream (rfq_message q)"
  by (simp_all add: dr_message_def cc_message_def rfq_message_def new_message_def)

lemma exchange_drain:
  assumes sv: "serves so pending"
    and phs: "list_all2 (\<lambda>srv ph. pending srv = remaining ph) srvs phs" "list_all (phase_ok w) phs"
      "how_many unfinished phs = 0" "z + how_many pending_ready phs = n" "z < n"
    and "draining n z err rows (Some (cc_message cc)) s"
  shows "\<exists>s' srvs' m. exchange so ao ops iter False (BMultiShard srvs s) =
      Some (map dr_message rows
            @ [cc_message cc, if err \<or> list_ex in_error (concat (map ready_of phs)) then rfq_message rfq_error else m],
            Finished, BMultiShard srvs' s')
    \<and> m \<in> set (concat (map ready_of phs)) \<and> list_all (\<lambda>srv. pending srv = []) srvs'"
proof -
  have "list_ex (\<lambda>ph. ph \<noteq> PhDone) phs"
    by (rule some_left [where P = pending_ready]) (use phs(4,5) in simp_all)
  note more = still_pending [OF sv phs(1) this]
  show ?thesis
    using assms(7)
  proof (induction rows arbitrary: s)
    case Nil
    obtain s1 where s1: "ms_message s = (Some (cc_message cc), s1)" "draining n z err [] None s1"
      using message_draining(2) [OF Nil] by blast
    obtain s2 where s2: "ms_message s1 = (None, s2)" "draining n z err [] None s2"
      using message_draining(2) [OF s1(2)] by blast
    obtain s' srvs' m where p: "read_pass so ops iter s2 srvs =
        ((Some (Got (if err \<or> list_ex in_error (concat (map ready_of phs)) then rfq_message rfq_error else m)), True), s', srvs')"
      "m \<in> set (concat (map ready_of phs))" "list_all (\<lambda>srv. pending srv = []) srvs'"
      using pass_final [OF sv phs(1,2) s2(2) phs(3-5), of ops iter] by blast
    let ?z = "if err \<or> list_ex in_error (concat (map ready_of phs)) then rfq_message rfq_error else m"
    have "good_ready m" using p(2) phs(2) by (auto simp: list_all_iff intro: ready_good)
    then have nostream: "\<not> msg_stream ?z" by (simp add: good_ready_def)
    have "ms_read so ops iter s1 srvs = Some (Got ?z, s', srvs')" using s2(1) p(1) by (subst ms_read.simps) simp
    from exchange_got [OF more this nostream exchange_done [OF sv p(3)]]
    have "exchange so ao ops iter False (BMultiShard srvs s1) = Some ([?z], Finished, BMultiShard srvs' s')" .
    moreover have "ms_read so ops iter s srvs = Some (Got (cc_message cc), s1, srvs)" using s1(1) by (subst ms_read.simps) simp
    ultimately show ?case
      using exchange_got [OF more, of ops iter s "cc_message cc" s1 srvs] p(2,3) by fastforce
  next
    case (Cons row rows)
    obtain s1 where s1: "ms_message s = (Some (dr_message row), s1)" "draining n z err rows (Some (cc_message cc)) s1"
      using message_draining(1) [OF Cons.prems] by blast
    have "ms_read so ops iter s srvs = Some (Got (dr_message row), s1, srvs)" using s1(1) by (subst ms_read.simps) simp
    with Cons.IH [OF s1(2)] exchange_got [OF more, of ops iter s "dr_message row" s1 srvs] show ?case by fastforce
  qed
qed

section \<open>Descriptions\<close>

definition rd_of :: "message \<Rightarrow> row_description" where
  "rd_of m = projr (rd_from_bytes (payload m))"

text \<open>The description the client sees: without the columns that were added to compute aggregates.\<close>

definition shown_description :: "'o route \<Rightarrow> message \<Rightarrow> message" where
  "shown_description r m =
     (let dropped = plan_drop_columns (rt_rewrite_plan r) in
      if dropped = [] then m else new_message CHR ''T'' (tl (rd_to_bytes (rd_drop_columns (rd_of m) dropped))))"

definition describing ::
    "'o route \<Rightarrow> nat \<Rightarrow> decoder \<Rightarrow> data_row set \<Rightarrow> row_description option \<Rightarrow> nat \<Rightarrow> 'o multi_shard \<Rightarrow> bool" where
  "describing r n dec seen first k s \<longleftrightarrow>
     ms_shards s = n \<and> ms_route s = r \<and> ms_decoder s = dec
     \<and> ms_buffer s = \<lparr>buf_rows = [], buf_full = False, buf_distinct = seen\<rparr>
     \<and> ms_counters s = counters_default\<lparr>cn_row_description := k\<rparr>
     \<and> ms_validator s = \<lparr>va_first_row_description = first, va_expected_column_count = None\<rparr>"

lemma same_names: "map field_name fs = map field_name gs \<Longrightarrow> name_mismatch i fs gs = None"
  by (induction i fs gs rule: name_mismatch.induct) auto

lemma forward_description:
  assumes "describing r n dec seen first k s" "good_description names m"
    and "\<And>rd. first = Some rd \<Longrightarrow> map field_name (rd_fields rd) = names"
  shows "\<exists>s'. ms_forward ops iter s m = (Inr (if Suc k = n then Some (shown_description r m) else None), s')
    \<and> describing r n (if first = None then decoder_row_description dec (rd_of m) else dec) seen
        (Some (case first of None \<Rightarrow> rd_of m | Some rd \<Rightarrow> rd)) (Suc k) s'"
proof -
  from assms(2) obtain rd where rd: "msg_code m = CHR ''T''" "rd_from_bytes (payload m) = Inr rd"
    "map field_name (rd_fields rd) = names" by (auto simp: good_description_def split: sum.splits)
  show ?thesis
  proof (cases first)
    case None
    with assms(1) rd show ?thesis
      by (auto simp: ms_forward_def forward_row_description_def describing_def validate_row_description_def
          shown_description_def rd_of_def Let_def)
  next
    case (Some rd0)
    with assms(3) rd(3) have same: "map field_name (rd_fields rd0) = map field_name (rd_fields rd)" by simp
    from same_names [OF this] arg_cong [OF same, of length] Some assms(1) rd show ?thesis
      by (auto simp: ms_forward_def forward_row_description_def describing_def validate_row_description_def
          shown_description_def rd_of_def Let_def)
  qed
qed

lemma pass_descriptions:
  assumes sv: "serves so pending"
    and "list_all2 (\<lambda>srv (t, ph). pending srv = t # remaining ph) srvs rs" "list_all (\<lambda>(t, ph). good_description names t) rs"
    and "describing r n dec seen first k s" "\<And>rd. first = Some rd \<Longrightarrow> map field_name (rd_fields rd) = names"
    and "k + length rs = n" "rs \<noteq> []"
  shows "\<exists>s' srvs'. read_pass so ops iter s srvs = ((Some (Got (shown_description r (fst (last rs)))), True), s', srvs')
    \<and> list_all2 (\<lambda>srv ph. pending srv = remaining ph) srvs' (map snd rs)
    \<and> describing r n (if first = None then decoder_row_description dec (rd_of (fst (hd rs))) else dec) seen
        (Some (case first of None \<Rightarrow> rd_of (fst (hd rs)) | Some rd \<Rightarrow> rd)) n s'"
  using assms(2-)
proof (induction srvs rs arbitrary: s dec first k rule: list_all2_induct)
  case (Cons srv srvs rp rs)
  obtain t ph where rp: "rp = (t, ph)" by fastforce
  with Cons.hyps(1) have "pending srv = t # remaining ph" by simp
  with sv obtain srv' where srv': "so_has_more_messages so srv" "so_read so srv = (Inr t, srv')" "pending srv' = remaining ph"
    unfolding serves_def by (metis list.distinct(1))
  let ?dec = "if first = None then decoder_row_description dec (rd_of t) else dec"
    and ?first = "case first of None \<Rightarrow> rd_of t | Some rd \<Rightarrow> rd"
  have good: "good_description names t" using Cons.prems(1) rp by simp
  from forward_description [OF Cons.prems(2) good Cons.prems(3)] obtain s'
    where s': "ms_forward ops iter s t = (Inr (if Suc k = n then Some (shown_description r t) else None), s')"
      "describing r n ?dec seen (Some ?first) (Suc k) s'" by blast
  show ?case
  proof (cases "rs = []")
    case True
    with Cons.prems(4) have "Suc k = n" by simp
    with s' srv' rp True Cons.hyps(2) show ?thesis by (cases first) simp_all
  next
    case False
    with Cons.prems(4) have k: "Suc k \<noteq> n" "Suc k + length rs = n" by (cases rs; simp)+
    have "map field_name (rd_fields ?first) = names"
      using good Cons.prems(3) by (auto simp: good_description_def rd_of_def split: option.split sum.splits)
    with Cons.IH [OF _ s'(2) _ k(2) False] Cons.prems(1) obtain s'' srvs' where
      "read_pass so ops iter s' srvs = ((Some (Got (shown_description r (fst (last rs)))), True), s'', srvs')"
      "list_all2 (\<lambda>srv ph. pending srv = remaining ph) srvs' (map snd rs)"
      "describing r n ?dec seen (Some ?first) n s''" by auto
    with s'(1) k(1) srv' rp False show ?thesis by auto
  qed
qed simp

section \<open>The replies of a statement that ran on several shards\<close>

text \<open>From the last description on.\<close>

lemma exchange_merges:
  assumes sv: "serves so pending"
    and route: "1 < n" "route_should_buffer r" "\<not> is_omni r"
    and merges: "\<And>arr. mset arr = mset (concat (map left_rows phs)) \<Longrightarrow> \<exists>out. merge_rows ops iter r dec seen arr = Inr out"
    and phs: "list_all2 (\<lambda>srv ph. pending srv = remaining ph) srvs phs" "list_all (phase_ok w) phs"
    and g: "gathering r n dec w seen 0 0 False [] s"
    and counts: "how_many unfinished phs = n" "how_many pending_ready phs = 0"
  shows "\<exists>arr out c m s' srvs'. mset arr = mset (concat (map left_rows phs)) \<and> merge_rows ops iter r dec seen arr = Inr out
    \<and> c \<in> \<Union>(completes ` set phs) \<and> m \<in> set (concat (map ready_of phs))
    \<and> exchange so ao ops iter False (BMultiShard srvs s) =
        Some (map dr_message out @ [cc_message (cc_rewrite (payload c) (length out)),
                if list_ex in_error (concat (map ready_of phs)) then rfq_message rfq_error else m],
              Finished, BMultiShard srvs' s')
    \<and> list_all (\<lambda>srv. pending srv = []) srvs'"
proof -
  have k: "0 < n" "0 + how_many unfinished phs = n" "0 + how_many pending_ready phs + how_many unfinished phs = n"
    "mset [] + mset (concat (map left_rows phs)) = mset (concat (map left_rows phs))"
    using route(1) counts by simp_all
  note R = read_gathers [OF sv route _ phs g order_refl k, unfolded simp_thms]
  obtain s3 srvs3 phs3 z3 err3 out c arr where r:
    "ms_read so ops iter s srvs = ms_read so ops iter s3 srvs3"
    "list_all2 (\<lambda>srv ph. pending srv = remaining ph) srvs3 phs3" "list_all (phase_ok w) phs3"
    "mset arr = mset (concat (map left_rows phs))"
    "merge_rows ops iter r dec seen arr = Inr out" "c \<in> \<Union>(completes ` set phs)"
    "draining n z3 err3 out (Some (cc_message (cc_rewrite (payload c) (length out)))) s3"
    "how_many unfinished phs3 = 0" "z3 + how_many pending_ready phs3 = n" "z3 < n"
    "(err3 \<or> list_ex in_error (concat (map ready_of phs3))) = list_ex in_error (concat (map ready_of phs))"
    "set (concat (map ready_of phs3)) \<subseteq> set (concat (map ready_of phs))"
    apply (rule exE [OF R])
     apply (erule merges)
    apply (elim exE conjE)
    apply (rule that; assumption)
    done
  obtain s4 srvs4 z where x: "exchange so ao ops iter False (BMultiShard srvs3 s3) =
      Some (map dr_message out @ [cc_message (cc_rewrite (payload c) (length out)),
              if list_ex in_error (concat (map ready_of phs)) then rfq_message rfq_error else z],
            Finished, BMultiShard srvs4 s4)"
    "z \<in> set (concat (map ready_of phs3))" "list_all (\<lambda>srv. pending srv = []) srvs4"
    using exchange_drain [OF sv r(2,3,8-10,7), of ao ops iter, unfolded r(11)] by blast
  have pend: "list_ex (\<lambda>ph. ph \<noteq> PhDone) phs" "list_ex (\<lambda>ph. ph \<noteq> PhDone) phs3"
    using k(1) counts r(9,10) some_left [of unfinished phs] some_left [of pending_ready phs3] by simp_all
  have "exchange so ao ops iter False (BMultiShard srvs s) = exchange so ao ops iter False (BMultiShard srvs3 s3)"
    by (rule exchange_read_cong [OF still_pending [OF sv phs(1) pend(1)] still_pending [OF sv r(2) pend(2)] r(1)])
  moreover have "z \<in> set (concat (map ready_of phs))" using r(12) x(2) by (rule subsetD)
  ultimately show ?thesis using r(4-6) x(1,3) by (intro exI conjI) (assumption | simp only:)+
qed

text \<open>The replies as phases.\<close>

lemma replies_described:
  assumes "list_all2 (\<lambda>srv (t, ds, c, z). pending srv = t # ds @ [c, z]) srvs replies"
    and "list_all (\<lambda>(t, ds, c, z). good_description names t \<and> list_all (good_row w) ds \<and> good_complete c \<and> good_ready z) replies"
    and "replies \<noteq> []"
  defines "rs \<equiv> map (\<lambda>(t, ds, c, z). (t, PhRows ds c z)) replies"
  shows "list_all2 (\<lambda>srv (t, ph). pending srv = t # remaining ph) srvs rs"
    "list_all (\<lambda>(t, ph). good_description names t) rs" "rs \<noteq> []" "length rs = length replies"
    "fst (hd rs) = fst (hd replies)" "fst (last rs) = fst (last replies)"
  using assms(1-3)
  by (auto simp: rs_def list_all2_map2 list_all_iff hd_map last_map case_prod_beta' elim!: list_all2_mono)

lemma replies_phases:
  assumes "list_all (\<lambda>(t, ds, c, z). good_description names t \<and> list_all (good_row w) ds \<and> good_complete c \<and> good_ready z) replies"
  defines "rs \<equiv> map (\<lambda>(t, ds, c, z). (t, PhRows ds c z)) replies"
  shows "list_all (phase_ok w) (map snd rs)" "how_many unfinished (map snd rs) = length replies"
    "how_many pending_ready (map snd rs) = 0"
    "concat (map left_rows (map snd rs)) = concat (map (\<lambda>(t, ds, c, z). map row_of ds) replies)"
    "\<Union>(completes ` set (map snd rs)) = (\<lambda>(t, ds, c, z). c) ` set replies"
    "set (concat (map ready_of (map snd rs))) = (\<lambda>(t, ds, c, z). z) ` set replies"
    "list_ex in_error (concat (map ready_of (map snd rs))) = list_ex (\<lambda>(t, ds, c, z). in_error z) replies"
  using assms(1) by (force simp: rs_def how_many_def list_all_iff list_ex_iff comp_def case_prod_beta')+

lemma shown_not_streamed:
  assumes "list_all (\<lambda>(t, ds, c, z). good_description names t \<and> list_all (good_row w) ds \<and> good_complete c \<and> good_ready z) replies"
    and "replies \<noteq> []"
  shows "\<not> msg_stream (shown_description r (fst (last replies)))"
  using assms(1) last_in_set [OF assms(2)]
  by (cases "last replies")
    (auto simp: shown_description_def good_description_def new_message_def list_all_iff Let_def)

lemma described_pending:
  assumes "serves so pending" "list_all2 (\<lambda>srv (t, ph). pending srv = t # remaining ph) srvs rs" "rs \<noteq> []"
  shows "list_ex (so_has_more_messages so) srvs \<and> \<not> list_all (so_in_copy_mode so) srvs"
proof -
  have "list_all2 (\<lambda>srv (t, ph). pending srv \<noteq> []) srvs rs" using assms(2) by (rule list_all2_mono) auto
  then have "srvs \<noteq> []" "list_all (\<lambda>srv. pending srv \<noteq> []) srvs"
    using assms(3) by (auto simp: list_all2_conv_all_nth list_all_length split: prod.splits)
  then show ?thesis using assms(1) by (cases srvs) (auto simp: serves_def)
qed


lemma merge_rows_plain: "agg_is_empty (rt_aggregate r) \<Longrightarrow> \<exists>out. merge_rows ops iter r dec seen arrived = Inr out"
  by (simp add: merge_rows_def buffer_aggregate_def)

text \<open>An example: two shards, of which one has two rows of a table and the other one.\<close>

definition queue_ops :: "(message list, unit, unit, unit) server_ops" where
  "queue_ops =
     \<lparr>so_read = (\<lambda>q. case q of m # ms \<Rightarrow> (Inr m, ms) | [] \<Rightarrow> (Inl (), [])), so_has_more_messages = (\<lambda>q. q \<noteq> []),
      so_done = (\<lambda>q. q = []), so_out_of_sync = (\<lambda>_. False), so_in_copy_mode = (\<lambda>_. False), so_state = (\<lambda>_. StIdle),
      so_set_state = (\<lambda>_ q. q), so_send = (\<lambda>_ q. (Inr (), q)), so_send_ignore = (\<lambda>_ q. (Inr (), q)),
      so_send_one = (\<lambda>_ q. (Inr (), q)), so_execute = (\<lambda>_ q. (Inr [], q)), so_error_code = (\<lambda>_. None),
      so_transaction_2pc = (\<lambda>q. q), so_link_client = (\<lambda>q. (Inr 0, q)), so_params_hook = (\<lambda>_ q. q),
      so_changed_params = (\<lambda>_. ()), so_reset_changed_params = (\<lambda>q. q), so_mark_dirty = (\<lambda>_ q. q), so_no_params = ()\<rparr>"

definition queue_admin :: "(unit, unit, unit) admin_ops" where
  "queue_admin = \<lparr>ao_send = (\<lambda>_ a. (Inr (), a)), ao_messages = (\<lambda>_. []), ao_set_messages = (\<lambda>_ a. a)\<rparr>"

lemma queue_serves: "serves queue_ops (\<lambda>q. q)"
  by (simp add: serves_def queue_ops_def)

definition sorted_route :: "unit route" where
  "sorted_route = route_select (new_table ShAll) [OAscColumn ''id''] \<lparr>agg_targets = [], agg_group_by = []\<rparr>
     \<lparr>lim_limit = None, lim_offset = None\<rparr> None"

definition description_demo :: message where
  "description_demo = new_message CHR ''T'' (tl (rd_to_bytes \<lparr>rd_fields = [field_bigint ''id'', field_text ''name'']\<rparr>))"

definition replies_demo :: "(message \<times> message list \<times> message \<times> message) list" where
  "replies_demo =
     [(description_demo, [dr_message (numbered ''3'' ''c''), dr_message (numbered ''1'' ''a'')],
       cc_message (cc_from_str ''SELECT 2''), rfq_message rfq_idle),
      (description_demo, [dr_message (numbered ''2'' ''b'')], cc_message (cc_from_str ''SELECT 1''), rfq_message rfq_idle)]"

lemma description_demo_good: "good_description [''id'', ''name''] description_demo"
proof -
  have "rd_ok \<lparr>rd_fields = [field_bigint ''id'', field_text ''name'']\<rparr>"
    by (simp add: rd_ok_def field_ok_def put_field_def put_string_def put_i32_def put_i16_def)
  from rd_decode_encode [OF this] show ?thesis
    by (simp add: good_description_def description_demo_def payload_def new_message_def rd_to_bytes_def payload_named_def
       )
qed

lemma numbered_good: "length i = 1 \<Longrightarrow> length name = 1 \<Longrightarrow> good_row 2 (dr_message (numbered i name))"
proof -
  assume "length i = 1" "length name = 1"
  then have "dr_ok (numbered i name)"
    by (simp add: dr_ok_def numbered_def data_ok_def data_of_def put_column_def put_i32_def)
  from dr_decode_encode [OF this] show ?thesis by (simp add: good_row_def numbered_def)
qed

lemma complete_demo_good: "good_complete (cc_message (cc_from_str ''SELECT 2''))" "good_complete (cc_message (cc_from_str ''SELECT 1''))"
proof -
  have "utf8_valid ''SELECT 2''" "utf8_valid ''SELECT 1''"
    "parse_usize ''2'' = Some 2" "parse_usize ''1'' = Some 1" by code_simp+
  then show "good_complete (cc_message (cc_from_str ''SELECT 2''))" "good_complete (cc_message (cc_from_str ''SELECT 1''))"
    by (simp_all add: good_complete_def cc_from_str_decodes cc_rows_def)
qed

lemma ready_demo_good: "good_ready (rfq_message rfq_idle)" "\<not> in_error (rfq_message rfq_idle)"
  by (simp_all add: good_ready_def in_error_def rfq_message_def rfq_to_bytes_def rfq_idle_def new_message_def payload_named_def
      transaction_error_def status_byte_def put_i32_def nth_append)


section \<open>Reading ends\<close>

lemma read_pass_consumes:
  assumes "serves so pending"
  shows "case read_pass so ops iter s srvs of ((r, read), s', srvs') \<Rightarrow>
    sum_list (map (\<lambda>srv. length (pending srv)) srvs') + of_bool read \<le> sum_list (map (\<lambda>srv. length (pending srv)) srvs)
    \<and> (r = None \<and> \<not> read \<longrightarrow> list_all (\<lambda>srv. pending srv = []) srvs') \<and> r \<noteq> Some Suspended"
proof (induction srvs arbitrary: s)
  case (Cons srv srvs)
  show ?case
  proof (cases "pending srv")
    case Nil
    with assms have "\<not> so_has_more_messages so srv" by (simp add: serves_def)
    with Cons [of s] Nil show ?thesis by (auto split: prod.splits)
  next
    case (Cons m ms)
    note p = this
    with assms obtain srv' where srv': "so_has_more_messages so srv" "so_read so srv = (Inr m, srv')" "pending srv' = ms"
      unfolding serves_def by (metis list.distinct(1))
    obtain r s' where f: "ms_forward ops iter s m = (r, s')" by fastforce
    show ?thesis using srv' p f Cons.IH [of s'] by (auto split: prod.splits sum.splits option.splits)
  qed
qed simp



section \<open>What a second statement finds\<close>

text \<open>C30: the rows a \<^verbatim>\<open>SELECT DISTINCT\<close> over shards has returned are remembered beyond it: the same statement, run again
  on the same connections (in a transaction, say), finds the same rows and returns none of them.\<close>

theorem distinct_remembers_rows:
  assumes "rt_distinct r = Some d" "agg_is_empty (rt_aggregate r)" "plan_drop_columns (rt_rewrite_plan r) = []"
    and "ms_route s = r" "set again \<subseteq> set (buf_rows (ms_buffer s))"
    and "finish_rows ops iter s = (Inr (), s')"
    and "s2 = ms_update s' n r" "s3 = s2\<lparr>ms_buffer := (ms_buffer s2)\<lparr>buf_rows := again\<rparr>\<rparr>"
  shows "\<exists>s4. finish_rows ops iter s3 = (Inr (), s4) \<and> buf_rows (ms_buffer s4) = []"
proof (cases "again = []")
  case True
  then show ?thesis
    using assms(8) by (simp add: finish_rows_def buffer_full_def buffer_is_empty_def buffer_len_def)
next
  case False
  then have ne: "buf_rows (ms_buffer s) \<noteq> []" using assms(5) by auto
  define key where "key = (case d of DistinctRow \<Rightarrow> \<lambda>row. row | DistinctColumns columns \<Rightarrow> \<lambda>row. distinct_key (ms_decoder s) row columns)"
  let ?sorted = "sort_by (row_cmp ops (ms_decoder s) (resolve_columns (ms_decoder s) (rt_order_by r)))"
  have agg: "buffer_aggregate ops iter b (rt_aggregate r) dec (rt_rewrite_plan r) = (Inr (), b)" for b dec
    using assms(2,3) by (simp add: buffer_aggregate_def drop_helper_columns_def)
  have fin: "finish_rows ops iter t = (Inr (), t\<lparr>ms_buffer := buffer_limit
      (buffer_distinct (buffer_sort ops (buffer_full (ms_buffer t)) (rt_order_by r) (ms_decoder t)) (Some d) (ms_decoder t)) (rt_limit r)\<rparr>)"
    if "ms_route t = r" "buf_rows (ms_buffer t) \<noteq> []" for t
    using that assms(1) by (simp add: finish_rows_def agg buffer_is_empty_def buffer_len_def buffer_full_def Let_def)
  have seen: "key ` set (buf_rows (ms_buffer s)) \<subseteq> buf_distinct (ms_buffer s')"
  proof -
    have "buf_distinct (ms_buffer s') =
        snd (retain_new key (buf_distinct (ms_buffer s)) (?sorted (buf_rows (ms_buffer s))))"
      using fin [OF assms(4) ne] assms(6)
      by (auto simp: buffer_limit_def buffer_distinct_def buffer_sort_def buffer_full_def key_def Let_def split: prod.splits)
    then show ?thesis by (simp add: retain_new_snd)
  qed
  have dec: "ms_decoder s' = ms_decoder s" using fin [OF assms(4) ne] assms(6) by auto
  have s3: "ms_route s3 = r" "buf_rows (ms_buffer s3) = again" "ms_decoder s3 = ms_decoder s"
    "buf_distinct (ms_buffer s3) = buf_distinct (ms_buffer s')"
    using assms(7,8) dec by (simp_all add: ms_update_def ms_reset_def buffer_reset_def)
  have "retain_new key (buf_distinct (ms_buffer s')) (?sorted again) = ([], buf_distinct (ms_buffer s'))"
    by (rule retain_new_seen) (use seen assms(5) in auto)
  then have "buf_rows (buffer_distinct (buffer_sort ops (buffer_full (ms_buffer s3)) (rt_order_by r) (ms_decoder s3)) (Some d) (ms_decoder s3)) = []"
    using s3 by (simp add: buffer_distinct_def buffer_sort_def buffer_full_def key_def Let_def)
  then show ?thesis using fin [OF s3(1)] s3(2) False by (simp add: buffer_limit_def Let_def split: option.split)
qed

definition distinct_route :: "unit route" where
  "distinct_route = route_select (new_table ShAll) [] \<lparr>agg_targets = [], agg_group_by = []\<rparr>
     \<lparr>lim_limit = None, lim_offset = None\<rparr> (Some DistinctRow)"

definition distinct_demo :: "unit multi_shard" where
  "distinct_demo = (ms_new [0, 1] distinct_route)
     \<lparr>ms_buffer := \<lparr>buf_rows = [numbered ''1'' ''a''], buf_full = False, buf_distinct = {}\<rparr>\<rparr>"

theorem distinct_remembers_rows_witness:
  "\<exists>s' s4. finish_rows plain_ops id distinct_demo = (Inr (), s') \<and> buf_rows (ms_buffer s') = [numbered ''1'' ''a'']
    \<and> finish_rows plain_ops id ((ms_update s' 2 distinct_route)
        \<lparr>ms_buffer := (ms_buffer (ms_update s' 2 distinct_route))\<lparr>buf_rows := [numbered ''1'' ''a'']\<rparr>\<rparr>) = (Inr (), s4)
    \<and> buf_rows (ms_buffer s4) = []"
proof -
  have r: "rt_distinct distinct_route = Some DistinctRow" "agg_is_empty (rt_aggregate distinct_route)"
    "plan_drop_columns (rt_rewrite_plan distinct_route) = []" "rt_order_by distinct_route = []"
    "rt_limit distinct_route = \<lparr>lim_limit = None, lim_offset = None\<rparr>"
    by (simp_all add: distinct_route_def route_select_def route_default_def plan_new_def agg_is_empty_def)
  have s: "ms_route distinct_demo = distinct_route" "buf_rows (ms_buffer distinct_demo) = [numbered ''1'' ''a'']"
    by (simp_all add: distinct_demo_def ms_new_def)
  have "finish_rows plain_ops id distinct_demo = (Inr (), distinct_demo\<lparr>ms_buffer :=
      \<lparr>buf_rows = [numbered ''1'' ''a''], buf_full = True, buf_distinct = {numbered ''1'' ''a''}\<rparr>\<rparr>)"
    using r by (simp add: finish_rows_def distinct_demo_def ms_new_def buffer_full_def buffer_is_empty_def buffer_len_def
        buffer_aggregate_def drop_helper_columns_def buffer_sort_def sort_by_def buffer_distinct_def buffer_limit_def Let_def)
  from this distinct_remembers_rows [OF r(1-3) s(1) _ this refl refl, of "[numbered ''1'' ''a'']" 2] s(2)
  show ?thesis by auto
qed

text \<open>The messages the client gets of a row of messages from the shards.\<close>

fun forward_all ::
    "'o type_ops \<Rightarrow> ('o mappings \<Rightarrow> 'o mappings) \<Rightarrow> 'o multi_shard \<Rightarrow> message list \<Rightarrow> message list \<times> 'o multi_shard" where
  "forward_all ops iter s [] = ([], s)"
| "forward_all ops iter s (m # ms) =
     (case ms_forward ops iter s m of
        (r, s) \<Rightarrow>
          (case forward_all ops iter s ms of
             (out, s) \<Rightarrow> ((case r of Inr (Some x) \<Rightarrow> [x] | _ \<Rightarrow> []) @ out, s)))"

lemma forward_more_descriptions:
  assumes "msg_code m = CHR ''T''" "cn_row_description (ms_counters s) \<ge> ms_shards s" "ms_forward ops iter s m = (r, s')"
  shows "(case r of Inr (Some x) \<Rightarrow> [x] | _ \<Rightarrow> []) = []" "cn_row_description (ms_counters s') = Suc (cn_row_description (ms_counters s))"
    "ms_shards s' = ms_shards s"
proof -
  have f: "forward_row_description s m = (r, s')" using assms(1,3) by (simp add: ms_forward_def)
  define rv where "rv = (\<lambda>rd. fst (validate_row_description (ms_validator s) rd))"
  define v where "v = (\<lambda>rd. snd (validate_row_description (ms_validator s) rd))"
  have v: "validate_row_description (ms_validator s) rd = (rv rd, v rd)" for rd by (simp add: rv_def v_def)
  have "(case r of Inr (Some x) \<Rightarrow> [x] | _ \<Rightarrow> []) = [] \<and> cn_row_description (ms_counters s') = Suc (cn_row_description (ms_counters s))
    \<and> ms_shards s' = ms_shards s"
    using f assms(2) v
    by (cases "rd_from_bytes (payload m)"; cases "rv (projr (rd_from_bytes (payload m)))")
      (auto simp: forward_row_description_def Let_def)
  then show "(case r of Inr (Some x) \<Rightarrow> [x] | _ \<Rightarrow> []) = []" "cn_row_description (ms_counters s') = Suc (cn_row_description (ms_counters s))"
    "ms_shards s' = ms_shards s" by simp_all
qed

text \<open>Descriptions are compared with the number of shards once, not counted in rounds like every other message: when
  each shard describes a second result in answer to the same request, the client gets none of these descriptions.\<close>

theorem second_description_dropped:
  assumes "list_all (\<lambda>m. msg_code m = CHR ''T'') ms" "cn_row_description (ms_counters s) \<ge> ms_shards s"
  shows "fst (forward_all ops iter s ms) = []"
  using assms
proof (induction ms arbitrary: s)
  case (Cons m ms)
  obtain r s1 where f: "ms_forward ops iter s m = (r, s1)" by fastforce
  note m = forward_more_descriptions [OF _ Cons.prems(2) f]
  have "fst (forward_all ops iter s1 ms) = []" using Cons.IH [of s1] Cons.prems m(2,3) by simp
  with m(1) f Cons.prems(1) show ?case by (simp split: prod.split)
qed simp

theorem second_description_dropped_witness:
  "fst (forward_all plain_ops id ((ms_new [0, 1] sorted_route)\<lparr>ms_counters := counters_default\<lparr>cn_row_description := 2\<rparr>\<rparr>)
     [description_demo, description_demo]) = []"
  by (rule second_description_dropped) (simp_all add: description_demo_def new_message_def ms_new_def)

end
