(* ===== verification/HashFn.thy ===== *)
theory HashFn
  imports Prelude "HOL-Library.Word"
begin

text \<open>The PostgreSQL hash functions the router shards by:
  \<^verbatim>\<open>pgdog/src/frontend/router/sharding/hashfn.c\<close>.

  The C integers are words of their width, so every \<open>+=\<close>, \<open>-=\<close> and shift wraps as in C.  The macros
  \<open>mix\<close> and \<open>final\<close>, which assign to three variables, return the three new values.  The key is the
  list of its bytes; whether the pointer to it is word aligned, which \<open>hash_bytes_extended\<close> tests,
  and the byte order of the host, which a word-wide fetch depends on, are arguments.  The
  preprocessor symbol \<open>WORDS_BIGENDIAN\<close> is set neither in the file nor by \<^verbatim>\<open>pgdog/build.rs\<close>, so the
  branches modelled are the ones of \<open>!WORDS_BIGENDIAN\<close>.\<close>

unbundle bit_operations_syntax

section \<open>Mixing\<close>

type_synonym uint32 = "32 word"
type_synonym uint64 = "64 word"
type_synonym abc = "uint32 \<times> uint32 \<times> uint32"

definition pg_rotate_left32 :: "uint32 \<Rightarrow> nat \<Rightarrow> uint32" where
  "pg_rotate_left32 word n = (push_bit n word OR drop_bit (32 - n) word)"

definition mix :: "abc \<Rightarrow> abc" where
  "mix abc = (case abc of (a, b, c) \<Rightarrow>
     (let a = a - c; a = a XOR pg_rotate_left32 c 4; c = c + b;
          b = b - a; b = b XOR pg_rotate_left32 a 6; a = a + c;
          c = c - b; c = c XOR pg_rotate_left32 b 8; b = b + a;
          a = a - c; a = a XOR pg_rotate_left32 c 16; c = c + b;
          b = b - a; b = b XOR pg_rotate_left32 a 19; a = a + c;
          c = c - b; c = c XOR pg_rotate_left32 b 4; b = b + a
      in (a, b, c)))"

definition final :: "abc \<Rightarrow> abc" where
  "final abc = (case abc of (a, b, c) \<Rightarrow>
     (let c = c XOR b; c = c - pg_rotate_left32 b 14;
          a = a XOR c; a = a - pg_rotate_left32 c 11;
          b = b XOR a; b = b - pg_rotate_left32 a 25;
          c = c XOR b; c = c - pg_rotate_left32 b 16;
          a = a XOR c; a = a - pg_rotate_left32 c 4;
          b = b XOR a; b = b - pg_rotate_left32 a 14;
          c = c XOR b; c = c - pg_rotate_left32 b 24
      in (a, b, c)))"

abbreviation HASH_PARTITION_SEED :: uint64 where
  "HASH_PARTITION_SEED \<equiv> 0x7A5B22367996DCFD"

definition hash_combine64 :: "uint64 \<Rightarrow> uint64 \<Rightarrow> uint64" where
  "hash_combine64 a b = a XOR (b + 0x49a0f4dd15e5a8e3 + push_bit 54 a + drop_bit 7 a)"

section \<open>Hashing bytes\<close>

datatype byte_order = LittleEndian | BigEndian

text \<open>\<open>load32 order k i\<close> is the word-wide fetch \<open>ka[i]\<close> on a host of that byte order, and \<open>shifted k i n\<close>
  the term \<open>(uint32) k[i] << n\<close>.\<close>

fun load32 :: "byte_order \<Rightarrow> 8 word list \<Rightarrow> nat \<Rightarrow> uint32" where
  "load32 LittleEndian k i = (\<Sum>j<4. push_bit (8 * j) (ucast (k ! (4 * i + j))))"
| "load32 BigEndian k i = (\<Sum>j<4. push_bit (24 - 8 * j) (ucast (k ! (4 * i + j))))"

abbreviation shifted :: "8 word list \<Rightarrow> nat \<Rightarrow> nat \<Rightarrow> uint32" where
  "shifted k i n \<equiv> push_bit n (ucast (k ! i))"

fun aligned_blocks :: "byte_order \<Rightarrow> abc \<Rightarrow> 8 word list \<Rightarrow> nat \<Rightarrow> abc \<times> 8 word list \<times> nat" where
  "aligned_blocks order (a, b, c) k len =
     (if 12 \<le> len
      then aligned_blocks order (mix (a + load32 order k 0, b + load32 order k 1, c + load32 order k 2)) (drop 12 k) (len - 12)
      else ((a, b, c), k, len))"

text \<open>The \<open>switch\<close> falls through from the case of \<open>len\<close> down to the next \<open>break\<close>: a statement of case \<open>n\<close>
  runs when \<open>n \<le> len\<close> and no \<open>break\<close> lies between.\<close>

definition aligned_tail :: "byte_order \<Rightarrow> abc \<Rightarrow> 8 word list \<Rightarrow> nat \<Rightarrow> abc" where
  "aligned_tail order abc k len = (case abc of (a, b, c) \<Rightarrow>
     (if 8 \<le> len then
        let c = (if 11 \<le> len then c + shifted k 10 24 else c);
            c = (if 10 \<le> len then c + shifted k 9 16 else c);
            c = (if 9 \<le> len then c + shifted k 8 8 else c);
            b = b + load32 order k 1;
            a = a + load32 order k 0
        in (a, b, c)
      else if 4 \<le> len then
        let b = (if 7 \<le> len then b + shifted k 6 16 else b);
            b = (if 6 \<le> len then b + shifted k 5 8 else b);
            b = (if 5 \<le> len then b + ucast (k ! 4) else b);
            a = a + load32 order k 0
        in (a, b, c)
      else
        let a = (if 3 \<le> len then a + shifted k 2 16 else a);
            a = (if 2 \<le> len then a + shifted k 1 8 else a);
            a = (if 1 \<le> len then a + ucast (k ! 0) else a)
        in (a, b, c)))"

fun unaligned_blocks :: "abc \<Rightarrow> 8 word list \<Rightarrow> nat \<Rightarrow> abc \<times> 8 word list \<times> nat" where
  "unaligned_blocks (a, b, c) k len =
     (if 12 \<le> len
      then unaligned_blocks
             (mix (a + (ucast (k ! 0) + shifted k 1 8 + shifted k 2 16 + shifted k 3 24),
                   b + (ucast (k ! 4) + shifted k 5 8 + shifted k 6 16 + shifted k 7 24),
                   c + (ucast (k ! 8) + shifted k 9 8 + shifted k 10 16 + shifted k 11 24)))
             (drop 12 k) (len - 12)
      else ((a, b, c), k, len))"

definition unaligned_tail :: "abc \<Rightarrow> 8 word list \<Rightarrow> nat \<Rightarrow> abc" where
  "unaligned_tail abc k len = (case abc of (a, b, c) \<Rightarrow>
     (let c = (if 11 \<le> len then c + shifted k 10 24 else c);
          c = (if 10 \<le> len then c + shifted k 9 16 else c);
          c = (if 9 \<le> len then c + shifted k 8 8 else c);
          b = (if 8 \<le> len then b + shifted k 7 24 else b);
          b = (if 7 \<le> len then b + shifted k 6 16 else b);
          b = (if 6 \<le> len then b + shifted k 5 8 else b);
          b = (if 5 \<le> len then b + ucast (k ! 4) else b);
          a = (if 4 \<le> len then a + shifted k 3 24 else a);
          a = (if 3 \<le> len then a + shifted k 2 16 else a);
          a = (if 2 \<le> len then a + shifted k 1 8 else a);
          a = (if 1 \<le> len then a + ucast (k ! 0) else a)
      in (a, b, c)))"

text \<open>\<open>len\<close> is a \<open>uint32\<close>: a key of \<open>2 ^ 32\<close> bytes or more is cut by the assignment from \<open>keylen\<close>.\<close>

definition hash_bytes_extended :: "byte_order \<Rightarrow> bool \<Rightarrow> 8 word list \<Rightarrow> uint64" where
  "hash_bytes_extended order aligned k =
     (let len = of_nat (length k) :: uint32;
          seed = HASH_PARTITION_SEED;
          a = 0x9e3779b9 + len + 3923095;
          abc = (a, a, a);
          abc = (if seed \<noteq> 0 then mix (a + ucast (drop_bit 32 seed), a + ucast seed, a) else abc);
          abc = (if aligned
                 then case aligned_blocks order abc k (unat len) of (abc, k, len) \<Rightarrow> aligned_tail order abc k len
                 else case unaligned_blocks abc k (unat len) of (abc, k, len) \<Rightarrow> unaligned_tail abc k len)
      in case final abc of (a, b, c) \<Rightarrow> push_bit 32 (ucast b) OR ucast c)"

definition hash_bytes_uint32_extended :: "uint32 \<Rightarrow> uint64" where
  "hash_bytes_uint32_extended k =
     (let seed = HASH_PARTITION_SEED;
          a = 0x9e3779b9 + 4 + 3923095;
          abc = (a, a, a);
          abc = (if seed \<noteq> 0 then mix (a + ucast (drop_bit 32 seed), a + ucast seed, a) else abc)
      in case abc of (a, b, c) \<Rightarrow> case final (a + k, b, c) of (a, b, c) \<Rightarrow> push_bit 32 (ucast b) OR ucast c)"

definition hashint8extended :: "64 word \<Rightarrow> uint64" where
  "hashint8extended val =
     (let lohalf = ucast val :: uint32;
          hihalf = ucast (signed_drop_bit 32 val) :: uint32
      in hash_bytes_uint32_extended (lohalf XOR (if 0 \<le> sint val then hihalf else NOT hihalf)))"

section \<open>Alignment\<close>

declare aligned_blocks.simps [simp del] unaligned_blocks.simps [simp del] load32.simps [simp del]

lemma load32_little:
  "load32 LittleEndian k 0 = ucast (k ! 0) + shifted k 1 8 + shifted k 2 16 + shifted k 3 24"
  "load32 LittleEndian k 1 = ucast (k ! 4) + shifted k 5 8 + shifted k 6 16 + shifted k 7 24"
  "load32 LittleEndian k 2 = ucast (k ! 8) + shifted k 9 8 + shifted k 10 16 + shifted k 11 24"
  by (simp_all add: load32.simps numeral_eq_Suc lessThan_Suc ac_simps)

lemma blocks_agree: "aligned_blocks LittleEndian abc k len = unaligned_blocks abc k len"
proof (induction abc k len rule: unaligned_blocks.induct)
  case (1 a b c k len)
  then show ?case
    unfolding aligned_blocks.simps [of _ a] unaligned_blocks.simps [of a] load32_little by simp
qed

lemma tails_agree: "aligned_tail LittleEndian abc k len = unaligned_tail abc k len"
proof -
  consider "8 \<le> len" | "4 \<le> len" "\<not> 8 \<le> len" | "\<not> 4 \<le> len" by linarith
  then show ?thesis
    unfolding aligned_tail_def unaligned_tail_def load32_little Let_def
    by cases (simp_all add: ac_simps split: prod.split)
qed

text \<open>C38: On a little-endian host the hash of a key does not depend on where the key lies in memory:
  the word-wide code path and the byte-wide one agree.\<close>

theorem alignment_irrelevant:
  "hash_bytes_extended LittleEndian aligned k = hash_bytes_extended LittleEndian aligned' k"
  unfolding hash_bytes_extended_def blocks_agree tails_agree by simp

section \<open>Reversibility\<close>

text \<open>\<open>mix\<close> is six rounds of one step, in which the three variables change roles.\<close>

fun mix_round :: "nat \<Rightarrow> abc \<Rightarrow> abc" where
  "mix_round n (a, b, c) = (b, c + b, (a - c) XOR pg_rotate_left32 c n)"

lemma mix_rounds: "mix abc = fold mix_round [4, 6, 8, 16, 19, 4] abc"
  by (cases abc) (simp add: mix_def Let_def)

lemma xor_right_cancel: "(x :: 'a::len word) XOR z = y XOR z \<longleftrightarrow> x = y"
  by (metis xor.assoc xor.right_neutral xor_self_eq)

lemma mix_round_inj: "inj (mix_round n)"
  by (rule injI) (auto simp: xor_right_cancel)

lemma fold_inj: "(\<And>x. inj (f x)) \<Longrightarrow> inj (fold f xs)"
  by (induction xs) (auto intro: inj_compose)

text \<open>C1: \<open>mix\<close> is reversible, as its comment says: no two states of the hash are mixed into the same
  one, and every state is the mix of one.\<close>

theorem mix_reversible: "bij mix"
proof -
  have "mix = fold mix_round [4, 6, 8, 16, 19, 4]" by (rule ext) (rule mix_rounds)
  moreover have "inj (fold mix_round [4, 6, 8, 16, 19, 4])" by (rule fold_inj) (rule mix_round_inj)
  ultimately have "inj mix" by (simp only:)
  then show ?thesis by (simp add: bij_def finite_UNIV_inj_surj)
qed

section \<open>Integers\<close>

text \<open>The bytes of a word, lowest first.\<close>

definition le_bytes :: "uint32 \<Rightarrow> 8 word list" where
  "le_bytes v = map (\<lambda>i. ucast (drop_bit (8 * i) v)) [0, 1, 2, 3]"

lemma byte_of_word: "ucast (ucast (drop_bit n v) :: 8 word) = take_bit 8 (drop_bit n (v :: uint32))"
  by (rule bit_word_eqI) (auto simp: bit_simps)

lemma take_bit_next: "take_bit n v + push_bit n (take_bit 8 (drop_bit n v)) = take_bit (n + 8) (v :: uint32)"
proof -
  have "take_bit n v AND push_bit n (take_bit 8 (drop_bit n v)) = 0"
    by (rule bit_word_eqI) (auto simp: bit_simps)
  then have "take_bit n v + push_bit n (take_bit 8 (drop_bit n v)) = take_bit n v OR push_bit n (take_bit 8 (drop_bit n v))"
    by (rule disjunctive_add_eq_or)
  also have "\<dots> = take_bit (n + 8) v" by (rule bit_word_eqI) (auto simp: bit_simps)
  finally show ?thesis .
qed

lemma le_bytes_split:
  "ucast (le_bytes v ! 0) + shifted (le_bytes v) 1 8 + shifted (le_bytes v) 2 16 + shifted (le_bytes v) 3 24 = v"
proof -
  have "ucast (le_bytes v ! 0) = take_bit 8 v"
    using byte_of_word [of 0 v] by (simp add: le_bytes_def)
  moreover have "shifted (le_bytes v) 1 8 = push_bit 8 (take_bit 8 (drop_bit 8 v))"
    "shifted (le_bytes v) 2 16 = push_bit 16 (take_bit 8 (drop_bit 16 v))"
    "shifted (le_bytes v) 3 24 = push_bit 24 (take_bit 8 (drop_bit 24 v))"
    by (simp_all add: le_bytes_def byte_of_word)
  moreover have "take_bit 32 v = v" by (rule bit_word_eqI) (auto simp: bit_simps)
  ultimately show ?thesis
    using take_bit_next [of 8 v] take_bit_next [of 16 v] take_bit_next [of 24 v] by simp
qed

lemma hash_four_bytes: "hash_bytes_extended LittleEndian True (le_bytes v) = hash_bytes_uint32_extended v"
proof -
  have tail: "aligned_tail LittleEndian (a, b, c) (le_bytes v) 4 = (a + v, b, c)" for a b c
    unfolding aligned_tail_def load32_little le_bytes_split by simp
  have "length (le_bytes v) = 4" by (simp add: le_bytes_def)
  then show ?thesis
    unfolding hash_bytes_extended_def hash_bytes_uint32_extended_def Let_def
    by (simp add: aligned_blocks.simps tail split: prod.split)
qed

lemma hashint8_small: "hashint8extended (scast (v :: 32 word)) = hash_bytes_uint32_extended v"
proof -
  let ?w = "scast v :: 64 word"
  have lo: "ucast ?w = v" by (rule bit_word_eqI) (auto simp: bit_simps)
  have sign: "0 \<le> sint ?w \<longleftrightarrow> \<not> bit v 31"
    using bit_last_iff [of ?w] by (simp add: not_less bit_simps)
  have hi: "(ucast (signed_drop_bit 32 ?w) :: 32 word) = (if bit v 31 then - 1 else 0)"
    by (rule bit_word_eqI) (auto simp: bit_simps)
  show ?thesis
    unfolding hashint8extended_def Let_def lo sign hi by simp
qed

text \<open>C39: A \<open>bigint\<close> that fits in four bytes hashes as the \<open>integer\<close> of the same value does: its hash
  is the hash of the four bytes, wherever they lie in memory.  So a key keeps its shard when its
  column is widened, and the two special routines for integers agree with the general one.\<close>

theorem integers_hash_alike:
  "hashint8extended (scast v) = hash_bytes_extended LittleEndian aligned (le_bytes v)"
  using hash_four_bytes unfolding hashint8_small hash_bytes_extended_def blocks_agree tails_agree by simp

section \<open>The key 1\<close>

text \<open>The hashes of the integer 1 and of the text that writes it, step by step.\<close>

fun final_round :: "nat \<Rightarrow> abc \<Rightarrow> abc" where
  "final_round n (t, u, v) = (u, v, (t XOR v) - pg_rotate_left32 v n)"

lemma final_rounds: "final (a, b, c) = fold final_round [14, 11, 25, 16, 4, 14, 24] (c, a, b)"
  by (simp add: final_def Let_def)

lemma mix_start:
  "mix (4711151754, 8816678315529745233, 2658358868) = (3912455486, 3319400360, 4261254637)"
  "mix (4711151751, 8816678315529745230, 2658358865) = (1096563304, 1214345871, 2098649173)"
  unfolding mix_rounds by code_simp+

lemma final_demo:
  "final (3912455487, 3319400360, 4261254637) = (1452033679, 1389764869, 2166679253)"
  "final (1096563353, 1214345871, 2098649173) = (876434488, 1568695468, 3103756734)"
  unfolding final_rounds by code_simp+

lemma hash_int_1: "hashint8extended 1 = 5968994663651403477"
proof -
  have "hash_bytes_uint32_extended 1 = 5968994663651403477"
    using mix_start(1) final_demo(1)
    by (simp add: hash_bytes_uint32_extended_def)
  then show ?thesis
    using hashint8_small [of 1] by simp
qed

lemma hash_text_1: "hash_bytes_extended LittleEndian aligned [49] = 6737495735547171262"
proof -
  have "hash_bytes_extended LittleEndian False [49] = 6737495735547171262"
    using mix_start(2) final_demo(2)
    by (simp add: hash_bytes_extended_def unaligned_blocks.simps unaligned_tail_def)
  then show ?thesis unfolding hash_bytes_extended_def blocks_agree tails_agree by simp
qed

lemma combine_demo: "hash_combine64 0 5968994663651403477 mod 2 = 0" "hash_combine64 0 6737495735547171262 mod 2 = 1"
  by code_simp+

end
