(* ===== verification/ShardKey.thy ===== *)
theory ShardKey
  imports Route HashFn
begin

text \<open>
  The value of a sharding key and its hash: \<^verbatim>\<open>value.rs\<close>, \<^verbatim>\<open>hasher.rs\<close>, \<^verbatim>\<open>error.rs\<close> and the hash functions of \<^verbatim>\<open>mod.rs\<close> in
  \<^verbatim>\<open>pgdog/src/frontend/router/sharding\<close>.

  A \<^verbatim>\<open>Uuid\<close> is its sixteen bytes. What the code takes from other crates and from the host is the record \<open>key_ops\<close>:
  the parser of the uuid crate, the digest of the sha1 crate, the decoder and the distance of vectors, which rest on
  IEEE arithmetic, the byte order of the host, and whether the key lies at a word-aligned address.
\<close>

section \<open>Values\<close>

datatype key_type = KtBigint | KtUuid | KtVector | KtVarchar

datatype key_data = DataText string | DataBinary bytes | DataInteger int

datatype sharding_error =
    ShParseInt string
  | ShSize
  | ShUuid
  | ShNet net_error
  | ShIncompleteContext
  | ShUtf8
  | ShIntegerSize
  | ShNullError
  | ShBtreeNodeError
  | ShIncorrectRange
  | ShMultipleShardingFunctions
  | ShInvalidValue
  | ShConfigError
  | ShTypeError type_error

record 'o key_ops =
  x_types :: "'o type_ops"
  x_uuid :: "string \<Rightarrow> bytes option"
  x_sha1 :: "bytes \<Rightarrow> bytes"
  x_order :: byte_order
  x_aligned :: bool

record key_value =
  kv_type :: key_type
  kv_data :: key_data

definition value_new :: "key_data \<Rightarrow> key_type \<Rightarrow> key_value" where
  "value_new d t = \<lparr>kv_type = t, kv_data = d\<rparr>"

definition utf8 :: "bytes \<Rightarrow> sharding_error + string" where
  "utf8 bs = (if utf8_valid bs then Inr bs else Inl ShUtf8)"

definition value_from_param :: "parameter_with_format \<Rightarrow> key_type \<Rightarrow> sharding_error + key_value" where
  "value_from_param p t =
     (let bs = param_data (pwf_parameter p) in
      case pwf_format p of
        Text \<Rightarrow> and_then (utf8 bs) (\<lambda>s. Inr (value_new (DataText s) t))
      | Binary \<Rightarrow> Inr (value_new (DataBinary bs) t))"

definition value_vector :: "'o key_ops \<Rightarrow> key_value \<Rightarrow> sharding_error + 'o option" where
  "value_vector X v =
     (if kv_type v = KtVector then
        let decode = (\<lambda>bs fmt. case o_decode (x_types X) DtVector bs fmt of Inl e \<Rightarrow> Inl (ShTypeError e) | Inr w \<Rightarrow> Inr (Some w)) in
        case kv_data v of
          DataText s \<Rightarrow> decode s Text
        | DataBinary bs \<Rightarrow> decode bs Binary
        | DataInteger _ \<Rightarrow> Inr None
      else Inr None)"

definition value_valid :: "'o key_ops \<Rightarrow> key_value \<Rightarrow> bool" where
  "value_valid X v =
     (case kv_type v of
        KtBigint \<Rightarrow>
          (case kv_data v of
             DataText s \<Rightarrow> parse_i64 s \<noteq> None
           | DataBinary bs \<Rightarrow> length bs \<in> {2, 4, 8}
           | DataInteger _ \<Rightarrow> True)
      | KtUuid \<Rightarrow>
          (case kv_data v of
             DataText s \<Rightarrow> x_uuid X s \<noteq> None
           | DataBinary bs \<Rightarrow> length bs = 16
           | DataInteger _ \<Rightarrow> False)
      | KtVarchar \<Rightarrow>
          (case kv_data v of
             DataText _ \<Rightarrow> True
           | DataBinary bs \<Rightarrow> utf8_valid bs
           | DataInteger _ \<Rightarrow> False)
      | KtVector \<Rightarrow> False)"

text \<open>\<^verbatim>\<open>from_be_bytes\<close> of two, four or eight bytes, the match on the length that \<^verbatim>\<open>integer\<close> and \<^verbatim>\<open>hash\<close> share.\<close>

definition be_integer :: "bytes \<Rightarrow> sharding_error + int" where
  "be_integer bs =
     (if length bs = 2 then Inr (to_signed 16 (be_value bs))
      else if length bs = 4 then Inr (to_signed 32 (be_value bs))
      else if length bs = 8 then Inr (to_signed 64 (be_value bs))
      else Inl ShIntegerSize)"

definition value_integer :: "key_value \<Rightarrow> sharding_error + int option" where
  "value_integer v =
     (if kv_type v = KtBigint then
        case kv_data v of
          DataInteger i \<Rightarrow> Inr (Some i)
        | DataText s \<Rightarrow> (case parse_i64 s of None \<Rightarrow> Inl (ShParseInt s) | Some i \<Rightarrow> Inr (Some i))
        | DataBinary bs \<Rightarrow> and_then (be_integer bs) (\<lambda>i. Inr (Some i))
      else Inr None)"

definition value_varchar :: "key_value \<Rightarrow> sharding_error + string option" where
  "value_varchar v =
     (if kv_type v = KtVarchar then
        case kv_data v of
          DataInteger _ \<Rightarrow> Inr None
        | DataText s \<Rightarrow> Inr (Some s)
        | DataBinary bs \<Rightarrow> and_then (utf8 bs) (\<lambda>s. Inr (Some s))
      else Inr None)"

definition value_uuid :: "'o key_ops \<Rightarrow> key_value \<Rightarrow> sharding_error + bytes option" where
  "value_uuid X v =
     (if kv_type v \<noteq> KtUuid then Inr None
      else case kv_data v of
        DataText s \<Rightarrow> (case x_uuid X s of None \<Rightarrow> Inl ShUuid | Some u \<Rightarrow> Inr (Some u))
      | DataBinary bs \<Rightarrow> if length bs = 16 then Inr (Some bs) else Inl ShUuid
      | DataInteger _ \<Rightarrow> Inr None)"

section \<open>Hashes\<close>

definition hash_bytes_ffi :: "'o key_ops \<Rightarrow> bytes \<Rightarrow> u64" where
  "hash_bytes_ffi X bs = hash_bytes_extended (x_order X) (x_aligned X) (map of_char bs)"

definition bigint_hash :: "int \<Rightarrow> u64" where
  "bigint_hash i = hash_combine64 0 (hashint8extended (word_of_int i))"

definition uuid_hash :: "'o key_ops \<Rightarrow> bytes \<Rightarrow> u64" where
  "uuid_hash X u = hash_combine64 0 (hash_bytes_ffi X u)"

definition varchar_hash :: "'o key_ops \<Rightarrow> bytes \<Rightarrow> u64" where
  "varchar_hash X s = hash_combine64 0 (hash_bytes_ffi X s)"

datatype hasher = HPostgres | HSha1

text \<open>\<^verbatim>\<open>{:x}\<close> of a digest and \<^verbatim>\<open>from_str_radix(_, 16)\<close>.\<close>

definition hex_digit :: "nat \<Rightarrow> char" where
  "hex_digit n = char_of (if n < 10 then 48 + n else 87 + n)"

definition hex_value :: "char \<Rightarrow> nat" where
  "hex_value c = (if of_char c < (58 :: nat) then of_char c - 48 else of_char c - 87)"

definition to_hex :: "bytes \<Rightarrow> string" where
  "to_hex bs = concat (map (\<lambda>c. [hex_digit (of_char c div 16), hex_digit (of_char c mod 16)]) bs)"

definition from_hex :: "string \<Rightarrow> nat" where
  "from_hex s = foldl (\<lambda>n c. 16 * n + hex_value c) 0 s"

definition hasher_sha1 :: "'o key_ops \<Rightarrow> bytes \<Rightarrow> u64" where
  "hasher_sha1 X bs =
     (let hex = to_hex (x_sha1 X bs);
          key = from_hex (drop (length hex - 8) hex)
      in of_nat key)"

definition hasher_bigint :: "'o key_ops \<Rightarrow> hasher \<Rightarrow> int \<Rightarrow> u64" where
  "hasher_bigint X h i = (case h of HPostgres \<Rightarrow> bigint_hash i | HSha1 \<Rightarrow> hasher_sha1 X (show_int i))"

definition hasher_uuid :: "'o key_ops \<Rightarrow> hasher \<Rightarrow> bytes \<Rightarrow> u64" where
  "hasher_uuid X h u = (case h of HPostgres \<Rightarrow> uuid_hash X u | HSha1 \<Rightarrow> hasher_sha1 X u)"

definition hasher_varchar :: "'o key_ops \<Rightarrow> hasher \<Rightarrow> bytes \<Rightarrow> u64" where
  "hasher_varchar X h s = (case h of HPostgres \<Rightarrow> varchar_hash X s | HSha1 \<Rightarrow> hasher_sha1 X s)"

definition value_hash :: "'o key_ops \<Rightarrow> key_value \<Rightarrow> hasher \<Rightarrow> sharding_error + u64 option" where
  "value_hash X v h =
     (case kv_type v of
        KtBigint \<Rightarrow>
          (case kv_data v of
             DataText s \<Rightarrow>
               (case parse_i64 s of None \<Rightarrow> Inl (ShParseInt s) | Some i \<Rightarrow> Inr (Some (hasher_bigint X h i)))
           | DataBinary bs \<Rightarrow> and_then (be_integer bs) (\<lambda>i. Inr (Some (hasher_bigint X h i)))
           | DataInteger i \<Rightarrow> Inr (Some (hasher_bigint X h i)))
      | KtUuid \<Rightarrow>
          (case kv_data v of
             DataText s \<Rightarrow> (case x_uuid X s of None \<Rightarrow> Inl ShUuid | Some u \<Rightarrow> Inr (Some (hasher_uuid X h u)))
           | DataBinary bs \<Rightarrow> if length bs = 16 then Inr (Some (hasher_uuid X h bs)) else Inl ShSize
           | DataInteger _ \<Rightarrow> Inr None)
      | KtVector \<Rightarrow> Inr None
      | KtVarchar \<Rightarrow>
          (case kv_data v of
             DataBinary bs \<Rightarrow> Inr (Some (hasher_varchar X h bs))
           | DataText s \<Rightarrow> Inr (Some (hasher_varchar X h s))
           | DataInteger _ \<Rightarrow> Inr None))"

end
