(* ===== verification/Sharding.thy ===== *)
theory Sharding
  imports ShardKey
begin

text \<open>
  How a key chooses its shard: the rules of the configuration (\<^verbatim>\<open>pgdog-config/src/sharding.rs\<close>), the sharded tables and
  schemas of a cluster (\<^verbatim>\<open>pgdog/src/backend/replication/sharded_tables.rs\<close>, \<^verbatim>\<open>sharded_schema.rs\<close>) and the sharding functions
  of the router (\<^verbatim>\<open>range.rs\<close>, \<^verbatim>\<open>list.rs\<close>, \<^verbatim>\<open>operator.rs\<close>, \<^verbatim>\<open>context.rs\<close>, \<^verbatim>\<open>context_builder.rs\<close>, \<^verbatim>\<open>mod.rs\<close>, \<^verbatim>\<open>tables.rs\<close>, \<^verbatim>\<open>schema.rs\<close> in
  \<^verbatim>\<open>pgdog/src/frontend/router/sharding\<close>), with the centroids of \<^verbatim>\<open>pgdog-vector/src/lib.rs\<close>.

  A hash set is the list of its elements in the order of iteration. The remainder by the number of shards panics when
  there is none; the theorems that need it assume there is one.
\<close>

section \<open>Rules of the configuration\<close>

datatype flexible_type = FInteger int | FUuid bytes | FString string

datatype mapping_kind = ListKind | RangeKind | DefaultKind

record sharded_mapping =
  sm_database :: string
  sm_column :: string
  sm_table :: "string option"
  sm_schema :: "string option"
  sm_kind :: mapping_kind
  sm_start :: "flexible_type option"
  sm_end :: "flexible_type option"
  sm_values :: "flexible_type list"
  sm_shard :: nat

record list_shards =
  ls_mapping :: "(flexible_type, nat) hmap"
  ls_default :: "nat option"

datatype shard_mapping = RangeMapping "sharded_mapping list" | ListMapping list_shards

definition ls_new :: "sharded_mapping list \<Rightarrow> list_shards" where
  "ls_new mappings =
     \<lparr>ls_mapping =
        fold (\<lambda>m. fold (\<lambda>v. hm_insert v (sm_shard m)) (sm_values m)) (filter (\<lambda>m. sm_kind m = ListKind) mappings) [],
      ls_default = map_option sm_shard (find (\<lambda>m. sm_kind m = DefaultKind) mappings)\<rparr>"

definition ls_shard :: "list_shards \<Rightarrow> flexible_type \<Rightarrow> nat option" where
  "ls_shard l v =
     (case hm_get (ls_mapping l) v of
        Some n \<Rightarrow> Some n
      | None \<Rightarrow> (case ls_default l of Some n \<Rightarrow> Some n | None \<Rightarrow> None))"

definition mapping_new :: "sharded_mapping list \<Rightarrow> shard_mapping option" where
  "mapping_new mappings =
     (let range = filter (\<lambda>m. sm_kind m = RangeKind) mappings;
          list = list_ex (\<lambda>m. sm_kind m = ListKind \<or> sm_kind m = DefaultKind) mappings
      in if range \<noteq> [] then Some (RangeMapping range)
         else if list then Some (ListMapping (ls_new mappings))
         else None)"

record 'o sharded_table =
  st_database :: string
  st_name :: "string option"
  st_schema :: "string option"
  st_column :: string
  st_primary :: bool
  st_centroids :: "'o list"
  st_centroids_path :: "string option"
  st_data_type :: key_type
  st_centroid_probes :: nat
  st_hasher :: hasher
  st_mapping :: "shard_mapping option"

section \<open>Sharding functions\<close>

subsection \<open>Ranges\<close>

definition range_integer :: "sharded_mapping \<Rightarrow> int \<Rightarrow> bool" where
  "range_integer r v =
     (case sm_start r of
        Some (FInteger start) \<Rightarrow>
          (case sm_end r of Some (FInteger end') \<Rightarrow> start \<le> v \<and> v < end' | _ \<Rightarrow> start \<le> v)
      | _ \<Rightarrow> (case sm_end r of Some (FInteger end') \<Rightarrow> v < end' | _ \<Rightarrow> False))"

definition range_varchar :: "sharded_mapping \<Rightarrow> string \<Rightarrow> bool" where
  "range_varchar r v =
     (case sm_start r of
        Some (FString start) \<Rightarrow>
          (case sm_end r of Some (FString end') \<Rightarrow> start \<le> v \<and> v < end' | _ \<Rightarrow> start \<le> v)
      | _ \<Rightarrow> (case sm_end r of Some (FString end') \<Rightarrow> v < end' | _ \<Rightarrow> False))"

text \<open>\<open>bound_matches\<close> is the body of the innermost loop of \<^verbatim>\<open>valid\<close>, which counts the ends of one range that lie in
  another.\<close>

definition bound_matches :: "sharded_mapping \<Rightarrow> flexible_type option \<Rightarrow> bool" where
  "bound_matches r v =
     (case v of Some (FString s) \<Rightarrow> range_varchar r s | Some (FInteger i) \<Rightarrow> range_integer r i | _ \<Rightarrow> False)"

definition ranges_valid :: "sharded_mapping list \<Rightarrow> bool" where
  "ranges_valid mappings =
     (let ranges = filter (\<lambda>m. sm_kind m = RangeKind) mappings;
          bounds = map (\<lambda>m. [sm_start m, sm_end m]) ranges
      in list_all (\<lambda>bound. list_all (\<lambda>r. \<not> 1 < length (filter (bound_matches r) bound)) ranges) bounds)"

definition mapping_valid :: "shard_mapping \<Rightarrow> bool" where
  "mapping_valid m = (case m of RangeMapping ms \<Rightarrow> ranges_valid ms | ListMapping _ \<Rightarrow> True)"

text \<open>The body of the loop of \<^verbatim>\<open>shard\<close>, and the loop, which returns the shard of the first range that matches.\<close>

definition range_matches :: "int option \<Rightarrow> string option \<Rightarrow> sharded_mapping \<Rightarrow> bool" where
  "range_matches integer varchar r \<longleftrightarrow>
     (case integer of Some i \<Rightarrow> range_integer r i | None \<Rightarrow> False)
     \<or> (case varchar of Some s \<Rightarrow> range_varchar r s | None \<Rightarrow> False)"

definition ranges_shard :: "sharded_mapping list \<Rightarrow> key_value \<Rightarrow> sharding_error + shard" where
  "ranges_shard mappings v =
     and_then (value_integer v) (\<lambda>integer.
     and_then (value_varchar v) (\<lambda>varchar.
       case find (range_matches integer varchar) (filter (\<lambda>m. sm_kind m = RangeKind) mappings) of
         Some r \<Rightarrow> Inr (ShDirect (sm_shard r))
       | None \<Rightarrow> Inr ShAll))"

subsection \<open>Lists\<close>

definition lists_shard :: "'o key_ops \<Rightarrow> list_shards \<Rightarrow> key_value \<Rightarrow> sharding_error + shard" where
  "lists_shard X l v =
     and_then (value_integer v) (\<lambda>integer.
     and_then (value_varchar v) (\<lambda>varchar.
     and_then (value_uuid X v) (\<lambda>uuid.
       case integer of
         Some i \<Rightarrow> Inr (shard_from_option (ls_shard l (FInteger i)))
       | None \<Rightarrow>
           (case uuid of
              Some u \<Rightarrow> Inr (shard_from_option (ls_shard l (FUuid u)))
            | None \<Rightarrow>
                (case varchar of
                   Some s \<Rightarrow> Inr (shard_from_option (ls_shard l (FString s)))
                 | None \<Rightarrow> Inr ShAll)))))"

subsection \<open>Centroids\<close>

definition centroids_shard :: "'o key_ops \<Rightarrow> 'o list \<Rightarrow> 'o \<Rightarrow> nat \<Rightarrow> nat \<Rightarrow> nat list" where
  "centroids_shard X centroids vector shards probes =
     (let nearer = (\<lambda>a b. case o_distance_cmp (x_types X) (snd a) (snd b) vector of Some c \<Rightarrow> c | None \<Rightarrow> Equal)
      in map (\<lambda>(i, _). i mod shards) (take probes (sort_by nearer (zip [0..<length centroids] centroids))))"

subsection \<open>Contexts\<close>

datatype 'o operator =
    OpShards nat
  | OpCentroids nat nat "'o list"
  | OpRange "sharded_mapping list"
  | OpList list_shards

record 'o sharding_context =
  sc_value :: key_value
  sc_operator :: "'o operator"
  sc_hasher :: hasher

definition hash_shard :: "u64 \<Rightarrow> nat \<Rightarrow> shard" where
  "hash_shard h shards = ShDirect (unat h mod shards)"

definition context_apply :: "'o key_ops \<Rightarrow> 'o sharding_context \<Rightarrow> sharding_error + shard" where
  "context_apply X c =
     (case sc_operator c of
        OpShards shards \<Rightarrow>
          and_then (value_hash X (sc_value c) (sc_hasher c)) (\<lambda>hash.
            case hash of Some h \<Rightarrow> Inr (hash_shard h shards) | None \<Rightarrow> Inr ShAll)
      | OpCentroids shards probes centroids \<Rightarrow>
          and_then (value_vector X (sc_value c)) (\<lambda>vector.
            case vector of
              Some w \<Rightarrow> Inr (ShMulti (centroids_shard X centroids w shards probes))
            | None \<Rightarrow> Inr ShAll)
      | OpRange ranges \<Rightarrow> ranges_shard ranges (sc_value c)
      | OpList l \<Rightarrow> lists_shard X l (sc_value c))"

section \<open>Tables and schemas of a cluster\<close>

text \<open>Equality of rules, as \<^verbatim>\<open>derive(PartialEq)\<close> has it: hash sets and hash maps are equal when they have the same
  elements.\<close>

definition same_rule :: "sharded_mapping \<Rightarrow> sharded_mapping \<Rightarrow> bool" where
  "same_rule a b \<longleftrightarrow> set (sm_values a) = set (sm_values b) \<and> a\<lparr>sm_values := []\<rparr> = b\<lparr>sm_values := []\<rparr>"

definition same_mapping :: "shard_mapping option \<Rightarrow> shard_mapping option \<Rightarrow> bool" where
  "same_mapping a b =
     (case (a, b) of
        (None, None) \<Rightarrow> True
      | (Some (RangeMapping xs), Some (RangeMapping ys)) \<Rightarrow> list_all2 same_rule xs ys
      | (Some (ListMapping l), Some (ListMapping k)) \<Rightarrow>
          set (ls_mapping l) = set (ls_mapping k) \<and> ls_default l = ls_default k
      | _ \<Rightarrow> False)"

definition same_function :: "'o sharded_table \<Rightarrow> 'o sharded_table \<Rightarrow> bool" where
  "same_function a b \<longleftrightarrow>
     st_data_type a = st_data_type b \<and> same_mapping (st_mapping a) (st_mapping b)
     \<and> st_centroid_probes a = st_centroid_probes b \<and> st_centroids a = st_centroids b"

record common_mapping =
  cm_data_type :: key_type
  cm_mapping :: "shard_mapping option"

datatype system_catalogs = CatalogsOmnisharded | CatalogsOmnishardedSticky | CatalogsSharded

record 'o sharded_tables =
  ts_tables :: "'o sharded_table list"
  ts_omnisharded :: "(string, bool) hmap"
  ts_common_mapping :: "common_mapping option"
  ts_omnisharded_sticky :: bool
  ts_system_catalogs :: system_catalogs

text \<open>The set of the sharding functions of the tables has one element when there is a table and all others have the
  function of the first.\<close>

definition sharded_tables_new ::
    "'o sharded_table list \<Rightarrow> (string \<times> bool) list \<Rightarrow> bool \<Rightarrow> system_catalogs \<Rightarrow> 'o sharded_tables" where
  "sharded_tables_new tables omnisharded sticky catalogs =
     \<lparr>ts_tables = tables,
      ts_omnisharded = fold (\<lambda>(name, sticky_routing). hm_insert name sticky_routing) omnisharded [],
      ts_common_mapping =
        (case tables of
           [] \<Rightarrow> None
         | t # rest \<Rightarrow>
             if list_all (same_function t) rest then Some \<lparr>cm_data_type = st_data_type t, cm_mapping = st_mapping t\<rparr>
             else None),
      ts_omnisharded_sticky = sticky,
      ts_system_catalogs = catalogs\<rparr>"

record column_ref =
  col_name :: string
  col_table :: "string option"
  col_schema :: "string option"

text \<open>\<^verbatim>\<open>column.table()\<close> is the table a column names, without an alias.\<close>

definition get_table :: "'o sharded_tables \<Rightarrow> column_ref \<Rightarrow> 'o sharded_table option" where
  "get_table ts column =
     (case col_table column of
        None \<Rightarrow> None
      | Some table \<Rightarrow>
          find (\<lambda>candidate.
              (case st_name candidate of Some name \<Rightarrow> name = table | None \<Rightarrow> True)
              \<and> (case st_schema candidate of
                    Some schema_name \<Rightarrow> (case col_schema column of Some schema \<Rightarrow> schema = schema_name | None \<Rightarrow> True)
                  | None \<Rightarrow> True)
              \<and> col_name column = st_column candidate)
            (ts_tables ts))"

definition position :: "('a \<Rightarrow> bool) \<Rightarrow> 'a list \<Rightarrow> nat option" where
  "position p xs = find (\<lambda>i. p (xs ! i)) [0..<length xs]"

record 'o sharded_column =
  sh_data_type :: key_type
  sh_position :: nat
  sh_centroids :: "'o list"
  sh_centroid_probes :: nat

definition from_sharded_table :: "'o sharded_table \<Rightarrow> string list \<Rightarrow> 'o sharded_column option" where
  "from_sharded_table t columns =
     map_option (\<lambda>i. \<lparr>sh_data_type = st_data_type t, sh_position = i, sh_centroids = st_centroids t,
                      sh_centroid_probes = st_centroid_probes t\<rparr>)
       (position (\<lambda>c. c = st_column t) columns)"

fun first_some :: "('a \<Rightarrow> 'b option) \<Rightarrow> 'a list \<Rightarrow> 'b option" where
  "first_some f [] = None"
| "first_some f (x # xs) = (case f x of Some y \<Rightarrow> Some y | None \<Rightarrow> first_some f xs)"

definition get_sharded_column :: "'o sharded_tables \<Rightarrow> string \<Rightarrow> string list \<Rightarrow> 'o sharded_column option" where
  "get_sharded_column ts table columns =
     (let with_names = filter (\<lambda>t. st_name t \<noteq> None) (ts_tables ts);
          without_names = filter (\<lambda>t. st_name t = None) (ts_tables ts)
      in case first_some (\<lambda>t. if Some table = st_name t then from_sharded_table t columns else None) with_names of
           Some c \<Rightarrow> Some c
         | None \<Rightarrow> first_some (\<lambda>t. from_sharded_table t columns) without_names)"

text \<open>\<^verbatim>\<open>Tables::key\<close>: the table and the position of its key among the columns of a statement.\<close>

definition tables_key :: "'o sharded_tables \<Rightarrow> string \<Rightarrow> string list \<Rightarrow> ('o sharded_table \<times> nat) option" where
  "tables_key ts table columns =
     (let key = (\<lambda>t. position (\<lambda>c. c = st_column t) columns);
          sharded = find (\<lambda>t. st_name t = Some table) (filter (\<lambda>t. st_name t \<noteq> None) (ts_tables ts))
      in case Option.bind sharded (\<lambda>t. map_option (Pair t) (key t)) of
           Some k \<Rightarrow> Some k
         | None \<Rightarrow>
             Option.bind (find (\<lambda>(_, p). p \<noteq> None) (map (\<lambda>t. (t, key t)) (filter (\<lambda>t. st_name t = None) (ts_tables ts))))
               (\<lambda>(t, p). map_option (Pair t) p))"

record sharded_schema =
  ss_database :: string
  ss_name :: "string option"
  ss_shard :: nat
  ss_all :: bool

definition schema_shard :: "sharded_schema \<Rightarrow> nat option" where
  "schema_shard s = (if ss_all s then None else Some (ss_shard s))"

definition schema_name :: "sharded_schema \<Rightarrow> string" where
  "schema_name s = (case ss_name s of Some n \<Rightarrow> n | None \<Rightarrow> ''*'')"

record sharded_schemas =
  sss_schemas :: "(string, sharded_schema) hmap"
  sss_default :: "sharded_schema option"

definition sharded_schemas_new :: "sharded_schema list \<Rightarrow> sharded_schemas" where
  "sharded_schemas_new schemas =
     \<lparr>sss_schemas = fold (\<lambda>s. hm_insert (schema_name s) s) (filter (\<lambda>s. ss_name s \<noteq> None) schemas) [],
      sss_default = find (\<lambda>s. ss_name s = None) schemas\<rparr>"

definition sharded_schemas_get :: "sharded_schemas \<Rightarrow> string option \<Rightarrow> sharded_schema option" where
  "sharded_schemas_get ss schema =
     (case Option.bind schema (hm_get (sss_schemas ss)) of Some s \<Rightarrow> Some s | None \<Rightarrow> sss_default ss)"

text \<open>\<^verbatim>\<open>SchemaSharder\<close>: \<^verbatim>\<open>schemas.is_empty()\<close> reads the map of the named schemas, through \<^verbatim>\<open>Deref\<close>.\<close>

record schema_sharder =
  sr_catch_all :: bool
  sr_current :: "shard option"
  sr_schema :: "string option"

definition sharder_default :: schema_sharder where
  "sharder_default = \<lparr>sr_catch_all = False, sr_current = None, sr_schema = None\<rparr>"

definition sharder_resolve :: "sharded_schemas \<Rightarrow> string option \<Rightarrow> schema_sharder \<Rightarrow> schema_sharder" where
  "sharder_resolve schemas schema r =
     (if sss_schemas schemas = [] then r
      else case sharded_schemas_get schemas schema of
        None \<Rightarrow> r
      | Some s \<Rightarrow>
          let catch_all = (ss_name s = None);
              set = (catch_all \<and> sr_current r = None \<or> sr_catch_all r \<or> sr_current r = None)
          in if set
             then \<lparr>sr_catch_all = catch_all, sr_current = Some (shard_from_option (schema_shard s)),
                   sr_schema = Some (schema_name s)\<rparr>
             else r)"

datatype parameter_value = PvString string | PvTuple "string list" | PvInteger int

definition sharder_resolve_parameter :: "sharded_schemas \<Rightarrow> parameter_value \<Rightarrow> schema_sharder \<Rightarrow> schema_sharder" where
  "sharder_resolve_parameter schemas parameter r =
     (if sss_schemas schemas = [] then r
      else case parameter of
        PvString search_path \<Rightarrow> sharder_resolve schemas (Some search_path) r
      | PvTuple search_paths \<Rightarrow> fold (\<lambda>schema. sharder_resolve schemas (Some schema)) search_paths r
      | PvInteger _ \<Rightarrow> r)"

definition sharder_get :: "schema_sharder \<Rightarrow> (shard \<times> string) option" where
  "sharder_get r =
     (case sr_current r of
        Some current \<Rightarrow> (case sr_schema r of Some schema \<Rightarrow> Some (current, schema) | None \<Rightarrow> None)
      | None \<Rightarrow> None)"

section \<open>Building a context\<close>

record 'o context_builder =
  cb_data_type :: key_type
  cb_value :: "key_value option"
  cb_operator :: "'o operator option"
  cb_centroids :: "'o list option"
  cb_ranges :: "sharded_mapping list option"
  cb_lists :: "list_shards option"
  cb_probes :: nat
  cb_hasher :: hasher

definition ranges_new :: "shard_mapping option \<Rightarrow> sharded_mapping list option" where
  "ranges_new m = (case m of Some (RangeMapping mappings) \<Rightarrow> Some mappings | _ \<Rightarrow> None)"

definition lists_new :: "shard_mapping option \<Rightarrow> list_shards option" where
  "lists_new m = (case m of Some (ListMapping l) \<Rightarrow> Some l | _ \<Rightarrow> None)"

definition cb_new :: "'o sharded_table \<Rightarrow> 'o context_builder" where
  "cb_new table =
     \<lparr>cb_data_type = st_data_type table,
      cb_value = None,
      cb_operator = None,
      cb_centroids = (if st_centroids table = [] then None else Some (st_centroids table)),
      cb_ranges = ranges_new (st_mapping table),
      cb_lists = lists_new (st_mapping table),
      cb_probes = st_centroid_probes table,
      cb_hasher = st_hasher table\<rparr>"

text \<open>The literal that \<^verbatim>\<open>infer_from_from_and_config\<close> and \<^verbatim>\<open>from_string\<close> return on each of their paths.\<close>

definition cb_inferred :: "key_value \<Rightarrow> sharded_mapping list option \<Rightarrow> list_shards option \<Rightarrow> 'o context_builder" where
  "cb_inferred v ranges ls =
     \<lparr>cb_data_type = kv_type v, cb_value = Some v, cb_operator = None, cb_centroids = None, cb_ranges = ranges,
      cb_lists = ls, cb_probes = 0, cb_hasher = HPostgres\<rparr>"

definition cb_infer :: "'o key_ops \<Rightarrow> string \<Rightarrow> 'o sharded_tables \<Rightarrow> sharding_error + 'o context_builder" where
  "cb_infer X value tables =
     (case ts_common_mapping tables of
        None \<Rightarrow> Inl ShMultipleShardingFunctions
      | Some common \<Rightarrow>
          let v = value_new (DataText value) (cm_data_type common) in
          if \<not> value_valid X v then Inl ShInvalidValue
          else case cm_mapping common of
            Some (ListMapping _) \<Rightarrow> Inr (cb_inferred v None (lists_new (cm_mapping common)))
          | Some (RangeMapping _) \<Rightarrow> Inr (cb_inferred v (ranges_new (cm_mapping common)) None)
          | None \<Rightarrow> Inr (cb_inferred v None None))"

definition cb_from_string :: "'o key_ops \<Rightarrow> string \<Rightarrow> sharding_error + 'o context_builder" where
  "cb_from_string X value =
     (let bigint = value_new (DataText value) KtBigint;
          uuid = value_new (DataText value) KtUuid;
          varchar = value_new (DataText value) KtVarchar
      in if value_valid X bigint then Inr (cb_inferred bigint None None)
         else if value_valid X uuid then Inr (cb_inferred uuid None None)
         else if value_valid X varchar then Inr (cb_inferred varchar None None)
         else Inl ShInvalidValue)"

definition cb_shards :: "nat \<Rightarrow> 'o context_builder \<Rightarrow> 'o context_builder" where
  "cb_shards shards b =
     (case cb_centroids b of
        Some centroids \<Rightarrow> b\<lparr>cb_centroids := None, cb_operator := Some (OpCentroids shards (cb_probes b) centroids)\<rparr>
      | None \<Rightarrow>
          (case cb_ranges b of
             Some ranges \<Rightarrow> b\<lparr>cb_ranges := None, cb_operator := Some (OpRange ranges)\<rparr>
           | None \<Rightarrow>
               (case cb_lists b of
                  Some l \<Rightarrow> b\<lparr>cb_lists := None, cb_operator := Some (OpList l)\<rparr>
                | None \<Rightarrow> b\<lparr>cb_operator := Some (OpShards shards)\<rparr>)))"

definition cb_data :: "key_data \<Rightarrow> 'o context_builder \<Rightarrow> 'o context_builder" where
  "cb_data d b = b\<lparr>cb_value := Some (value_new d (cb_data_type b))\<rparr>"

definition cb_build :: "'o context_builder \<Rightarrow> sharding_error + 'o sharding_context" where
  "cb_build b =
     (case cb_operator b of
        None \<Rightarrow> Inl ShIncompleteContext
      | Some operator \<Rightarrow>
          (case cb_value b of
             None \<Rightarrow> Inl ShIncompleteContext
           | Some v \<Rightarrow> Inr \<lparr>sc_value = v, sc_operator = operator, sc_hasher = cb_hasher b\<rparr>))"

section \<open>Sharding without a table\<close>

definition shard_value :: "'o key_ops \<Rightarrow> string \<Rightarrow> key_type \<Rightarrow> nat \<Rightarrow> 'o list \<Rightarrow> nat \<Rightarrow> shard" where
  "shard_value X value t shards centroids probes =
     (case t of
        KtBigint \<Rightarrow> (case parse_i64 value of Some i \<Rightarrow> hash_shard (bigint_hash i) shards | None \<Rightarrow> ShAll)
      | KtUuid \<Rightarrow> (case x_uuid X value of Some u \<Rightarrow> hash_shard (uuid_hash X u) shards | None \<Rightarrow> ShAll)
      | KtVector \<Rightarrow>
          (case o_decode (x_types X) DtVector value Text of
             Inr w \<Rightarrow> ShMulti (centroids_shard X centroids w shards probes)
           | Inl _ \<Rightarrow> ShAll)
      | KtVarchar \<Rightarrow> hash_shard (varchar_hash X value) shards)"

definition shard_str :: "'o key_ops \<Rightarrow> string \<Rightarrow> nat \<Rightarrow> 'o list \<Rightarrow> nat \<Rightarrow> shard" where
  "shard_str X value shards centroids probes =
     (let t = (if value \<noteq> [] \<and> hd value = CHR ''['' \<and> last value = CHR '']'' then KtVector
               else if parse_i64 value \<noteq> None then KtBigint
               else if x_uuid X value \<noteq> None then KtUuid
               else KtVarchar)
      in shard_value X value t shards centroids probes)"

section \<open>Encodings of a key\<close>

text \<open>The ways an integer key reaches the router: as a literal of the query, as text, and in the binary format of every
  integer type that holds it.\<close>

definition integer_encodings :: "int \<Rightarrow> key_data list" where
  "integer_encodings i =
     [DataInteger i, DataText (show_int i), DataBinary (int_encode 8 i Binary)]
     @ (if - 2147483648 \<le> i \<and> i < 2147483648 then [DataBinary (int_encode 4 i Binary)] else [])
     @ (if - 32768 \<le> i \<and> i < 32768 then [DataBinary (int_encode 2 i Binary)] else [])"

lemma be_integer_encode:
  "- 9223372036854775808 \<le> i \<Longrightarrow> i < 9223372036854775808 \<Longrightarrow> be_integer (int_encode 8 i Binary) = Inr i"
  "- 2147483648 \<le> i \<Longrightarrow> i < 2147483648 \<Longrightarrow> be_integer (int_encode 4 i Binary) = Inr i"
  "- 32768 \<le> i \<Longrightarrow> i < 32768 \<Longrightarrow> be_integer (int_encode 2 i Binary) = Inr i"
  using int_slice_encode [of 8 i] int_slice_encode [of 4 i] int_slice_encode [of 2 i]
  by (simp_all add: be_integer_def int_encode_def int_slice_def)

lemma encoded_integer:
  assumes "- 9223372036854775808 \<le> i" "i < 9223372036854775808" "d \<in> set (integer_encodings i)"
  shows "value_integer (value_new d KtBigint) = Inr (Some i)"
    and "value_hash X (value_new d KtBigint) h = Inr (Some (hasher_bigint X h i))"
  using assms
  by (auto simp: integer_encodings_def value_integer_def value_hash_def value_new_def parse_i64_def parse_int_show
      be_integer_encode split: if_splits)

lemma bigint_only [simp]:
  "value_varchar (value_new d KtBigint) = Inr None" "value_uuid X (value_new d KtBigint) = Inr None"
  "value_vector X (value_new d KtBigint) = Inr None"
  by (simp_all add: value_varchar_def value_uuid_def value_vector_def value_new_def)

text \<open>C32: An integer key goes to the same shard whichever way the client sends it (as a literal, as text or in the binary
  format of any integer type that holds it), under every sharding function and every hash.\<close>

theorem key_routes_alike:
  assumes "- 9223372036854775808 \<le> i" "i < 9223372036854775808" "d \<in> set (integer_encodings i)"
  shows "context_apply X \<lparr>sc_value = value_new d KtBigint, sc_operator = f, sc_hasher = h\<rparr>
       = context_apply X \<lparr>sc_value = value_new (DataInteger i) KtBigint, sc_operator = f, sc_hasher = h\<rparr>"
proof -
  have "DataInteger i \<in> set (integer_encodings i)" by (simp add: integer_encodings_def)
  note same = encoded_integer [OF assms] encoded_integer [OF assms(1,2) this]
  show ?thesis by (cases f) (simp_all add: context_apply_def ranges_shard_def lists_shard_def same)
qed

definition demo_ops :: "unit key_ops" where
  "demo_ops = \<lparr>x_types = plain_ops, x_uuid = (\<lambda>s. if length s = 16 then Some s else None), x_sha1 = (\<lambda>bs. take 20 (bs @ replicate 20 NUL)),
     x_order = LittleEndian, x_aligned = False\<rparr>"

theorem key_routes_alike_witness:
  "context_apply demo_ops \<lparr>sc_value = value_new (DataText ''-7'') KtBigint, sc_operator = OpShards 12, sc_hasher = HPostgres\<rparr>
   = context_apply demo_ops \<lparr>sc_value = value_new (DataInteger (- 7)) KtBigint, sc_operator = OpShards 12, sc_hasher = HPostgres\<rparr>"
proof -
  have "show_int (- 7) = ''-7''" by code_simp
  then have "DataText ''-7'' \<in> set (integer_encodings (- 7))" by (simp add: integer_encodings_def)
  from key_routes_alike [OF _ _ this] show ?thesis by simp
qed

section \<open>Ranges\<close>

text \<open>The keys of a range, as the configuration describes it: the lower bound belongs to it, the upper one does not, and a
  bound that is missing or of another type does not limit it; without any bound it is empty.\<close>

definition int_bound :: "flexible_type option \<Rightarrow> int option" where
  "int_bound b = (case b of Some (FInteger n) \<Rightarrow> Some n | _ \<Rightarrow> None)"

definition range_ints :: "sharded_mapping \<Rightarrow> int set" where
  "range_ints m =
     (case (int_bound (sm_start m), int_bound (sm_end m)) of
        (Some a, Some b) \<Rightarrow> {a..<b} | (Some a, None) \<Rightarrow> {a..} | (None, Some b) \<Rightarrow> {..<b} | (None, None) \<Rightarrow> {})"

lemma range_integer_iff: "range_integer m i \<longleftrightarrow> i \<in> range_ints m"
  by (auto simp: range_integer_def range_ints_def int_bound_def split: option.splits flexible_type.splits)

lemma find_unique:
  assumes "x \<in> set xs" "P x" "\<And>y. y \<in> set xs \<Longrightarrow> P y \<Longrightarrow> y = x"
  shows "find P xs = Some x"
proof (cases "find P xs")
  case None
  with assms(1,2) show ?thesis by (simp add: find_None_iff)
next
  case (Some y)
  then have "y \<in> set xs" "P y" by (auto simp: find_Some_iff)
  with assms(3) Some show ?thesis by simp
qed

lemma ranges_shard_integer:
  assumes "value_integer v = Inr (Some i)" "value_varchar v = Inr None"
  shows "ranges_shard ms v
    = (case find (\<lambda>m. i \<in> range_ints m) (filter (\<lambda>m. sm_kind m = RangeKind) ms) of
         Some m \<Rightarrow> Inr (ShDirect (sm_shard m)) | None \<Rightarrow> Inr ShAll)"
proof -
  have "range_matches (Some i) None = (\<lambda>m. i \<in> range_ints m)"
    by (simp add: fun_eq_iff range_matches_def range_integer_iff)
  then show ?thesis by (simp add: ranges_shard_def assms)
qed

text \<open>C33: With disjoint ranges, an integer key goes to the shard of the range it lies in, however it is encoded, and to all
  shards if it lies in none.\<close>

theorem range_routes:
  assumes "- 9223372036854775808 \<le> i" "i < 9223372036854775808" "d \<in> set (integer_encodings i)"
    and "\<And>a b. a \<in> set ms \<Longrightarrow> b \<in> set ms \<Longrightarrow> a \<noteq> b \<Longrightarrow> range_ints a \<inter> range_ints b = {}"
    and "\<And>m. m \<in> set ms \<Longrightarrow> sm_kind m = RangeKind"
  shows "(\<forall>m\<in>set ms. i \<in> range_ints m \<longrightarrow> ranges_shard ms (value_new d KtBigint) = Inr (ShDirect (sm_shard m)))
    \<and> ((\<forall>m\<in>set ms. i \<notin> range_ints m) \<longrightarrow> ranges_shard ms (value_new d KtBigint) = Inr ShAll)"
proof -
  have all: "filter (\<lambda>m. sm_kind m = RangeKind) ms = ms" using assms(5) by (simp add: filter_id_conv)
  have "find (\<lambda>m. i \<in> range_ints m) ms = Some m" if "m \<in> set ms" "i \<in> range_ints m" for m
    using that assms(4) by (intro find_unique) blast+
  moreover have "find (\<lambda>m. i \<in> range_ints m) ms = None" if "\<forall>m\<in>set ms. i \<notin> range_ints m"
    using that by (simp add: find_None_iff)
  ultimately show ?thesis by (simp add: ranges_shard_integer [OF encoded_integer(1) [OF assms(1-3)]] all)
qed

definition range_rule :: "int \<Rightarrow> int \<Rightarrow> nat \<Rightarrow> sharded_mapping" where
  "range_rule a b n =
     \<lparr>sm_database = ''db'', sm_column = ''id'', sm_table = None, sm_schema = None, sm_kind = RangeKind,
      sm_start = Some (FInteger a), sm_end = Some (FInteger b), sm_values = [], sm_shard = n\<rparr>"

lemma range_rule_ints [simp]: "range_ints (range_rule a b n) = {a..<b}" "sm_kind (range_rule a b n) = RangeKind"
  "sm_shard (range_rule a b n) = n"
  by (simp_all add: range_rule_def range_ints_def int_bound_def)

theorem range_routes_witness:
  "ranges_shard [range_rule 0 10 0, range_rule 10 20 1] (value_new (DataText ''10'') KtBigint) = Inr (ShDirect 1)
   \<and> ranges_shard [range_rule 0 10 0, range_rule 10 20 1] (value_new (DataText ''20'') KtBigint) = Inr ShAll"
proof -
  let ?ms = "[range_rule 0 10 0, range_rule 10 20 1]"
  have "show_int 10 = ''10''" "show_int 20 = ''20''" by code_simp+
  then have "DataText ''10'' \<in> set (integer_encodings 10)" "DataText ''20'' \<in> set (integer_encodings 20)"
    by (simp_all add: integer_encodings_def)
  moreover have "range_ints a \<inter> range_ints b = {}" if "a \<in> set ?ms" "b \<in> set ?ms" "a \<noteq> b" for a b
    using that by auto
  ultimately show ?thesis using range_routes [of 10 _ ?ms] range_routes [of 20 _ ?ms] by force
qed

text \<open>C35: The check of a range mapping misses overlapping ranges: two ranges of which each reaches into the other pass
  it, and a key of both then goes to whichever is listed first.\<close>

theorem overlap_undetected:
  assumes "a < b" "b < c" "c < d" "b \<le> i" "i < c"
  shows "mapping_valid (RangeMapping [range_rule a c m, range_rule b d n])
    \<and> ranges_shard [range_rule a c m, range_rule b d n] (value_new (DataInteger i) KtBigint) = Inr (ShDirect m)
    \<and> ranges_shard [range_rule b d n, range_rule a c m] (value_new (DataInteger i) KtBigint) = Inr (ShDirect n)"
proof -
  have "value_integer (value_new (DataInteger i) KtBigint) = Inr (Some i)" by (simp add: value_integer_def value_new_def)
  note shard = ranges_shard_integer [OF this]
  have "sm_start (range_rule x y k) = Some (FInteger x)" "sm_end (range_rule x y k) = Some (FInteger y)" for x y k
    by (simp_all add: range_rule_def)
  then show ?thesis
    using assms by (simp add: shard mapping_valid_def ranges_valid_def bound_matches_def range_integer_iff)
qed

theorem overlap_undetected_witness:
  "mapping_valid (RangeMapping [range_rule 0 10 0, range_rule 5 15 1])
   \<and> ranges_shard [range_rule 0 10 0, range_rule 5 15 1] (value_new (DataInteger 7) KtBigint) = Inr (ShDirect 0)
   \<and> ranges_shard [range_rule 5 15 1, range_rule 0 10 0] (value_new (DataInteger 7) KtBigint) = Inr (ShDirect 1)"
  using overlap_undetected [of 0 5 10 15 7 0 1] by simp

section \<open>Lists\<close>

lemma hm_get_fold_insert:
  "hm_get (fold (\<lambda>v. hm_insert v n) vs m) k = (if k \<in> set vs then Some n else hm_get m k)"
  by (induction vs arbitrary: m) auto

lemma find_snoc: "find P (xs @ [x]) = (case find P xs of Some y \<Rightarrow> Some y | None \<Rightarrow> if P x then Some x else None)"
  by (induction xs) auto

lemma hm_get_fold_rules:
  "hm_get (fold (\<lambda>m. fold (\<lambda>v. hm_insert v (sm_shard m)) (sm_values m)) ms h) k
   = (case find (\<lambda>m. k \<in> set (sm_values m)) (rev ms) of Some m \<Rightarrow> Some (sm_shard m) | None \<Rightarrow> hm_get h k)"
proof (induction ms arbitrary: h)
  case (Cons m ms)
  then show ?case by (auto simp: hm_get_fold_insert find_snoc split: option.split)
qed simp

text \<open>What the rules of a list mapping say of a value: the last list that has it, else the default rule, else nothing.\<close>

definition list_rule :: "sharded_mapping list \<Rightarrow> flexible_type \<Rightarrow> nat option" where
  "list_rule ms v =
     map_option sm_shard
       (case find (\<lambda>m. sm_kind m = ListKind \<and> v \<in> set (sm_values m)) (rev ms) of
          Some m \<Rightarrow> Some m | None \<Rightarrow> find (\<lambda>m. sm_kind m = DefaultKind) ms)"

lemma find_filter: "find P (filter Q xs) = find (\<lambda>x. Q x \<and> P x) xs"
  by (induction xs) auto

lemma ls_shard_new: "ls_shard (ls_new ms) v = list_rule ms v"
  by (auto simp: ls_shard_def ls_new_def list_rule_def hm_get_fold_rules rev_filter find_filter split: option.split)

text \<open>Under a list mapping a key goes to the shard of the list that names it, the last one if there are several; if
  no list does, to the shard of the default rule, and without one to all shards. This holds for integers in every encoding,
  for strings, and for identifiers as text or as bytes.\<close>

theorem list_routes:
  assumes "- 9223372036854775808 \<le> i" "i < 9223372036854775808" "d \<in> set (integer_encodings i)"
    and "utf8_valid s" "x_uuid X t = Some u" "length u = 16"
  shows "lists_shard X (ls_new ms) (value_new d KtBigint) = Inr (shard_from_option (list_rule ms (FInteger i)))
    \<and> (\<forall>e\<in>{DataText s, DataBinary s}.
         lists_shard X (ls_new ms) (value_new e KtVarchar) = Inr (shard_from_option (list_rule ms (FString s))))
    \<and> (\<forall>e\<in>{DataText t, DataBinary u}.
         lists_shard X (ls_new ms) (value_new e KtUuid) = Inr (shard_from_option (list_rule ms (FUuid u))))"
proof -
  have "lists_shard X (ls_new ms) (value_new d KtBigint) = Inr (shard_from_option (list_rule ms (FInteger i)))"
    by (simp add: lists_shard_def encoded_integer [OF assms(1-3)] ls_shard_new)
  with assms(4-6) show ?thesis
    by (simp add: lists_shard_def value_integer_def value_varchar_def value_uuid_def value_new_def utf8_def ls_shard_new)
qed

definition list_demo :: "sharded_mapping list" where
  "list_demo =
     [(range_rule 0 0 1)\<lparr>sm_kind := ListKind, sm_values := [FInteger 5, FString ''eu'']\<rparr>,
      (range_rule 0 0 2)\<lparr>sm_kind := DefaultKind\<rparr>]"

theorem list_routes_witness:
  "lists_shard demo_ops (ls_new list_demo) (value_new (DataText ''5'') KtBigint) = Inr (ShDirect 1)
   \<and> lists_shard demo_ops (ls_new list_demo) (value_new (DataBinary ''eu'') KtVarchar) = Inr (ShDirect 1)
   \<and> lists_shard demo_ops (ls_new list_demo) (value_new (DataText ''0123456789abcdef'') KtUuid) = Inr (ShDirect 2)"
proof -
  have "show_int 5 = ''5''" by code_simp
  then have "DataText ''5'' \<in> set (integer_encodings 5)" by (simp add: integer_encodings_def)
  moreover have "utf8_valid ''eu''" by code_simp
  ultimately show ?thesis
    using list_routes [of 5 "DataText ''5''" "''eu''" demo_ops "''0123456789abcdef''" "''0123456789abcdef''" list_demo]
    by (simp add: demo_ops_def list_rule_def list_demo_def range_rule_def shard_from_option_def)
qed

text \<open>A default rule is ignored next to a range: a key outside all ranges goes to every shard, although the rule is
  the fallback for values that no other rule matches.\<close>

theorem default_rule_ignored:
  assumes "r \<in> set ms" "sm_kind r = RangeKind"
    and "\<And>m. m \<in> set ms \<Longrightarrow> sm_kind m = RangeKind \<Longrightarrow> i \<notin> range_ints m"
  shows "\<exists>ranges. mapping_new ms = Some (RangeMapping ranges)
    \<and> ranges_shard ranges (value_new (DataInteger i) KtBigint) = Inr ShAll"
proof -
  let ?ranges = "filter (\<lambda>m. sm_kind m = RangeKind) ms"
  have "?ranges \<noteq> []" using assms(1,2) by (auto simp: filter_empty_conv)
  then have "mapping_new ms = Some (RangeMapping ?ranges)" by (simp add: mapping_new_def)
  moreover have "value_integer (value_new (DataInteger i) KtBigint) = Inr (Some i)"
    by (simp add: value_integer_def value_new_def)
  moreover have "find (\<lambda>m. i \<in> range_ints m) ?ranges = None" using assms(3) by (auto simp: find_None_iff)
  ultimately show ?thesis using ranges_shard_integer by fastforce
qed

theorem default_rule_ignored_witness:
  "\<exists>ranges. mapping_new [range_rule 0 10 0, (range_rule 0 0 1)\<lparr>sm_kind := DefaultKind\<rparr>] = Some (RangeMapping ranges)
    \<and> ranges_shard ranges (value_new (DataInteger 42) KtBigint) = Inr ShAll"
  using default_rule_ignored [of "range_rule 0 10 0" "[range_rule 0 10 0, (range_rule 0 0 1)\<lparr>sm_kind := DefaultKind\<rparr>]" 42]
  by fastforce

section \<open>Inferred and guessed functions\<close>

text \<open>The shard that a builder, completed with the number of shards, gives.\<close>

definition cb_route :: "'o key_ops \<Rightarrow> nat \<Rightarrow> 'o context_builder \<Rightarrow> sharding_error + shard" where
  "cb_route X n b = and_then (cb_build (cb_shards n b)) (context_apply X)"

lemmas route_defs = cb_route_def cb_build_def cb_shards_def cb_data_def cb_new_def cb_inferred_def ranges_new_def lists_new_def
  context_apply_def value_hash_def value_new_def

text \<open>C36: A sharding key given in a comment or a session parameter is hashed with the PostgreSQL hash also when the only
  sharded table is configured to use SHA-1, which its queries are routed by.\<close>

theorem inferred_function_ignores_hasher:
  assumes "st_hasher t = HSha1" "st_mapping t = None" "st_centroids t = []" "st_data_type t = KtBigint"
    and "parse_i64 key = Some i"
  shows "and_then (cb_infer X key (sharded_tables_new [t] omni sticky catalogs)) (cb_route X n) = Inr (hash_shard (bigint_hash i) n)
    \<and> cb_route X n (cb_data (DataText key) (cb_new t)) = Inr (hash_shard (hasher_sha1 X (show_int i)) n)"
  using assms
  by (simp add: cb_infer_def sharded_tables_new_def route_defs value_valid_def hasher_bigint_def)

definition demo_table :: "key_type \<Rightarrow> hasher \<Rightarrow> unit sharded_table" where
  "demo_table t h =
     \<lparr>st_database = ''db'', st_name = Some ''users'', st_schema = None, st_column = ''id'', st_primary = False,
      st_centroids = [], st_centroids_path = None, st_data_type = t, st_centroid_probes = 0, st_hasher = h, st_mapping = None\<rparr>"

lemma parse_one: "parse_i64 ''1'' = Some 1"
  by code_simp

theorem inferred_function_ignores_hasher_witness:
  "and_then (cb_infer demo_ops ''1'' (sharded_tables_new [demo_table KtBigint HSha1] [] False CatalogsSharded)) (cb_route demo_ops 4)
     = Inr (hash_shard (bigint_hash 1) 4)
   \<and> cb_route demo_ops 4 (cb_data (DataText ''1'') (cb_new (demo_table KtBigint HSha1)))
     = Inr (hash_shard (hasher_sha1 demo_ops (show_int 1)) 4)"
  using inferred_function_ignores_hasher [of "demo_table KtBigint HSha1" "''1''" 1 demo_ops "[]" False CatalogsSharded 4] parse_one
  by (simp add: demo_table_def)



section \<open>Schemas\<close>

lemma insert_named:
  assumes "ss_name x = Some n" "\<And>k s. hm_get m k = Some s \<Longrightarrow> ss_name s = Some k"
    and "hm_get (hm_insert (schema_name x) x m) k = Some s"
  shows "ss_name s = Some k"
proof (cases "k = n")
  case True
  with assms(1,3) show ?thesis by (simp add: schema_name_def)
next
  case False
  with assms(1,3) have "hm_get m k = Some s" by (simp add: schema_name_def)
  then show ?thesis by (rule assms(2))
qed

lemma fold_named:
  assumes "\<forall>s\<in>set xs. ss_name s \<noteq> None" "\<And>k s. hm_get m k = Some s \<Longrightarrow> ss_name s = Some k"
    and "hm_get (fold (\<lambda>s. hm_insert (schema_name s) s) xs m) k = Some s"
  shows "ss_name s = Some k"
  using assms
proof (induction xs arbitrary: m)
  case (Cons x xs)
  from Cons.prems(1) obtain n where "ss_name x = Some n" by auto
  note named = insert_named [OF this Cons.prems(2)]
  show ?case by (rule Cons.IH [OF _ named]) (use Cons.prems(1,3) in simp_all)
qed simp

lemma schemas_named: "hm_get (sss_schemas (sharded_schemas_new cfg)) k = Some s \<Longrightarrow> ss_name s = Some k"
  by (rule fold_named [of "filter (\<lambda>s. ss_name s \<noteq> None) cfg" "[]"]) (auto simp: sharded_schemas_new_def)

lemma sharder_default_facts [simp]: "sr_current sharder_default = None" "sharder_get sharder_default = None"
  by (simp_all add: sharder_default_def sharder_get_def)

lemma sss_default_new: "sss_default (sharded_schemas_new cfg) = find (\<lambda>s. ss_name s = None) cfg"
  by (simp add: sharded_schemas_new_def)

lemma schemas_default: "sss_default (sharded_schemas_new cfg) = Some s \<Longrightarrow> ss_name s = None"
  by (auto simp: sharded_schemas_new_def find_Some_iff)

definition schema_route :: "sharded_schema \<Rightarrow> shard \<times> string" where
  "schema_route s = (shard_from_option (schema_shard s), schema_name s)"

lemma resolve_settled:
  "\<not> sr_catch_all r \<Longrightarrow> sr_current r \<noteq> None \<Longrightarrow> fold (\<lambda>s. sharder_resolve ss (Some s)) path r = r"
  by (induction path) (auto simp: sharder_resolve_def split: option.split)

lemma resolve_open:
  assumes "sss_schemas (sharded_schemas_new cfg) \<noteq> []" "sr_current r = None \<or> sr_catch_all r"
  shows "sharder_get (fold (\<lambda>s. sharder_resolve (sharded_schemas_new cfg) (Some s)) path r)
    = (case first_some (hm_get (sss_schemas (sharded_schemas_new cfg))) path of
         Some s \<Rightarrow> Some (schema_route s)
       | None \<Rightarrow>
           (case sss_default (sharded_schemas_new cfg) of
              Some s \<Rightarrow> if path = [] then sharder_get r else Some (schema_route s)
            | None \<Rightarrow> sharder_get r))"
  using assms(2)
proof (induction path arbitrary: r)
  case (Cons k path)
  let ?S = "sharded_schemas_new cfg" and ?r = "sharder_resolve (sharded_schemas_new cfg) (Some k) r"
  show ?case
  proof (cases "hm_get (sss_schemas ?S) k")
    case (Some s)
    with Cons.prems assms(1) schemas_named [OF Some] have "\<not> sr_catch_all ?r" "sr_current ?r \<noteq> None"
      and "sharder_get ?r = Some (schema_route s)"
      by (auto simp: sharder_resolve_def sharded_schemas_get_def Let_def sharder_get_def schema_route_def)
    with Some show ?thesis by (simp add: resolve_settled)
  next
    case None
    show ?thesis
    proof (cases "sss_default ?S")
      case (Some s)
      with None Cons.prems assms(1) schemas_default [OF Some] have "sr_catch_all ?r" "sharder_get ?r = Some (schema_route s)"
        by (auto simp: sharder_resolve_def sharded_schemas_get_def Let_def sharder_get_def schema_route_def)
      with Cons.IH [of ?r] None Some show ?thesis by (simp split: option.split)
    next
      case None': None
      with None have "?r = r" by (simp add: sharder_resolve_def sharded_schemas_get_def)
      with Cons.IH [of r] Cons.prems None None' show ?thesis by (simp split: option.split)
    qed
  qed
qed (simp split: option.split)

text \<open>C34: The first schema of the search path that is mapped decides the shard; if none is, the catch-all schema does. The
  catch-all is ignored when it is the only schema that is configured.\<close>

theorem search_path_first_match:
  assumes "path \<noteq> []"
  shows "sharder_get (sharder_resolve_parameter (sharded_schemas_new cfg) (PvTuple path) sharder_default)
    = (if \<forall>s\<in>set cfg. ss_name s = None then None
       else case first_some (hm_get (sss_schemas (sharded_schemas_new cfg))) path of
         Some s \<Rightarrow> Some (schema_route s)
       | None \<Rightarrow> map_option schema_route (find (\<lambda>s. ss_name s = None) cfg))"
proof -
  have nonempty: "fold (\<lambda>s. hm_insert (schema_name s) s) xs m = [] \<longleftrightarrow> xs = [] \<and> m = []"
    for xs :: "sharded_schema list" and m
    by (induction xs arbitrary: m) (simp_all add: hm_insert_def)
  have none: "sss_schemas (sharded_schemas_new cfg) = [] \<longleftrightarrow> (\<forall>s\<in>set cfg. ss_name s = None)"
    by (auto simp: sharded_schemas_new_def nonempty filter_empty_conv)
  show ?thesis
  proof (cases "sss_schemas (sharded_schemas_new cfg) = []")
    case True
    with none show ?thesis by (simp add: sharder_resolve_parameter_def)
  next
    case False
    then have "sharder_resolve_parameter (sharded_schemas_new cfg) (PvTuple path) sharder_default
      = fold (\<lambda>s. sharder_resolve (sharded_schemas_new cfg) (Some s)) path sharder_default"
      by (simp add: sharder_resolve_parameter_def)
    moreover have "\<not> (\<forall>s\<in>set cfg. ss_name s = None)" using False none by blast
    ultimately show ?thesis
      using resolve_open [OF False disjI1 [OF sharder_default_facts(1)], of path] assms
      by (auto simp: sss_default_new split: option.splits)
  qed
qed

definition schema_demo :: "sharded_schema list" where
  "schema_demo =
     [\<lparr>ss_database = ''db'', ss_name = Some ''eu'', ss_shard = 1, ss_all = False\<rparr>,
      \<lparr>ss_database = ''db'', ss_name = None, ss_shard = 0, ss_all = False\<rparr>]"

theorem search_path_first_match_witness:
  "sharder_get (sharder_resolve_parameter (sharded_schemas_new schema_demo) (PvTuple [''public'', ''eu'']) sharder_default)
     = Some (ShDirect 1, ''eu'')
   \<and> sharder_get (sharder_resolve_parameter (sharded_schemas_new schema_demo) (PvTuple [''public'']) sharder_default)
     = Some (ShDirect 0, ''*'')"
proof -
  have S: "sss_schemas (sharded_schemas_new schema_demo) = [(''eu'', hd schema_demo)]"
    by (simp add: sharded_schemas_new_def schema_demo_def schema_name_def hm_insert_def hm_remove_def)
  have "find (\<lambda>s. ss_name s = None) schema_demo = Some (schema_demo ! 1)" "schema_route (hd schema_demo) = (ShDirect 1, ''eu'')"
    "schema_route (schema_demo ! 1) = (ShDirect 0, ''*'')" "\<not> (\<forall>s\<in>set schema_demo. ss_name s = None)"
    by (simp_all add: schema_demo_def schema_route_def shard_from_option_def schema_shard_def schema_name_def)
  then show ?thesis
    using search_path_first_match [of "[''public'', ''eu'']" schema_demo] search_path_first_match [of "[''public'']" schema_demo]
    by (simp add: S)
qed


section \<open>Keys of tables\<close>

definition key_position :: "string list \<Rightarrow> 'o sharded_table \<Rightarrow> nat option" where
  "key_position columns t = position (\<lambda>c. c = st_column t) columns"

lemma from_sharded_table_position [simp]:
  "map_option sh_position (from_sharded_table t columns) = key_position columns t"
  "from_sharded_table t columns = None \<longleftrightarrow> key_position columns t = None"
  by (simp_all add: from_sharded_table_def key_position_def option.map_comp comp_def option.map_ident)

lemma first_some_map: "map_option g (first_some f xs) = first_some (\<lambda>x. map_option g (f x)) xs"
  by (induction xs) (auto split: option.split)

lemma first_some_None: "(\<And>x. x \<in> set xs \<Longrightarrow> f x = None) \<Longrightarrow> first_some f xs = None"
  by (induction xs) auto

lemma named_lookup:
  "distinct (map st_name xs) \<Longrightarrow>
   first_some (\<lambda>t. if Some table = st_name t then key_position columns t else None) xs
   = Option.bind (find (\<lambda>t. st_name t = Some table) xs) (key_position columns)"
proof (induction xs)
  case (Cons x xs)
  show ?case
  proof (cases "st_name x = Some table")
    case True
    with Cons.prems have "first_some (\<lambda>t. if Some table = st_name t then key_position columns t else None) xs = None"
      by (intro first_some_None) force
    with True show ?thesis by (simp split: option.split)
  next
    case False
    with Cons show ?thesis by simp
  qed
qed simp

lemma unnamed_lookup:
  "Option.bind (find (\<lambda>(_, p). p \<noteq> None) (map (\<lambda>t. (t, key_position columns t)) xs)) (\<lambda>(t, p). p)
   = first_some (key_position columns) xs"
  by (induction xs) (auto split: option.split)

lemma bind_pair:
  "map_option snd (Option.bind a (\<lambda>t. map_option (Pair t) (g t))) = Option.bind a g"
  "map_option snd (Option.bind z (\<lambda>(t, p). map_option (Pair t) p)) = Option.bind z (\<lambda>(t, p). p)"
  by (cases a; auto simp: option.map_comp comp_def option.map_ident) (cases z; auto simp: option.map_comp comp_def option.map_ident)

lemma map_option_or:
  "map_option g (case a of Some x \<Rightarrow> Some x | None \<Rightarrow> b) = (case map_option g a of Some y \<Rightarrow> Some y | None \<Rightarrow> map_option g b)"
  by (cases a) simp_all

text \<open>The two ways to find the sharded column among the columns of a statement, for queries and for replicated rows,
  agree if no table is configured twice by name.\<close>

theorem key_lookups_agree:
  assumes "distinct (filter (\<lambda>n. n \<noteq> None) (map st_name (ts_tables ts)))"
  shows "map_option snd (tables_key ts table columns) = map_option sh_position (get_sharded_column ts table columns)"
proof -
  let ?named = "filter (\<lambda>t. st_name t \<noteq> None) (ts_tables ts)" and ?rest = "filter (\<lambda>t. st_name t = None) (ts_tables ts)"
  let ?named_key = "Option.bind (find (\<lambda>t. st_name t = Some table) ?named) (key_position columns)"
  have "distinct (map st_name ?named)" using assms by (simp add: filter_map comp_def)
  note named = named_lookup [OF this, of table columns]
  have "map_option sh_position (get_sharded_column ts table columns)
    = (case ?named_key of Some p \<Rightarrow> Some p | None \<Rightarrow> first_some (key_position columns) ?rest)"
    unfolding named [symmetric] get_sharded_column_def Let_def map_option_or first_some_map
      if_distrib [of "map_option sh_position"] from_sharded_table_position option.map
    by simp
  moreover have "map_option snd (tables_key ts table columns)
    = (case ?named_key of Some p \<Rightarrow> Some p | None \<Rightarrow> first_some (key_position columns) ?rest)"
    unfolding tables_key_def Let_def key_position_def [symmetric] map_option_or bind_pair unnamed_lookup by simp
  ultimately show ?thesis by simp
qed
theorem key_lookups_agree_witness:
  "map_option snd (tables_key (sharded_tables_new [demo_table KtBigint HPostgres] [] False CatalogsSharded) ''users'' [''name'', ''id''])
   = map_option sh_position
       (get_sharded_column (sharded_tables_new [demo_table KtBigint HPostgres] [] False CatalogsSharded) ''users'' [''name'', ''id''])"
  using key_lookups_agree [of "sharded_tables_new [demo_table KtBigint HPostgres] [] False CatalogsSharded" "''users''" "[''name'', ''id'']"]
  by (simp add: sharded_tables_new_def demo_table_def)

text \<open>For a table with two sharded columns only the first is found by the lookup for queries.\<close>

lemma key_lookups_differ:
  fixes t u :: "'o sharded_table"
  assumes "st_name t = Some table" "st_name u = Some table" "st_column t \<noteq> st_column u" "ts_tables ts = [t, u]"
  shows "tables_key ts table [st_column u] = None \<and> map_option sh_position (get_sharded_column ts table [st_column u]) = Some 0"
  using assms by (simp add: tables_key_def get_sharded_column_def position_def from_sharded_table_def Let_def)

end
