(* ===== verification/BlockComment.thy ===== *)
theory BlockComment
  imports Prelude
begin

text \<open>
  The block comments around a query, which carry routing directives: \<^verbatim>\<open>strip.rs\<close> in
  \<^verbatim>\<open>pgdog/src/frontend/router/parser/comment\<close>.

  The substring searches of the memchr crate are the record \<open>search_ops\<close>; \<open>search_ok\<close> states what its documentation
  promises: the first and the last position at which the needle occurs, or nothing if it occurs nowhere.
\<close>

section \<open>Stripping\<close>

record search_ops =
  s_find :: "string \<Rightarrow> string \<Rightarrow> nat option"
  s_rfind :: "string \<Rightarrow> string \<Rightarrow> nat option"

definition is_edge_whitespace :: "char \<Rightarrow> bool" where
  "is_edge_whitespace c \<longleftrightarrow> c = CHR '' '' \<or> c = CHR 0x09 \<or> c = CHR 0x0A \<or> c = CHR 0x0D"

abbreviation open_mark :: string where "open_mark \<equiv> ''/*''"
abbreviation close_mark :: string where "close_mark \<equiv> ''*/''"

definition starts_with :: "string \<Rightarrow> string \<Rightarrow> bool" where
  "starts_with s p \<longleftrightarrow> take (length p) s = p"

definition ends_with :: "string \<Rightarrow> string \<Rightarrow> bool" where
  "ends_with s p \<longleftrightarrow> length p \<le> length s \<and> drop (length s - length p) s = p"

definition trim_start :: "string \<Rightarrow> string" where
  "trim_start s = dropWhile is_edge_whitespace s"

definition trim_end :: "string \<Rightarrow> string" where
  "trim_end s = rev (dropWhile is_edge_whitespace (rev s))"

function leading_loop :: "search_ops \<Rightarrow> string \<Rightarrow> nat \<Rightarrow> nat option \<Rightarrow> nat option" where
  "leading_loop S trimmed pos last_end =
     (let remaining = trim_start (drop pos trimmed) in
      if \<not> starts_with remaining open_mark then last_end
      else case s_find S (drop 2 remaining) close_mark of
        None \<Rightarrow> last_end
      | Some body_end \<Rightarrow>
          let remaining_offset = length trimmed - length remaining;
              comment_end = remaining_offset + 2 + body_end + 2
          in leading_loop S trimmed comment_end (Some comment_end))"
  by auto

lemma starts_with_length: "starts_with s p \<Longrightarrow> length p \<le> length s"
  by (auto simp: starts_with_def) (metis length_take min.cobounded1)

lemma length_trim_start: "length (trim_start s) \<le> length s"
  by (simp add: trim_start_def length_dropWhile_le)

termination leading_loop
proof (relation "measure (\<lambda>(S, trimmed, pos, _). length trimmed - pos)")
  fix S trimmed pos last_end remaining body_end remaining_offset comment_end
  assume r: "remaining = trim_start (drop pos trimmed)" and s: "\<not> \<not> starts_with remaining open_mark"
    and e: "remaining_offset = length trimmed - length remaining" "comment_end = remaining_offset + 2 + body_end + 2"
  have "2 \<le> length remaining" using starts_with_length [of remaining open_mark] s by simp
  moreover have "length remaining \<le> length trimmed - pos" using length_trim_start [of "drop pos trimmed"] r by simp
  ultimately show "((S, trimmed, comment_end, Some comment_end), S, trimmed, pos, last_end)
      \<in> measure (\<lambda>(S, trimmed, pos, _). length trimmed - pos)"
    using e by auto
qed simp

definition leading_block_comment :: "search_ops \<Rightarrow> string \<Rightarrow> (string \<times> string) option" where
  "leading_block_comment S q =
     (let trimmed = trim_start q in
      case leading_loop S trimmed 0 None of
        None \<Rightarrow> None
      | Some last_end \<Rightarrow> Some (trim_start (drop last_end trimmed), take last_end trimmed))"

text \<open>The cursor moves to the start that the search returns, which lies before it; a position out of range, on which
  the slice would panic, ends the loop.\<close>

function trailing_loop :: "search_ops \<Rightarrow> string \<Rightarrow> nat \<Rightarrow> nat option \<Rightarrow> nat option" where
  "trailing_loop S trimmed cursor first_start =
     (let before = trim_end (take cursor trimmed) in
      if \<not> ends_with before close_mark then first_start
      else
        let inner = take (length before - 2) before in
        case s_rfind S inner open_mark of
          None \<Rightarrow> first_start
        | Some s \<Rightarrow>
            if length inner < s + 2 then first_start
            else if s_find S (drop (s + 2) inner) close_mark \<noteq> None then first_start
            else trailing_loop S trimmed s (Some s))"
  by auto

lemma length_trim_end: "length (trim_end s) \<le> length s"
  using length_dropWhile_le [of is_edge_whitespace "rev s"] by (simp add: trim_end_def)

termination trailing_loop
proof (relation "measure (\<lambda>(S, trimmed, cursor, _). cursor)")
  fix S trimmed cursor first_start before inner s
  assume b: "before = trim_end (take cursor trimmed)" and i: "inner = take (length before - 2) before"
    and s: "\<not> length inner < s + 2"
  have "length before \<le> cursor" using length_trim_end [of "take cursor trimmed"] b by simp
  with i s show "((S, trimmed, s, Some s), S, trimmed, cursor, first_start) \<in> measure (\<lambda>(S, trimmed, cursor, _). cursor)"
    by auto
qed simp

definition trailing_block_comment :: "search_ops \<Rightarrow> string \<Rightarrow> (string \<times> string) option" where
  "trailing_block_comment S q =
     (let trimmed = trim_end q in
      case trailing_loop S trimmed (length trimmed) None of
        None \<Rightarrow> None
      | Some start_idx \<Rightarrow> Some (trim_end (take start_idx q), drop start_idx trimmed))"

declare leading_loop.simps [simp del] trailing_loop.simps [simp del]

section \<open>Substring search\<close>

definition occurs_at :: "string \<Rightarrow> string \<Rightarrow> nat \<Rightarrow> bool" where
  "occurs_at h n i \<longleftrightarrow> i + length n \<le> length h \<and> take (length n) (drop i h) = n"

definition search_ok :: "search_ops \<Rightarrow> bool" where
  "search_ok S \<longleftrightarrow>
     (\<forall>h n. case s_find S h n of
        None \<Rightarrow> \<forall>i. \<not> occurs_at h n i | Some i \<Rightarrow> occurs_at h n i \<and> (\<forall>j<i. \<not> occurs_at h n j))
     \<and> (\<forall>h n. case s_rfind S h n of
        None \<Rightarrow> \<forall>i. \<not> occurs_at h n i | Some i \<Rightarrow> occurs_at h n i \<and> (\<forall>j>i. \<not> occurs_at h n j))"

lemma find_ok:
  assumes "search_ok S"
  shows "s_find S h n = None \<Longrightarrow> \<not> occurs_at h n i"
    and "s_find S h n = Some i \<Longrightarrow> occurs_at h n i \<and> (\<forall>j<i. \<not> occurs_at h n j)"
    and "s_rfind S h n = None \<Longrightarrow> \<not> occurs_at h n i"
    and "s_rfind S h n = Some i \<Longrightarrow> occurs_at h n i \<and> (\<forall>j>i. \<not> occurs_at h n j)"
proof -
  have "case s_find S h n of None \<Rightarrow> \<forall>i. \<not> occurs_at h n i | Some i \<Rightarrow> occurs_at h n i \<and> (\<forall>j<i. \<not> occurs_at h n j)"
    "case s_rfind S h n of None \<Rightarrow> \<forall>i. \<not> occurs_at h n i | Some i \<Rightarrow> occurs_at h n i \<and> (\<forall>j>i. \<not> occurs_at h n j)"
    using assms unfolding search_ok_def by blast+
  then show "s_find S h n = None \<Longrightarrow> \<not> occurs_at h n i"
    and "s_find S h n = Some i \<Longrightarrow> occurs_at h n i \<and> (\<forall>j<i. \<not> occurs_at h n j)"
    and "s_rfind S h n = None \<Longrightarrow> \<not> occurs_at h n i"
    and "s_rfind S h n = Some i \<Longrightarrow> occurs_at h n i \<and> (\<forall>j>i. \<not> occurs_at h n j)"
    by simp_all
qed

lemma occurs_split: "occurs_at h n i \<Longrightarrow> h = take i h @ n @ drop (i + length n) h"
  using append_take_drop_id [of i h] append_take_drop_id [of "length n" "drop i h"]
  by (simp add: occurs_at_def add.commute)

lemma occurs_middle: "occurs_at (a @ n @ b) n (length a)"
  by (simp add: occurs_at_def)

lemma occurs_append: "occurs_at a n i \<Longrightarrow> occurs_at (a @ b) n i"
  by (auto simp: occurs_at_def)

text \<open>A search that tries every position keeps the contract.\<close>

definition naive_search :: search_ops where
  "naive_search =
     \<lparr>s_find = (\<lambda>h n. find (occurs_at h n) [0..<Suc (length h)]),
      s_rfind = (\<lambda>h n. find (occurs_at h n) (rev [0..<Suc (length h)]))\<rparr>"

lemma occurs_range: "occurs_at h n i \<Longrightarrow> i \<le> length h"
  by (simp add: occurs_at_def)

lemma naive_search_ok: "search_ok naive_search"
proof -
  have range: "occurs_at h n i \<Longrightarrow> i \<in> set [0..<Suc (length h)]" for h n i
    using occurs_range [of h n i] by auto
  have nth: "[0..<Suc (length h)] ! i = i" "rev [0..<Suc (length h)] ! i = length h - i" if "i < Suc (length h)"
    for h :: string and i
    using that by (simp_all add: rev_nth del: upt_Suc)
  have "case find (occurs_at h n) [0..<Suc (length h)] of
      None \<Rightarrow> \<forall>i. \<not> occurs_at h n i | Some i \<Rightarrow> occurs_at h n i \<and> (\<forall>j<i. \<not> occurs_at h n j)" for h n
    using range by (auto simp: find_None_iff find_Some_iff nth simp del: upt_Suc split: option.split)
  moreover have "case find (occurs_at h n) (rev [0..<Suc (length h)]) of
      None \<Rightarrow> \<forall>i. \<not> occurs_at h n i | Some i \<Rightarrow> occurs_at h n i \<and> (\<forall>j>i. \<not> occurs_at h n j)" for h n
  proof (cases "find (occurs_at h n) (rev [0..<Suc (length h)])")
    case None
    then have "\<not> occurs_at h n i" for i using range [of h n i] unfolding find_None_iff by auto
    with None show ?thesis by simp
  next
    case (Some i)
    then obtain m where m: "m < Suc (length h)" "occurs_at h n i" "i = length h - m" and "\<forall>j<m. \<not> occurs_at h n (length h - j)"
      by (auto simp: find_Some_iff nth simp del: upt_Suc)
    have "\<not> occurs_at h n j" if "i < j" for j
    proof
      assume "occurs_at h n j"
      moreover from this have "j = length h - (length h - j)" "length h - j < m" using that m(3) occurs_range [of h n j] by auto
      ultimately show False using \<open>\<forall>j<m. \<not> occurs_at h n (length h - j)\<close> by metis
    qed
    with Some m show ?thesis by simp
  qed
  ultimately show ?thesis by (simp add: search_ok_def naive_search_def)
qed

section \<open>What is stripped\<close>

text \<open>A run of block comments: comments whose body does not hold the closing mark, with whitespace between them.\<close>

definition free_of :: "string \<Rightarrow> string \<Rightarrow> bool" where
  "free_of b n \<longleftrightarrow> (\<forall>i. \<not> occurs_at b n i)"

abbreviation spaces :: "string \<Rightarrow> bool" where
  "spaces w \<equiv> list_all is_edge_whitespace w"

inductive comment_run :: "string \<Rightarrow> bool" where
  one: "free_of b close_mark \<Longrightarrow> comment_run (open_mark @ b @ close_mark)"
| two: "comment_run c \<Longrightarrow> spaces w \<Longrightarrow> comment_run d \<Longrightarrow> comment_run (c @ w @ d)"

definition begins_comment :: "string \<Rightarrow> bool" where
  "begins_comment s \<longleftrightarrow> (\<exists>b r. s = open_mark @ b @ close_mark @ r)"

lemma trim_start_split: "\<exists>w. s = w @ trim_start s \<and> spaces w"
  by (metis trim_start_def takeWhile_dropWhile_id list_all_iff set_takeWhileD)

lemma trim_end_split: "\<exists>w. s = trim_end s @ w \<and> spaces w"
proof -
  obtain w where "rev s = w @ trim_start (rev s)" "spaces w" using trim_start_split by blast
  then have "s = rev (trim_start (rev s)) @ rev w" "spaces (rev w)" by (metis rev_append rev_rev_ident, simp)
  then show ?thesis unfolding trim_end_def trim_start_def by blast
qed

lemma trim_start_idem [simp]: "trim_start (trim_start s) = trim_start s"
  by (simp add: trim_start_def)

lemma trim_end_idem [simp]: "trim_end (trim_end s) = trim_end s"
  by (simp add: trim_end_def)

text \<open>One round of the loop at the front: what is left starts with a comment exactly if the search finds its end.\<close>

lemma leading_round:
  assumes "search_ok S" "starts_with s open_mark"
  shows "s_find S (drop 2 s) close_mark = None \<Longrightarrow> \<not> begins_comment s"
    and "s_find S (drop 2 s) close_mark = Some e \<Longrightarrow>
      \<exists>b. s = open_mark @ b @ close_mark @ drop (e + 4) s \<and> length b = e \<and> free_of b close_mark"
proof -
  have s: "s = open_mark @ drop 2 s"
    using assms(2) unfolding starts_with_def by (metis append_take_drop_id length_Cons list.size(3) numeral_2_eq_2)
  show "\<not> begins_comment s" if "s_find S (drop 2 s) close_mark = None"
  proof
    assume "begins_comment s"
    then obtain b r where "drop 2 s = b @ close_mark @ r" by (auto simp: begins_comment_def)
    with find_ok(1) [OF assms(1) that] occurs_middle [of b close_mark r] show False by simp
  qed
  show "\<exists>b. s = open_mark @ b @ close_mark @ drop (e + 4) s \<and> length b = e \<and> free_of b close_mark"
    if "s_find S (drop 2 s) close_mark = Some e"
  proof -
    have o: "occurs_at (drop 2 s) close_mark e" "\<forall>j<e. \<not> occurs_at (drop 2 s) close_mark j"
      using find_ok(2) [OF assms(1) that] by auto
    let ?b = "take e (drop 2 s)"
    have d: "drop 2 s = ?b @ close_mark @ drop (e + 4) s" using occurs_split [OF o(1)] by (simp add: numeral_eq_Suc)
    have len: "length ?b = e" using o(1) by (auto simp: occurs_at_def)
    have "free_of ?b close_mark"
      unfolding free_of_def
    proof (intro allI notI)
      fix i
      assume b: "occurs_at ?b close_mark i"
      then have "i < e" using len by (simp add: occurs_at_def)
      moreover have "occurs_at (drop 2 s) close_mark i" 
        using occurs_append [OF b, of "drop e (drop 2 s)"] unfolding append_take_drop_id .
      ultimately show False using o(2) by blast
    qed
    moreover have "s = open_mark @ ?b @ close_mark @ drop (e + 4) s" using s d by simp
    ultimately show ?thesis using len by blast
  qed
qed

text \<open>\<open>run_at t pos\<close>: nothing or a run of comments lies before \<open>pos\<close>.\<close>

definition run_at :: "string \<Rightarrow> nat \<Rightarrow> nat option \<Rightarrow> bool" where
  "run_at t pos le \<longleftrightarrow>
     pos \<le> length t \<and> (case le of None \<Rightarrow> pos = 0 | Some e \<Rightarrow> e = pos \<and> comment_run (take pos t))"

lemma not_starts_not_begins: "\<not> starts_with s open_mark \<Longrightarrow> \<not> begins_comment s"
  by (auto simp: starts_with_def begins_comment_def)

lemma take_length_append: "take (length x) (x @ y) = x"
  by simp

lemma run_at_extend:
  assumes "run_at t pos le" "trim_start t = t" "drop pos t = w @ open_mark @ b @ close_mark @ r" "spaces w"
    and "free_of b close_mark"
  shows "run_at t (pos + length w + length b + 4) (Some (pos + length w + length b + 4))"
proof -
  let ?block = "open_mark @ b @ close_mark"
  have t: "t = take pos t @ w @ ?block @ r" using append_take_drop_id [of pos t] assms(3) by simp
  have pos: "length (take pos t) = pos" using assms(1) by (simp add: run_at_def)
  have e: "pos + length w + length b + 4 = length (take pos t @ w @ ?block)" using pos by simp
  have take: "take (pos + length w + length b + 4) t = take pos t @ w @ ?block"
    unfolding e using take_length_append [of "take pos t @ w @ ?block" r] t by (metis append_assoc)
  have "comment_run (take pos t @ w @ ?block)"
  proof (cases le)
    case None
    then have "t = w @ ?block @ r" using assms(1) t by (simp add: run_at_def)
    moreover have "w = []"
    proof (rule ccontr)
      assume "w \<noteq> []"
      then obtain c w' where "w = c # w'" by (cases w) auto
      with \<open>t = w @ ?block @ r\<close> assms(4) have "trim_start t = trim_start (w' @ ?block @ r)" "length t = Suc (length (w' @ ?block @ r))"
        by (simp_all add: trim_start_def)
      with assms(2) length_trim_start [of "w' @ ?block @ r"] show False by simp
    qed
    ultimately show ?thesis using None assms(1,5) comment_run.one by (simp add: run_at_def)
  next
    case (Some e)
    then show ?thesis using assms(1,4) comment_run.two [OF _ assms(4) comment_run.one [OF assms(5)]] by (simp add: run_at_def)
  qed
  moreover have "pos + length w + length b + 4 \<le> length t" 
    unfolding e using arg_cong [OF t, of length] unfolding length_append by linarith
  ultimately show ?thesis unfolding run_at_def option.case take by blast
qed

lemma leading_loop_run:
  assumes "search_ok S" "trim_start t = t"
  shows "run_at t pos le \<Longrightarrow>
    (case leading_loop S t pos le of
       None \<Rightarrow> \<not> begins_comment t
     | Some e \<Rightarrow> e \<le> length t \<and> comment_run (take e t) \<and> \<not> begins_comment (trim_start (drop e t)))"
proof (induction "length t - pos" arbitrary: pos le rule: less_induct)
  case less
  let ?r = "trim_start (drop pos t)"
  have stop: ?case if "leading_loop S t pos le = le" "\<not> begins_comment ?r"
    using that less.prems assms(2) by (auto simp: run_at_def split: option.split)
  consider "\<not> starts_with ?r open_mark" | "starts_with ?r open_mark" "s_find S (drop 2 ?r) close_mark = None"
    | e where "starts_with ?r open_mark" "s_find S (drop 2 ?r) close_mark = Some e"
    by (cases "s_find S (drop 2 ?r) close_mark") auto
  then show ?case
  proof cases
    case 1
    then show ?thesis using not_starts_not_begins by (intro stop) (subst leading_loop.simps, simp add: Let_def)
  next
    case 2
    then show ?thesis
      using leading_round(1) [OF assms(1)] by (intro stop) (subst leading_loop.simps, simp add: Let_def)
  next
    case 3
    obtain b where b: "?r = open_mark @ b @ close_mark @ drop (e + 4) ?r" "length b = e" "free_of b close_mark"
      using leading_round(2) [OF assms(1) 3] by blast
    obtain w where w: "drop pos t = w @ ?r" "spaces w" using trim_start_split by blast
    let ?e = "pos + length w + length b + 4"
    have "drop pos t = w @ open_mark @ b @ close_mark @ drop (e + 4) ?r"
      by (rule trans [OF w(1)]) (rule arg_cong [OF b(1)])
    then have run: "run_at t ?e (Some ?e)" by (rule run_at_extend [OF less.prems assms(2) _ w(2) b(3)])
    have "length t - pos = length w + length ?r" using arg_cong [OF w(1), of length] by simp
    moreover have "pos \<le> length t" using less.prems by (simp add: run_at_def)
    moreover have "2 \<le> length ?r" using starts_with_length [OF 3(1)] by simp
    ultimately have len: "length t - length ?r = pos + length w" "length t - ?e < length t - pos" by auto
    have "leading_loop S t pos le = leading_loop S t ?e (Some ?e)"
      using 3 len(1) b(2) by (subst leading_loop.simps) (simp add: Let_def numeral_eq_Suc)
    with less.hyps [OF len(2) run] show ?thesis by simp
  qed
qed

lemma leading_found:
  assumes "search_ok S" "leading_block_comment S q = Some (rest, comment)"
  shows "\<exists>w v. q = w @ comment @ v @ rest \<and> spaces w \<and> spaces v \<and> comment_run comment \<and> \<not> begins_comment rest
    \<and> trim_start rest = rest"
proof -
  let ?t = "trim_start q"
  obtain e where e: "leading_loop S ?t 0 None = Some e" "rest = trim_start (drop e ?t)" "comment = take e ?t"
    using assms(2) by (auto simp: leading_block_comment_def Let_def split: option.splits)
  have "run_at ?t 0 None" by (simp add: run_at_def)
  from leading_loop_run [OF assms(1) trim_start_idem this] e
  have run: "comment_run comment" "\<not> begins_comment rest" by simp_all
  obtain w where w: "q = w @ ?t" "spaces w" using trim_start_split by blast
  obtain v where v: "drop e ?t = v @ rest" "spaces v" using trim_start_split e(2) by blast
  have "?t = comment @ v @ rest" using append_take_drop_id [of e ?t] e(3) v(1) by simp
  then have "q = w @ comment @ v @ rest" using w(1) by simp
  moreover have "trim_start rest = rest" using e(2) by simp
  ultimately show ?thesis using run w(2) v(2) by blast
qed

lemma leading_none:
  assumes "search_ok S" "leading_block_comment S q = None"
  shows "\<not> begins_comment (trim_start q)"
proof -
  have "run_at (trim_start q) 0 None" by (simp add: run_at_def)
  from leading_loop_run [OF assms(1) trim_start_idem this] assms(2) show ?thesis
    by (simp add: leading_block_comment_def Let_def split: option.splits)
qed

text \<open>At the end of a query a comment is recognised if its body holds neither mark.\<close>

definition ends_comment :: "string \<Rightarrow> bool" where
  "ends_comment s \<longleftrightarrow> (\<exists>p b. s = p @ open_mark @ b @ close_mark \<and> free_of b close_mark \<and> free_of b open_mark)"

lemma ends_with_split: "ends_with s p \<longleftrightarrow> (\<exists>r. s = r @ p)"
proof
  assume "ends_with s p"
  then have "s = take (length s - length p) s @ p" unfolding ends_with_def by (metis append_take_drop_id)
  then show "\<exists>r. s = r @ p" by blast
qed (auto simp: ends_with_def)

lemma trailing_round:
  assumes "search_ok S" "s = inner @ close_mark"
  shows "s_rfind S inner open_mark = None \<Longrightarrow> \<not> ends_comment s"
    and "s_rfind S inner open_mark = Some i \<Longrightarrow> s_find S (drop (i + 2) inner) close_mark \<noteq> None \<Longrightarrow> \<not> ends_comment s"
    and "s_rfind S inner open_mark = Some i \<Longrightarrow>
      inner = take i inner @ open_mark @ drop (i + 2) inner \<and> i + 2 \<le> length inner"
proof -
  have inner: "inner = p @ open_mark @ b" if "s = p @ open_mark @ b @ close_mark" for p b
    using that assms(2) by (metis append.assoc append_same_eq)
  show "\<not> ends_comment s" if "s_rfind S inner open_mark = None"
    using find_ok(3) [OF assms(1) that] occurs_middle inner unfolding ends_comment_def by blast
  show split: "inner = take i inner @ open_mark @ drop (i + 2) inner \<and> i + 2 \<le> length inner"
    if "s_rfind S inner open_mark = Some i" for i
    using find_ok(4) [OF assms(1) that] occurs_split [of inner open_mark i] by (simp add: occurs_at_def)
  show "\<not> ends_comment s"
    if r: "s_rfind S inner open_mark = Some i" and f: "s_find S (drop (i + 2) inner) close_mark \<noteq> None"
  proof
    assume "ends_comment s"
    then obtain p b where b: "inner = p @ open_mark @ b" "free_of b close_mark" "free_of b open_mark"
      using inner unfolding ends_comment_def by blast
    have "length p \<le> i" using find_ok(4) [OF assms(1) r] occurs_middle [of p open_mark b] b(1) not_le by blast
    moreover have "\<not> length p < i"
    proof
      assume less: "length p < i"
      have o: "i + 2 \<le> length inner" "take 2 (drop i inner) = open_mark"
        using find_ok(4) [OF assms(1) r] by (auto simp: occurs_at_def numeral_2_eq_2)
      show False
      proof (cases "i = Suc (length p)")
        case True
        with o(2) b(1) show False by simp
      next
        case False
        with less obtain k where "i = length p + 2 + k" using le_Suc_ex [of "length p + 2" i] by auto
        with o b(1) have "occurs_at b open_mark k" by (simp add: occurs_at_def numeral_2_eq_2)
        with b(3) show False by (simp add: free_of_def)
      qed
    qed
    ultimately have "drop (i + 2) inner = b" using b(1) by simp
    with f b(2) find_ok(2) [OF assms(1)] show False unfolding free_of_def by blast
  qed
qed

text \<open>\<open>run_from t cursor\<close>: nothing or a run of comments lies from \<open>cursor\<close> on.\<close>

definition run_from :: "string \<Rightarrow> nat \<Rightarrow> nat option \<Rightarrow> bool" where
  "run_from t cursor fs \<longleftrightarrow>
     cursor \<le> length t
     \<and> (case fs of None \<Rightarrow> cursor = length t | Some e \<Rightarrow> e = cursor \<and> comment_run (drop cursor t))"

lemma drop_length_append: "drop (length x) (x @ y) = y"
  by simp

lemma run_from_extend:
  assumes "run_from t cursor fs" "trim_end t = t" "take cursor t = p @ open_mark @ b @ close_mark @ w" "spaces w"
    and "free_of b close_mark"
  shows "run_from t (length p) (Some (length p))"
proof -
  let ?block = "open_mark @ b @ close_mark"
  have t: "t = p @ ?block @ w @ drop cursor t" using append_take_drop_id [of cursor t] assms(3) by simp
  have "drop (length p) t = ?block @ w @ drop cursor t" using drop_length_append [of p] t by metis
  moreover have "comment_run (?block @ w @ drop cursor t)"
  proof (cases fs)
    case None
    then have "t = (p @ ?block) @ w" using assms(1) t by (simp add: run_from_def)
    moreover have "w = []"
    proof (rule ccontr)
      assume "w \<noteq> []"
      then obtain w' c where w: "w = w' @ [c]" by (cases w rule: rev_cases) auto
      with \<open>t = (p @ ?block) @ w\<close> assms(4) have "trim_end t = trim_end ((p @ ?block) @ w')"
        "length t = Suc (length ((p @ ?block) @ w'))"
        by (simp_all add: trim_end_def)
      with assms(2) length_trim_end [of "(p @ ?block) @ w'"] show False by simp
    qed
    ultimately show ?thesis using None assms(1,5) comment_run.one [OF assms(5)] by (simp add: run_from_def)
  next
    case (Some e)
    then have "comment_run (drop cursor t)" using assms(1) by (simp add: run_from_def)
    from comment_run.two [OF comment_run.one [OF assms(5)] assms(4) this] show ?thesis by simp
  qed
  moreover have "length p \<le> length t" using arg_cong [OF t, of length] by simp
  ultimately show ?thesis by (simp add: run_from_def)
qed

lemma not_ends_with: "\<not> ends_with s close_mark \<Longrightarrow> \<not> ends_comment s"
  by (auto simp: ends_with_split ends_comment_def)

lemma trailing_loop_run:
  assumes "search_ok S" "trim_end t = t"
  shows "run_from t cursor fs \<Longrightarrow>
    (case trailing_loop S t cursor fs of
       None \<Rightarrow> \<not> ends_comment t
     | Some e \<Rightarrow> e \<le> length t \<and> comment_run (drop e t) \<and> \<not> ends_comment (trim_end (take e t)))"
proof (induction cursor arbitrary: fs rule: less_induct)
  case (less cursor)
  let ?b = "trim_end (take cursor t)"
  let ?inner = "take (length ?b - 2) ?b"
  have stop: ?case if "trailing_loop S t cursor fs = fs" "\<not> ends_comment ?b"
    using that less.prems assms(2) by (auto simp: run_from_def split: option.split)
  show ?case
  proof (cases "ends_with ?b close_mark")
    case False
    then show ?thesis using not_ends_with by (intro stop) (subst trailing_loop.simps, simp add: Let_def)
  next
    case True
    then obtain x where "?b = x @ close_mark" unfolding ends_with_split by blast
    then have b: "?b = ?inner @ close_mark" by simp
    note round = trailing_round [OF assms(1) b]
    consider "s_rfind S ?inner open_mark = None"
      | i where "s_rfind S ?inner open_mark = Some i" "s_find S (drop (i + 2) ?inner) close_mark \<noteq> None"
      | i where "s_rfind S ?inner open_mark = Some i" "s_find S (drop (i + 2) ?inner) close_mark = None"
      by (cases "s_rfind S ?inner open_mark") auto
    then show ?thesis
    proof cases
      case 1
      then show ?thesis using round(1) True by (intro stop) (subst trailing_loop.simps, simp add: Let_def)
    next
      case (2 i)
      then show ?thesis using round(2) True by (intro stop) (subst trailing_loop.simps, simp add: Let_def)
    next
      case (3 i)
      let ?p = "take i ?inner" and ?body = "drop (i + 2) ?inner"
      from round(3) [OF 3(1)] have i: "?inner = ?p @ open_mark @ ?body" "i + 2 \<le> length ?inner" by auto
      obtain w where w: "take cursor t = ?b @ w" "spaces w" using trim_end_split by blast
      have "?b = ?p @ open_mark @ ?body @ close_mark"
        by (rule trans [OF b]) (subst i(1), simp only: append.assoc)
      then have "take cursor t = ?p @ open_mark @ ?body @ close_mark @ w"
        using w(1) by (metis append.assoc)
      moreover have "free_of ?body close_mark" using find_ok(1) [OF assms(1) 3(2)] by (simp add: free_of_def)
      moreover have p: "length ?p = i" using i(2) by simp
      ultimately have "run_from t i (Some i)" using run_from_extend [OF less.prems assms(2) _ w(2)] by metis
      moreover have "i < cursor" using i(2) length_trim_end [of "take cursor t"] by auto
      moreover have "trailing_loop S t cursor fs = trailing_loop S t i (Some i)"
        using 3 True i(2) by (subst trailing_loop.simps) (simp add: Let_def)
      ultimately show ?thesis using less.IH by simp
    qed
  qed
qed

lemma trailing_found:
  assumes "search_ok S" "trailing_block_comment S q = Some (rest, comment)"
  shows "\<exists>w v. q = rest @ v @ comment @ w \<and> spaces w \<and> spaces v \<and> comment_run comment \<and> \<not> ends_comment rest"
proof -
  let ?t = "trim_end q"
  obtain e where e: "trailing_loop S ?t (length ?t) None = Some e" "rest = trim_end (take e q)" "comment = drop e ?t"
    using assms(2) by (auto simp: trailing_block_comment_def Let_def split: option.splits)
  have "run_from ?t (length ?t) None" by (simp add: run_from_def)
  from trailing_loop_run [OF assms(1) trim_end_idem this] e
  have run: "comment_run comment" "e \<le> length ?t" "\<not> ends_comment (trim_end (take e ?t))" by simp_all
  obtain w where w: "q = ?t @ w" "spaces w" using trim_end_split by blast
  then have "take e q = take e ?t" using run(2) by (metis take_append diff_is_0_eq take0 append_Nil2 take_0)
  moreover obtain v where v: "take e q = rest @ v" "spaces v" using trim_end_split e(2) by blast
  ultimately have "?t = rest @ v @ comment" using e(3) by (metis append.assoc append_take_drop_id)
  then have "q = rest @ v @ comment @ w" using w(1) by simp
  then show ?thesis using run w(2) v(2) e(2) \<open>take e q = take e ?t\<close> by auto
qed

section \<open>One comment\<close>

lemma find_close:
  assumes "search_ok S" "free_of a close_mark"
  shows "s_find S (a @ close_mark @ x) close_mark = Some (length a)"
proof (cases "s_find S (a @ close_mark @ x) close_mark")
  case None
  with find_ok(1) [OF assms(1) None, of "length a"] occurs_middle [of a close_mark x] show ?thesis by simp
next
  case (Some i)
  have o: "occurs_at (a @ close_mark @ x) close_mark i" "\<forall>j<i. \<not> occurs_at (a @ close_mark @ x) close_mark j"
    using find_ok(2) [OF assms(1) Some] by auto
  then have "i \<le> length a" using occurs_middle [of a close_mark x] not_le by blast
  moreover have "\<not> i < length a"
  proof
    assume less: "i < length a"
    have two: "take 2 (drop i (a @ close_mark @ x)) = close_mark" using o(1) by (simp add: occurs_at_def numeral_2_eq_2)
    show False
    proof (cases "Suc i = length a")
      case True
      then have "drop i a = [a ! i]" using less by (metis Cons_nth_drop_Suc drop_all order_refl)
      with two less show False by (simp add: numeral_2_eq_2)
    next
      case False
      with less two have "occurs_at a close_mark i" by (simp add: occurs_at_def numeral_2_eq_2)
      with assms(2) show False by (simp add: free_of_def)
    qed
  qed
  ultimately show ?thesis using Some by simp
qed

lemma trim_start_spaces: "spaces w \<Longrightarrow> trim_start (w @ s) = trim_start s"
  by (induction w) (simp_all add: trim_start_def)

text \<open>A comment in front of a query is taken off with the whitespace around it, and nothing else is.\<close>

theorem comment_removed:
  assumes "search_ok S" "free_of a close_mark" "spaces w" "spaces v" "trim_start r = r" "\<not> begins_comment r"
  shows "leading_block_comment S (w @ open_mark @ a @ close_mark @ v @ r) = Some (r, open_mark @ a @ close_mark)"
proof -
  let ?block = "open_mark @ a @ close_mark"
  let ?t = "?block @ v @ r" and ?e = "length a + 4"
  have ws: "\<not> is_edge_whitespace (CHR ''/'')" by (simp add: is_edge_whitespace_def)
  have t: "trim_start (w @ open_mark @ a @ close_mark @ v @ r) = ?t" "trim_start ?t = ?t"
    using trim_start_spaces [OF assms(3)] ws by (simp_all add: trim_start_def)
  have rest: "trim_start (drop ?e ?t) = r" "take ?e ?t = ?block"
    using trim_start_spaces [OF assms(4)] assms(5) take_length_append [of ?block "v @ r"] drop_length_append [of ?block "v @ r"]
    by (simp_all add: numeral_eq_Suc)
  have "leading_loop S ?t 0 None = leading_loop S ?t ?e (Some ?e)"
    using find_close [OF assms(1,2), of "v @ r"] t(2)
    by (subst leading_loop.simps) (simp add: Let_def starts_with_def numeral_eq_Suc)
  also have "\<dots> = Some ?e"
  proof (cases "starts_with r open_mark")
    case False
    then show ?thesis using rest(1) by (subst leading_loop.simps) (simp add: Let_def)
  next
    case True
    have "s_find S (drop 2 r) close_mark = None"
    proof (rule ccontr)
      assume "s_find S (drop 2 r) close_mark \<noteq> None"
      then obtain e where "s_find S (drop 2 r) close_mark = Some e" by blast
      from leading_round(2) [OF assms(1) True this] assms(6) show False unfolding begins_comment_def by blast
    qed
    with True show ?thesis using rest(1) by (subst leading_loop.simps) (simp add: Let_def)
  qed
  finally show ?thesis using rest by (simp only: leading_block_comment_def t(1) Let_def option.case)
qed

text \<open>A comment ends at the first closing mark, although block comments nest in PostgreSQL: what is left of the
  enclosing comment stays in the query.\<close>

lemma free_of_list: "free_of b n \<longleftrightarrow> list_all (\<lambda>i. \<not> occurs_at b n i) [0..<Suc (length b)]"
  using occurs_range [of b n] by (force simp: free_of_def list_all_iff simp del: upt_Suc)

lemma no_close: "free_of '' a /* b '' close_mark"
  unfolding free_of_list by code_simp

theorem comment_removed_witness:
  "leading_block_comment naive_search (''  '' @ open_mark @ '' a /* b '' @ close_mark @ '' '' @ ''c */ SELECT 1'')
   = Some (''c */ SELECT 1'', open_mark @ '' a /* b '' @ close_mark)"
proof -
  have "spaces ''  ''" "spaces '' ''" "trim_start ''c */ SELECT 1'' = ''c */ SELECT 1''" by code_simp+
  moreover have "\<not> begins_comment ''c */ SELECT 1''" by (simp add: begins_comment_def)
  ultimately show ?thesis using comment_removed [OF naive_search_ok no_close] by blast
qed

end
