(* ===== verification/RouteHints.thy ===== *)
theory RouteHints
  imports Sharding BlockComment LoadBalancer
begin

text \<open>
  Routing by hand: the directives in the comments around a query (\<^verbatim>\<open>mod.rs\<close> and \<^verbatim>\<open>directive.rs\<close> in
  \<^verbatim>\<open>pgdog/src/frontend/router/parser/comment\<close>) and in the parameters of a session
  (\<^verbatim>\<open>pgdog/src/frontend/router/parameter_hints.rs\<close>).

  The regular expressions of the directives are the record \<open>regex_ops\<close>, which holds what they capture. The hooks of the
  enterprise edition do nothing in this source and are left out.
\<close>

section \<open>Directives\<close>

record 'o sharding_schema =
  sch_shards :: nat
  sch_tables :: "'o sharded_tables"
  sch_schemas :: sharded_schemas

record regex_ops =
  rx_role :: "string \<Rightarrow> string option"
  rx_sharding_key :: "string \<Rightarrow> (string option \<times> string option \<times> string option) option"
  rx_shard :: "string \<Rightarrow> string option"

datatype hint_error = RegexError | HintSharding sharding_error

definition sharding_result :: "sharding_error + 'a \<Rightarrow> hint_error + 'a" where
  "sharding_result r = (case r of Inl e \<Rightarrow> Inl (HintSharding e) | Inr a \<Rightarrow> Inr a)"

definition get_matched_value :: "string option \<times> string option \<times> string option \<Rightarrow> string option" where
  "get_matched_value caps =
     (case caps of (a, b, c) \<Rightarrow> (case a of Some s \<Rightarrow> Some s | None \<Rightarrow> (case b of Some s \<Rightarrow> Some s | None \<Rightarrow> c)))"

definition route_key :: "'o key_ops \<Rightarrow> 'o sharding_schema \<Rightarrow> string \<Rightarrow> hint_error + shard" where
  "route_key X schema key =
     sharding_result
       (and_then (cb_infer X key (sch_tables schema)) (\<lambda>b.
        and_then (cb_build (cb_shards (sch_shards schema) b)) (context_apply X)))"

definition shard_role_from_comment ::
    "regex_ops \<Rightarrow> 'o key_ops \<Rightarrow> 'o sharding_schema \<Rightarrow> string \<Rightarrow> hint_error + shard option \<times> role option" where
  "shard_role_from_comment R X schema comment =
     and_then
       (case rx_role R comment of
          None \<Rightarrow> Inr None
        | Some r \<Rightarrow>
            if r = ''primary'' then Inr (Some Primary) else if r = ''replica'' then Inr (Some Replica) else Inl RegexError)
       (\<lambda>role.
         case Option.bind (rx_sharding_key R comment) get_matched_value of
           Some sharding_key \<Rightarrow>
             (case sharded_schemas_get (sch_schemas schema) (Some sharding_key) of
                Some s \<Rightarrow> Inr (Some (shard_from_option (schema_shard s)), role)
              | None \<Rightarrow> and_then (route_key X schema sharding_key) (\<lambda>shard. Inr (Some shard, role)))
         | None \<Rightarrow>
             (case rx_shard R comment of
                Some shard \<Rightarrow>
                  Inr (Some (case parse_usize shard of Some n \<Rightarrow> ShDirect (nat n) | None \<Rightarrow> ShAll), role)
              | None \<Rightarrow> Inr (None, role)))"

datatype query_without_comment = Original string | Stripped string

fun query_deref :: "query_without_comment \<Rightarrow> string" where
  "query_deref (Original q) = q"
| "query_deref (Stripped q) = q"

record query_and_comment =
  qc_query :: query_without_comment
  qc_role :: "role option"
  qc_shard :: "shard option"

definition parse_edge_comment ::
    "search_ops \<Rightarrow> regex_ops \<Rightarrow> 'o key_ops \<Rightarrow> 'o sharding_schema \<Rightarrow> string \<Rightarrow> hint_error + query_and_comment" where
  "parse_edge_comment S R X schema query =
     (let (after_leading, leading) =
            (case leading_block_comment S query of Some (rest, c) \<Rightarrow> (rest, Some c) | None \<Rightarrow> (query, None));
          (stripped, trailing) =
            (case trailing_block_comment S after_leading of
               Some (rest, c) \<Rightarrow> (rest, Some c) | None \<Rightarrow> (after_leading, None))
      in if leading = None \<and> trailing = None
         then Inr \<lparr>qc_query = Original query, qc_role = None, qc_shard = None\<rparr>
         else
           and_then
             (case leading of Some c \<Rightarrow> shard_role_from_comment R X schema c | None \<Rightarrow> Inr (None, None)) (\<lambda>(shard, role).
           and_then
             (case trailing of
                Some c \<Rightarrow>
                  and_then (shard_role_from_comment R X schema c) (\<lambda>(t_shard, t_role).
                    Inr (if shard = None then t_shard else shard, if role = None then t_role else role))
              | None \<Rightarrow> Inr (shard, role)) (\<lambda>(shard, role).
             Inr \<lparr>qc_query = Stripped stripped, qc_role = role, qc_shard = shard\<rparr>)))"

section \<open>Session parameters\<close>

record parameter_hints =
  ph_search_path :: "parameter_value option"
  ph_shard :: "parameter_value option"
  ph_sharding_key :: "parameter_value option"
  ph_role :: "parameter_value option"

text \<open>The four tests of \<^verbatim>\<open>compute_shard\<close> in their order; \<^verbatim>\<open>*val as usize\<close> of a negative number wraps. The sharder of the
  schemas is shared by the last two.\<close>

definition compute_shard ::
    "'o key_ops \<Rightarrow> 'o sharding_schema \<Rightarrow> parameter_hints \<Rightarrow> shards_with_priority \<Rightarrow> hint_error + shards_with_priority" where
  "compute_shard X schema hints shards =
     (let shards =
            (case ph_shard hints of
               Some (PvInteger val) \<Rightarrow> prio_push shards (new_set (ShDirect (of_signed 64 val)))
             | Some (PvString val) \<Rightarrow>
                 (case parse_usize val of Some n \<Rightarrow> prio_push shards (new_set (ShDirect (nat n))) | None \<Rightarrow> shards)
             | _ \<Rightarrow> shards)
      in and_then
           (case ph_sharding_key hints of
              Some (PvString val) \<Rightarrow>
                if sss_schemas (sch_schemas schema) = []
                then and_then (route_key X schema val) (\<lambda>shard. Inr (sharder_default, prio_push shards (new_set shard)))
                else
                  let r = sharder_resolve (sch_schemas schema) (Some val) sharder_default in
                  Inr (r, case sharder_get r of Some (shard, _) \<Rightarrow> prio_push shards (new_set shard) | None \<Rightarrow> shards)
            | _ \<Rightarrow> Inr (sharder_default, shards))
           (\<lambda>(r, shards).
             case ph_search_path hints of
               None \<Rightarrow> Inr shards
             | Some search_path \<Rightarrow>
                 let r = (case search_path of
                            PvString path \<Rightarrow> sharder_resolve (sch_schemas schema) (Some path) r
                          | PvTuple paths \<Rightarrow> fold (\<lambda>path. sharder_resolve (sch_schemas schema) (Some path)) paths r
                          | PvInteger _ \<Rightarrow> r)
                 in Inr (case sharder_get r of
                           Some (shard, name) \<Rightarrow> prio_push shards (swp_new (FromSearchPath name) shard)
                         | None \<Rightarrow> shards)))"

definition compute_role :: "parameter_hints \<Rightarrow> role option" where
  "compute_role hints =
     (case ph_role hints of
        Some (PvString val) \<Rightarrow>
          if val = ''replica'' then Some Replica else if val = ''primary'' then Some Primary else None
      | _ \<Rightarrow> None)"

section \<open>Comments\<close>

definition comments :: "string \<Rightarrow> bool" where
  "comments c \<longleftrightarrow> c = [] \<or> comment_run c"

lemma leading_step:
  assumes "search_ok S"
    and "(rest, lead) = (case leading_block_comment S q of Some (r, c) \<Rightarrow> (r, Some c) | None \<Rightarrow> (q, None))"
  shows "\<exists>w c v. q = w @ c @ v @ rest \<and> spaces w \<and> spaces v \<and> comments c \<and> (lead = None \<longrightarrow> rest = q) \<and> (\<forall>l. lead = Some l \<longrightarrow> c = l)"
proof (cases "leading_block_comment S q")
  case None
  with assms(2) show ?thesis by (intro exI [of _ "[]"]) (simp add: comments_def)
next
  case (Some p)
  with assms(2) have "leading_block_comment S q = Some (rest, the lead)" "lead \<noteq> None" by (auto split: prod.splits)
  with leading_found [OF assms(1)] show ?thesis unfolding comments_def by (metis option.sel option.distinct(1))
qed

lemma trailing_step:
  assumes "search_ok S"
    and "(rest, trail) = (case trailing_block_comment S q of Some (r, c) \<Rightarrow> (r, Some c) | None \<Rightarrow> (q, None))"
  shows "\<exists>w c v. q = rest @ v @ c @ w \<and> spaces w \<and> spaces v \<and> comments c \<and> (trail = None \<longrightarrow> rest = q)"
proof (cases "trailing_block_comment S q")
  case None
  with assms(2) show ?thesis by (intro exI [of _ "[]"]) (simp add: comments_def)
next
  case (Some p)
  with assms(2) have "trailing_block_comment S q = Some (rest, the trail)" "trail \<noteq> None" by (auto split: prod.splits)
  with trailing_found [OF assms(1)] show ?thesis unfolding comments_def by metis
qed

text \<open>C40: Taking the comments off a query removes comments and whitespace at its two ends only: the query sent on is the
  query without a run of closed comments in front and one behind.\<close>

theorem edge_comments_stripped:
  assumes "search_ok S" "parse_edge_comment S R X schema query = Inr r"
  shows "\<exists>w c v y d z. query = w @ c @ v @ query_deref (qc_query r) @ y @ d @ z
    \<and> list_all spaces [w, v, y, z] \<and> comments c \<and> comments d"
proof -
  obtain rest lead where l: "(rest, lead) = (case leading_block_comment S query of Some (r, c) \<Rightarrow> (r, Some c) | None \<Rightarrow> (query, None))"
    by (metis surj_pair)
  obtain stripped trail
    where t: "(stripped, trail) = (case trailing_block_comment S rest of Some (r, c) \<Rightarrow> (r, Some c) | None \<Rightarrow> (rest, None))"
    by (metis surj_pair)
  obtain w c v where lead: "query = w @ c @ v @ rest" "spaces w" "spaces v" "comments c" "lead = None \<longrightarrow> rest = query"
    using leading_step [OF assms(1) l] by blast
  obtain z d y where trail: "rest = stripped @ y @ d @ z" "spaces y" "spaces z" "comments d" "trail = None \<longrightarrow> stripped = rest"
    using trailing_step [OF assms(1) t] by blast
  have "query_deref (qc_query r) = stripped"
    using assms(2) lead(5) trail(5)
    unfolding parse_edge_comment_def l [symmetric] t [symmetric] Let_def prod.case
    by (auto simp: and_then_eq_Inr split: if_splits prod.splits)
  then have "query = w @ c @ v @ query_deref (qc_query r) @ y @ d @ z" using lead(1) trail(1) by simp
  moreover have "list_all spaces [w, v, y, z]" using lead(2,3) trail(2,3) by simp
  ultimately show ?thesis using lead(4) trail(4) by blast
qed

definition demo_regex :: regex_ops where
  "demo_regex = \<lparr>rx_role = (\<lambda>_. None), rx_sharding_key = (\<lambda>_. None), rx_shard = (\<lambda>c. if c = ''/* pgdog_shard: 3 */'' then Some ''3'' else None)\<rparr>"

definition demo_schema :: "unit sharding_schema" where
  "demo_schema =
     \<lparr>sch_shards = 4, sch_tables = sharded_tables_new [demo_table KtBigint HPostgres] [] False CatalogsSharded,
      sch_schemas = sharded_schemas_new []\<rparr>"

lemma demo_comment:
  "parse_edge_comment naive_search demo_regex demo_ops demo_schema '' /* pgdog_shard: 3 */ SELECT 1 /* x */''
   = Inr \<lparr>qc_query = Stripped ''SELECT 1'', qc_role = None, qc_shard = Some (ShDirect 3)\<rparr>"
  by code_simp

theorem edge_comments_stripped_witness:
  "\<exists>w c v y d z. '' /* pgdog_shard: 3 */ SELECT 1 /* x */'' = w @ c @ v @ ''SELECT 1'' @ y @ d @ z
    \<and> list_all spaces [w, v, y, z] \<and> comments c \<and> comments d"
  using edge_comments_stripped [OF naive_search_ok demo_comment] by simp

definition demo_hints :: parameter_hints where
  "demo_hints =
     \<lparr>ph_search_path = None, ph_shard = Some (PvString ''3''), ph_sharding_key = None, ph_role = None\<rparr>"

section \<open>Hints and priorities\<close>

text \<open>A shard chosen with a session parameter decides against every choice of less priority, whatever the order they are
  made in: tables, round robin and the search path do not override it.\<close>

theorem session_shard_decides:
  assumes "ph_shard hints = Some (PvString s)" "parse_usize s = Some n" "ph_sharding_key hints = None" "ph_search_path hints = None"
    and "\<forall>d\<in>set ds. swp_source d < FromSet"
  shows "\<exists>p. compute_shard X schema hints prio_default = Inr p
    \<and> prio_shard (foldl prio_push p ds) = SWP FromSet (ShDirect (nat n))"
proof -
  let ?s = "SWP FromSet (ShDirect (nat n))" and ?p = "\<lparr>prio_max = Some (SWP FromSet (ShDirect (nat n)))\<rparr>"
  have p: "compute_shard X schema hints prio_default = Inr ?p"
    using assms(1-4) by (simp add: compute_shard_def Let_def prio_push_def prio_default_def swp_new_def)
  have less: "d \<le> ?s" if "d \<in> set ds" for d
    using assms(5) that
    by (auto simp: less_eq_shard_with_priority_def)
  have "Max (set ds \<union> {?s}) = ?s" using less by (intro Max_eqI) auto
  then have "prio_shard (foldl prio_push ?p ds) = ?s"
    by (simp add: prio_shard_def push_all_max split: if_splits)
  with p show ?thesis by blast
qed

lemma parse_three: "parse_usize ''3'' = Some 3"
  by code_simp

theorem session_shard_decides_witness:
  "\<exists>p. compute_shard demo_ops demo_schema demo_hints prio_default = Inr p
    \<and> prio_shard (foldl prio_push p [new_table ShAll, swp_new (FromRoundRobin NoTable) (ShDirect 7)]) = SWP FromSet (ShDirect 3)"
  using session_shard_decides [of demo_hints "''3''" 3 "[new_table ShAll, swp_new (FromRoundRobin NoTable) (ShDirect 7)]"] parse_three
  by (simp add: demo_hints_def swp_new_def less_shard_source_def)

text \<open>If a session names both a shard and a sharding key, neither takes precedence: the greater of the two shard
  numbers decides.\<close>

theorem greater_hint_wins:
  assumes "ph_shard hints = Some (PvString s)" "parse_usize s = Some n" "ph_search_path hints = None"
    and "ph_sharding_key hints = Some (PvString key)" "sss_schemas (sch_schemas schema) = []" "route_key X schema key = Inr (ShDirect m)"
  shows "\<exists>p. compute_shard X schema hints prio_default = Inr p
    \<and> prio_shard p = SWP FromSet (ShDirect (max (nat n) m))"
  using assms
  by (simp add: compute_shard_def Let_def prio_push_def prio_default_def swp_new_def prio_shard_def)
    (auto simp: max_def less_shard_with_priority_def less_shard_def)

theorem greater_hint_wins_witness:
  "\<exists>p. compute_shard demo_ops (demo_schema\<lparr>sch_shards := 2\<rparr>) (demo_hints\<lparr>ph_sharding_key := Some (PvString ''1'')\<rparr>) prio_default = Inr p
    \<and> prio_shard p = SWP FromSet (ShDirect (max 3 0))"
proof -
  have "hash_combine64 0 (hashint8extended 1) mod 2 = 0" using combine_demo(1) by (simp only: hash_int_1)
  then have "unat (bigint_hash 1) mod 2 = 0"
    using unat_mod [of "hash_combine64 0 (hashint8extended 1)" 2] by (simp add: bigint_hash_def)
  then have "route_key demo_ops (demo_schema\<lparr>sch_shards := 2\<rparr>) ''1'' = Inr (ShDirect 0)"
    using parse_one
    by (simp add: route_key_def sharding_result_def demo_schema_def cb_infer_def sharded_tables_new_def demo_table_def
        value_valid_def route_defs hasher_bigint_def hash_shard_def)
  moreover have "sss_schemas (sch_schemas (demo_schema\<lparr>sch_shards := 2\<rparr>)) = []"
    by (simp add: demo_schema_def sharded_schemas_new_def)
  ultimately show ?thesis
    using greater_hint_wins [of "demo_hints\<lparr>ph_sharding_key := Some (PvString ''1'')\<rparr>" "''3''" 3 "''1''" "demo_schema\<lparr>sch_shards := 2\<rparr>" demo_ops 0]
      parse_three
    by (simp add: demo_hints_def)
qed

end
