(* ===== verification/Spec2Isabelle.thy ===== *)
theory Spec2Isabelle
  imports ServerPrepared LoadBalancing UniqueId CrossShardRead RouteHints
begin

text \<open>
  \<^bold>\<open>A verification library of PgDog\<close>, a connection pooler, load balancer and sharding proxy for PostgreSQL. Every
  definition is a translation of the code under \<^verbatim>\<open>src/\<close>; the file and function it translates have the same name up to
  a prefix that tells the structures apart (\<^verbatim>\<open>GlobalCache::insert\<close> is \<open>gc_insert\<close>).

  \<^bold>\<open>The program.\<close> A client sends requests of the PostgreSQL wire protocol. The proxy collects its messages, renames its
  prepared statements to names shared by all clients, chooses a route, takes a server connection for each shard of the
  route from the pools of that shard, sends the request, and turns the replies of the servers into the replies of one
  server.

  \<^bold>\<open>Theories\<close>, from the wire to the client.
  \<^item> \<open>Prelude\<close>: results as sums with \<open>and_then\<close> for the question mark operator, hash maps as association lists whose
    iteration order is a parameter, decimal numbers.
  \<^item> \<open>Messages\<close>, \<open>Codec\<close>, \<open>RowDescription\<close>, \<open>DataRow\<close> (\<^verbatim>\<open>pgdog/src/net/messages\<close>): messages with their encoders and
    decoders. A read past the end of a buffer, which panics, is the error \<open>BufferUnderflow\<close>. The locale \<open>wire_codec\<close> states
    the round trip of a message kind and is interpreted for each; renaming in place gives what decoding, renaming and
    encoding gives.
  \<^item> \<open>GlobalCache\<close>, \<open>FrontendPrepared\<close> (\<^verbatim>\<open>frontend/prepared_statements\<close>): the cache of statements shared by all clients and
    the names of one client. The cache stays well-formed, a global name identifies a statement, and sharing refines clients
    that have statements of their own.
  \<^item> \<open>ProtocolState\<close>, \<open>ServerPrepared\<close> (\<^verbatim>\<open>backend/protocol/state.rs\<close>, \<^verbatim>\<open>backend/prepared_statements.rs\<close>, the send and
    read steps of \<^verbatim>\<open>backend/server.rs\<close>): the queue of expected replies and the statements a server has prepared. A client
    reads the replies it would get from the server directly. The cache of the \<^verbatim>\<open>lru\<close> crate is a record of operations with
    the laws \<open>lru_laws\<close>.
  \<^item> \<open>PoolTaken\<close>, \<open>PoolInner\<close>, \<open>PoolReach\<close> (\<^verbatim>\<open>backend/pool\<close>): the connections of a pool under its lock. The operations of
    clients and background tasks are an inductive step relation; the invariant holds in every reachable pool.
  \<^item> \<open>LoadBalancer\<close>, \<open>LoadBalancing\<close> (\<^verbatim>\<open>backend/pool/lb\<close>, \<^verbatim>\<open>backend/pool/shard\<close>): candidates, strategies, bans, roles
    and replica lag.
  \<^item> \<open>UniqueId\<close> (\<^verbatim>\<open>unique_id.rs\<close>): both layouts of the generator, with the locale \<open>id_layout\<close> for what they share.
  \<^item> \<open>Comparison\<close>, \<open>Datum\<close> (\<^verbatim>\<open>pgdog-postgres-types\<close>): the contract of \<^verbatim>\<open>Ord\<close> as the locale \<open>ord_contract\<close>, stable sorting
    over it, and values of columns with their text and binary forms.
  \<^item> \<open>Aggregates\<close>, \<open>RowBuffer\<close> (\<^verbatim>\<open>backend/pool/connection\<close>): partial aggregates of shards are merged, rows are sorted,
    made distinct and cut to a page. Merged rows are those of one server, up to the order of equal rows.
  \<^item> \<open>Route\<close> (\<^verbatim>\<open>frontend/router/parser/route.rs\<close>): shards, where a decision comes from, with the derived orders as instances
    of \<open>linorder\<close>, and the route with its predicates.
  \<^item> \<open>HashFn\<close> (\<^verbatim>\<open>frontend/router/sharding/hashfn.c\<close>): the hash of PostgreSQL on 32 and 64 bit words, with its wrap-around. The
    paths for aligned and unaligned keys agree, and a bigint that fits in four bytes hashes as the integer does.
  \<^item> \<open>ShardKey\<close>, \<open>Sharding\<close> (\<^verbatim>\<open>frontend/router/sharding\<close>, \<^verbatim>\<open>backend/replication/sharded_*.rs\<close>, \<^verbatim>\<open>pgdog-config/src/sharding.rs\<close>): values
    of keys, both hashers, the sharding by hash, range, list, centroid and schema, the builder of contexts and the lookup of
    keys. An integer key goes to the same shard in its text and its binary forms, a range rule is half-open, and the first
    schema of the search path that is mapped decides.
  \<^item> \<open>BlockComment\<close>, \<open>RouteHints\<close> (\<^verbatim>\<open>frontend/router/parser/comment\<close>, \<^verbatim>\<open>parameter_hints.rs\<close>): the comments at both ends of a
    query and the shard and role that comments and session parameters ask for. Only closed comments and whitespace are
    taken off.
  \<^item> \<open>ClientRequest\<close> (\<^verbatim>\<open>frontend/client_request.rs\<close>): the messages of a request and the split of a pipeline.
  \<^item> \<open>MultiShard\<close>, \<open>ShardBinding\<close> (\<^verbatim>\<open>backend/pool/connection/multi_shard\<close>, \<^verbatim>\<open>binding.rs\<close>, \<^verbatim>\<open>mod.rs\<close>): counting and merging
    the replies of shards, the servers of a client, sending, reading and two-phase commit.
  \<^item> \<open>CrossShardRead\<close>: the parts together. Over the read loop and the loop of the query engine, the client reads one
    description, the merged rows, one completion and one \<^verbatim>\<open>ReadyForQuery\<close>.

  \<^bold>\<open>State and effects.\<close> Structures are records, enumerations are datatypes, methods take and return the structure.
  Operations that lock, await or panic are total functions whose result says which of these happened. Integers are \<open>int\<close> and
  \<open>nat\<close> with the wrap-around written out where the code can reach it (lengths on the wire, aggregates, weights, identifiers), words in the C code;
  counters of messages, which cannot reach the size of a machine word, are plain natural numbers.

  \<^bold>\<open>Parameters.\<close> Code outside the repository is an argument: the LRU cache, the iteration order of hash maps, clocks, random
  shuffles, checkouts of connections, sockets of servers, the syntax trees of \<^verbatim>\<open>pg_query\<close>, and the arithmetic of decimal,
  floating point, interval, vector, timestamp and UUID values (the record \<open>type_ops\<close>), the parsing of UUIDs, SHA-1
  and the byte order and alignment of keys in memory (\<open>key_ops\<close>), substring search (\<open>search_ops\<close>) and the matches of regular expressions (\<open>regex_ops\<close>). What is
  relied on is a named hypothesis (\<open>lru_laws\<close>, \<open>permutes\<close>, \<open>ops_ordered\<close>, \<open>encodes_all\<close>, \<open>serves\<close>, \<open>search_ok\<close>), and a
  witness instantiates each.

  \<^bold>\<open>Loops.\<close> Loops over data are structural recursion; the loops over the comments of a query and over the blocks of
  a hashed key are total by a measure. Those that may run forever are \<open>partial_function (option)\<close>, where
  \<open>None\<close> is not returning: the wait of the id generator, the chain of moved pools, the eviction loop, the read of several
  shards and the exchange with the servers. That they return is proved as such; no fuel is used.

  \<^bold>\<open>What the theorems do not say.\<close> Interleavings are at the granularity of the locks, as the code's critical sections are.
  The theorem on the replies of shards is for statements whose rows are merged and for shards that answer the simple form
  description, rows, completion, ready; it does not need them to answer in step.

  \<^bold>\<open>Not modelled.\<close>
  \<^item> The SQL parser, the router's walk over syntax trees and the rewriting of statements (\<^verbatim>\<open>frontend/router/parser\<close> apart from
    comments and the route, order, distinct, limit and aggregate types): they are functions of the trees of \<^verbatim>\<open>pg_query\<close>.
  \<^item> The split of COPY data into rows, which streams through the reader of the \<^verbatim>\<open>csv_core\<close> crate, and the copy of data between
    shards, which drives replication over sockets.
  \<^item> The distances of vectors, which are IEEE arithmetic, and the files that centroids are loaded from: the results are
    parameters.
  \<^item> The log and recovery of two-phase commits, replication, sessions of clients outside the exchange of a request,
    schema synchronisation, mirroring, publish and subscribe: tasks made of input and output.
  \<^item> Authentication, TLS, configuration files, the admin database, statistics, metrics, plugins and the command line: input
    and output, third-party cryptography, formatting and generated code.
\<close>

end
